(* ===== verification/Prelude.thy ===== *)
theory Prelude
  imports Main "HOL-Library.Word"
begin

text \<open>
  Shared ground of the development: the names of the machine types, the theorem
  collections that carry the component proofs, the C library's character classes in the
  C locale, exhaustive reasoning over bytes, and the list and word lemmas that several
  components use.

  Conventions.  A byte of a file is a \<open>u8\<close>; a buffer is a \<open>u8 list\<close>; a pointer \<open>uc\<close> that walks
  towards an end pointer \<open>ue\<close> is the list of bytes between the two, so that \<open>uc == ue\<close> is the
  empty list, \<open>*uc++\<close> takes the head, and \<open>ue - uc\<close> is the length.  Sizes that never exceed the
  length of a buffer are \<open>nat\<close>; values that the C code lets wrap keep their width.
\<close>

unbundle bit_operations_syntax

type_synonym u8 = "8 word"
type_synonym u16 = "16 word"
type_synonym u32 = "32 word"
type_synonym u64 = "64 word"

text \<open>The collections: frame facts (which fields an operation keeps), suffix facts (a parser
  returns a suffix of its input) and length bounds of the text decoders.\<close>

named_theorems ms_frame "fields of the magic set an operation leaves alone"
named_theorems suffix_facts "parsers return a suffix of their input"
named_theorems decoder_bounds "the decoded text is no longer than the input"

subsection \<open>Character classes of the C locale\<close>

definition isspace :: "u8 \<Rightarrow> bool" where
  "isspace c \<longleftrightarrow> c = 0x20 \<or> 0x09 \<le> c \<and> c \<le> 0x0d"

definition isdigit :: "u8 \<Rightarrow> bool" where
  "isdigit c \<longleftrightarrow> 0x30 \<le> c \<and> c \<le> 0x39"

definition isupper :: "u8 \<Rightarrow> bool" where
  "isupper c \<longleftrightarrow> 0x41 \<le> c \<and> c \<le> 0x5a"

definition islower :: "u8 \<Rightarrow> bool" where
  "islower c \<longleftrightarrow> 0x61 \<le> c \<and> c \<le> 0x7a"

definition isalpha :: "u8 \<Rightarrow> bool" where
  "isalpha c \<longleftrightarrow> isupper c \<or> islower c"

definition isprint :: "u8 \<Rightarrow> bool" where
  "isprint c \<longleftrightarrow> 0x20 \<le> c \<and> c \<le> 0x7e"

definition tolower :: "u8 \<Rightarrow> u8" where
  "tolower c = (if isupper c then c + 0x20 else c)"

definition toupper :: "u8 \<Rightarrow> u8" where
  "toupper c = (if islower c then c - 0x20 else c)"

subsection \<open>C strings and literals\<close>

definition bytes_of :: "string \<Rightarrow> u8 list" where
  "bytes_of s = map of_char s"

definition string_of :: "u8 list \<Rightarrow> string" where
  "string_of bs = map (\<lambda>b. char_of (unat b)) bs"

text \<open>The characters of a NUL-terminated array, up to the terminator.\<close>

definition cstr :: "u8 list \<Rightarrow> u8 list" where
  "cstr bs = takeWhile (\<lambda>b. b \<noteq> 0) bs"

lemma length_bytes_of [simp]: "length (bytes_of s) = length s"
  by (simp add: bytes_of_def)

lemma length_string_of [simp]: "length (string_of bs) = length bs"
  by (simp add: string_of_def)

lemma bytes_of_Nil [simp]: "bytes_of [] = []"
  by (simp add: bytes_of_def)

lemma string_of_Nil [simp]: "string_of [] = []"
  by (simp add: string_of_def)

lemma length_cstr_le: "length (cstr bs) \<le> length bs"
  by (simp add: cstr_def length_takeWhile_le)

lemma cstr_no_nul: "0 \<notin> set (cstr bs)"
  unfolding cstr_def by (metis (full_types) set_takeWhileD)

subsection \<open>Exhaustive reasoning over bytes\<close>

lemma all_u8: "(\<forall>b::u8. P b) \<longleftrightarrow> list_all (\<lambda>n. P (word_of_nat n)) [0..<256]"
proof
  assume "list_all (\<lambda>n. P (word_of_nat n)) [0..<256]"
  then have *: "P (word_of_nat n)" if "n < 256" for n
    using that by (simp add: list_all_iff)
  show "\<forall>b::u8. P b"
  proof
    fix b :: u8
    have "unat b < 2 ^ LENGTH(8)" by (rule unsigned_less)
    then have "unat b < 256" by simp
    from * [OF this] show "P b" by simp
  qed
qed (simp add: list_all_iff)

lemma list_all_uptD: "list_all P [m..<n] \<Longrightarrow> m \<le> q \<Longrightarrow> q < n \<Longrightarrow> P q"
  by (simp only: list_all_iff set_upt) simp

lemma word_of_nat_unat_diff: "k \<le> unat (b::'a::len word) \<Longrightarrow> b = word_of_nat (k + (unat b - k))"
  by simp

lemma unat_u8_less [simp]: "unat (b::u8) < 256"
proof -
  have "unat b < 2 ^ LENGTH(8)" by (rule unsigned_less)
  then show ?thesis by simp
qed

subsection \<open>Suffixes of a buffer\<close>

definition is_suffix :: "'a list \<Rightarrow> 'a list \<Rightarrow> bool" where
  "is_suffix ys xs \<longleftrightarrow> (\<exists>zs. xs = zs @ ys)"

lemma is_suffix_refl [simp, suffix_facts]: "is_suffix xs xs"
  unfolding is_suffix_def by (rule exI [where x = "[]"]) simp

lemma is_suffix_trans: "is_suffix zs ys \<Longrightarrow> is_suffix ys xs \<Longrightarrow> is_suffix zs xs"
  unfolding is_suffix_def by (metis append_assoc)

lemma is_suffix_Cons: "is_suffix ys xs \<Longrightarrow> is_suffix ys (x # xs)"
  unfolding is_suffix_def by (metis append_Cons)

lemma is_suffix_ConsD: "is_suffix (y # ys) xs \<Longrightarrow> is_suffix ys xs"
  unfolding is_suffix_def by (metis append.assoc append_Cons append_Nil)

lemma is_suffix_Nil [simp]: "is_suffix [] xs"
  unfolding is_suffix_def by simp

lemma is_suffix_dropWhile: "is_suffix (dropWhile P xs) xs"
  unfolding is_suffix_def by (metis takeWhile_dropWhile_id)

lemma is_suffix_drop: "is_suffix (drop n xs) xs"
  unfolding is_suffix_def by (metis append_take_drop_id)

lemma is_suffix_length: "is_suffix ys xs \<Longrightarrow> length ys \<le> length xs"
  unfolding is_suffix_def by auto

lemma is_suffix_set: "is_suffix ys xs \<Longrightarrow> set ys \<subseteq> set xs"
  unfolding is_suffix_def by auto

subsection \<open>Words as numbers\<close>

lemma unat_and_mask: "unat (w AND mask n) = unat w mod 2 ^ n"
  by (subst take_bit_eq_mask [symmetric], subst unsigned_take_bit_eq) (rule take_bit_eq_mod)

lemma unat_drop_bit: "unat (drop_bit n w) = unat w div 2 ^ n"
  by (subst unat_drop_bit_eq) (rule drop_bit_eq_div)

lemma unat_word_of_nat: "n < 2 ^ LENGTH('a::len) \<Longrightarrow> unat (word_of_nat n :: 'a word) = n"
  by (simp add: unat_of_nat)

end
