(* ===== verification/Bytes.thy ===== *)
theory Bytes
  imports Prelude
begin

text \<open>
  Numbers as byte sequences: the value of a little-endian byte string and the bytes of a number,
  shared by the components that read integers from files.  The modelled host is a 64-bit machine;
  where the source asks for the host's byte order, it is a parameter.
\<close>

fun le_nat :: "u8 list \<Rightarrow> nat" where
  "le_nat [] = 0"
| "le_nat (b # bs) = unat b + 256 * le_nat bs"

fun to_le :: "nat \<Rightarrow> nat \<Rightarrow> u8 list" where
  "to_le 0 n = []"
| "to_le (Suc k) n = word_of_nat (n mod 256) # to_le k (n div 256)"

lemma length_to_le [simp]: "length (to_le k n) = k"
  by (induction k arbitrary: n) auto

lemma le_nat_less: "le_nat bs < 256 ^ length bs"
proof (induction bs)
  case (Cons b bs)
  have "unat b + 256 * le_nat bs < 256 + 256 * le_nat bs" by simp
  also have "\<dots> = 256 * Suc (le_nat bs)" by simp
  also have "\<dots> \<le> 256 * 256 ^ length bs" using Cons by (intro mult_le_mono) auto
  finally show ?case by simp
qed simp

lemma le_nat_to_le: "le_nat (to_le k n) = n mod 256 ^ k"
proof (induction k arbitrary: n)
  case (Suc k)
  have "unat (word_of_nat (n mod 256) :: u8) = n mod 256" by (simp add: unat_of_nat)
  then show ?case using mod_mult2_eq [of n 256 "256 ^ k"] by (simp add: Suc)
qed simp

lemma to_le_le_nat: "to_le (length bs) (le_nat bs) = bs"
proof (induction bs)
  case (Cons b bs)
  have "(unat b + 256 * le_nat bs) mod 256 = unat b" "(unat b + 256 * le_nat bs) div 256 = le_nat bs" by auto
  then show ?case by (simp add: Cons)
qed simp

lemma le_nat_inj: "length xs = length ys \<Longrightarrow> le_nat xs = le_nat ys \<longleftrightarrow> xs = ys"
  by (metis to_le_le_nat)

lemma le_nat_append: "le_nat (xs @ ys) = le_nat xs + 256 ^ length xs * le_nat ys"
  by (induction xs) (auto simp: algebra_simps)

text \<open>Reading and writing a word through memory on a host whose byte order is big-endian or not.\<close>

definition host_word :: "bool \<Rightarrow> u8 list \<Rightarrow> 'a::len word" where
  "host_word big bs = word_of_nat (le_nat (if big then rev bs else bs))"

definition host_bytes :: "bool \<Rightarrow> nat \<Rightarrow> 'a::len word \<Rightarrow> u8 list" where
  "host_bytes big k w = (let bs = to_le k (unat w) in if big then rev bs else bs)"

lemma length_host_bytes [simp]: "length (host_bytes big k w) = k"
  by (simp add: host_bytes_def Let_def)

lemma host_word_bytes:
  assumes "LENGTH('a::len) \<le> 8 * k"
  shows "host_word big (host_bytes big k (w :: 'a word)) = w"
proof -
  have "unat w < 2 ^ (8 * k)"
    using unsigned_less [of w] assms by (meson less_le_trans one_le_numeral power_increasing)
  then have "unat w < 256 ^ k" by (simp add: power_mult)
  then show ?thesis by (simp add: host_word_def host_bytes_def Let_def le_nat_to_le)
qed

lemma host_bytes_word:
  assumes "LENGTH('a::len) = 8 * length bs"
  shows "host_bytes big (length bs) (host_word big bs :: 'a word) = bs"
proof -
  have u: "unat (word_of_nat (le_nat xs) :: 'a word) = le_nat xs" if "length xs = length bs" for xs
    using le_nat_less [of xs] that by (simp add: unat_of_nat assms power_mult)
  show ?thesis
    using to_le_le_nat [of bs] to_le_le_nat [of "rev bs"] u [of bs] u [of "rev bs"]
    by (auto simp: host_word_def host_bytes_def Let_def)
qed

text \<open>Shifting bytes into a word, most significant first.\<close>

lemma shift8_or:
  "push_bit 8 w OR ucast (b :: u8) = (w * 256 + ucast b :: 'a::len word)"
proof -
  have "push_bit 8 w AND ucast b = (0 :: 'a word)"
  proof (rule bit_eqI)
    fix n
    show "bit (push_bit 8 w AND (ucast b :: 'a word)) n \<longleftrightarrow> bit (0 :: 'a word) n"
      using bit_imp_le_length [of b n] by (auto simp: bit_and_iff bit_push_bit_iff bit_unsigned_iff)
  qed
  then show ?thesis by (simp add: push_bit_eq_mult flip: disjunctive_add_eq_or)
qed

lemma word_of_nat_shift8:
  "push_bit 8 (word_of_nat n) OR ucast (b :: u8) = (word_of_nat (n * 256 + unat b) :: 'a::len word)"
  by (simp add: shift8_or unsigned_ucast_eq)

lemma unat_ucast_u8: "8 \<le> LENGTH('a::len) \<Longrightarrow> unat (ucast (b :: u8) :: 'a word) = unat b"
proof -
  assume "8 \<le> LENGTH('a)"
  then have "(2 :: nat) ^ 8 \<le> 2 ^ LENGTH('a)" by (rule power_increasing) simp
  then have "unat b < 2 ^ LENGTH('a)" using less_le_trans [OF unat_u8_less] by simp
  then show ?thesis by (simp only: unsigned_ucast_eq take_bit_nat_eq_self)
qed

lemma fold_shift8:
  "fold (\<lambda>b l. push_bit 8 l OR ucast b) bs (word_of_nat n :: 'a::len word) =
   word_of_nat (n * 256 ^ length bs + le_nat (rev bs))"
proof (induction bs arbitrary: n)
  case (Cons b bs)
  then show ?case by (simp add: word_of_nat_shift8 le_nat_append algebra_simps del: of_nat_add of_nat_mult)
qed simp

end
