(* ===== verification/Encoding.thy ===== *)
theory Encoding
  imports Prelude
begin

text \<open>
  The character-encoding detector, \<^verbatim>\<open>src/encoding.c\<close>: the byte classes, the single-byte tests
  generated by the \<^verbatim>\<open>LOOKS\<close> macro, the UTF-8, UTF-7, UTF-16 and UTF-32 decoders, the EBCDIC
  translation and \<^verbatim>\<open>file_encoding\<close>, which tries them in order.

  A decoder of the source writes characters to \<open>ubuf\<close> and their number to \<open>*ulen\<close>; here it takes
  the first \<open>*ulen\<close> entries as a list \<open>ub\<close> and returns them updated, so a test that returns before it
  resets \<open>*ulen\<close> returns \<open>ub\<close> itself.  The type \<^verbatim>\<open>file_unichar_t\<close> is \<^verbatim>\<open>unsigned long\<close>, 64 bits.
\<close>

subsection \<open>The byte classes\<close>

definition cls_F :: nat where "cls_F = 0"
definition cls_T :: nat where "cls_T = 1"
definition cls_I :: nat where "cls_I = 2"
definition cls_X :: nat where "cls_X = 3"

lemmas cls_defs = cls_F_def cls_T_def cls_I_def cls_X_def

definition text_chars :: "nat list" where
  "text_chars =
    [0, 0, 0, 0, 0, 0, 0, 1, 1, 1, 1, 1, 1, 1, 1, 1,
     0, 0, 0, 0, 0, 0, 0, 0, 0, 0, 1, 1, 0, 0, 0, 0,
     1, 1, 1, 1, 1, 1, 1, 1, 1, 1, 1, 1, 1, 1, 1, 1,
     1, 1, 1, 1, 1, 1, 1, 1, 1, 1, 1, 1, 1, 1, 1, 1,
     1, 1, 1, 1, 1, 1, 1, 1, 1, 1, 1, 1, 1, 1, 1, 1,
     1, 1, 1, 1, 1, 1, 1, 1, 1, 1, 1, 1, 1, 1, 1, 1,
     1, 1, 1, 1, 1, 1, 1, 1, 1, 1, 1, 1, 1, 1, 1, 1,
     1, 1, 1, 1, 1, 1, 1, 1, 1, 1, 1, 1, 1, 1, 1, 0,
     3, 3, 3, 3, 3, 1, 3, 3, 3, 3, 3, 3, 3, 3, 3, 3,
     3, 3, 3, 3, 3, 3, 3, 3, 3, 3, 3, 3, 3, 3, 3, 3,
     2, 2, 2, 2, 2, 2, 2, 2, 2, 2, 2, 2, 2, 2, 2, 2,
     2, 2, 2, 2, 2, 2, 2, 2, 2, 2, 2, 2, 2, 2, 2, 2,
     2, 2, 2, 2, 2, 2, 2, 2, 2, 2, 2, 2, 2, 2, 2, 2,
     2, 2, 2, 2, 2, 2, 2, 2, 2, 2, 2, 2, 2, 2, 2, 2,
     2, 2, 2, 2, 2, 2, 2, 2, 2, 2, 2, 2, 2, 2, 2, 2,
     2, 2, 2, 2, 2, 2, 2, 2, 2, 2, 2, 2, 2, 2, 2, 2]"

definition tclass :: "u8 \<Rightarrow> nat" where
  "tclass b = text_chars ! unat b"

subsection \<open>The single-byte tests\<close>

text \<open>The loop body of the \<^verbatim>\<open>LOOKS\<close> macro, over the condition that rejects a class.\<close>

fun looks_loop :: "(nat \<Rightarrow> bool) \<Rightarrow> u8 list \<Rightarrow> u64 list \<Rightarrow> int \<times> u64 list" where
  "looks_loop bad [] ub = (1, ub)"
| "looks_loop bad (b # bs) ub =
     (if bad (tclass b) then (0, ub) else looks_loop bad bs (ub @ [ucast b]))"

definition looks_ascii :: "u8 list \<Rightarrow> u64 list \<Rightarrow> int \<times> u64 list" where
  "looks_ascii buf ub = looks_loop (\<lambda>t. t \<noteq> cls_T) buf []"

definition looks_latin1 :: "u8 list \<Rightarrow> u64 list \<Rightarrow> int \<times> u64 list" where
  "looks_latin1 buf ub = looks_loop (\<lambda>t. t \<noteq> cls_T \<and> t \<noteq> cls_I) buf []"

definition looks_extended :: "u8 list \<Rightarrow> u64 list \<Rightarrow> int \<times> u64 list" where
  "looks_extended buf ub = looks_loop (\<lambda>t. t \<noteq> cls_T \<and> t \<noteq> cls_I \<and> t \<noteq> cls_X) buf []"

subsection \<open>UTF-8\<close>

definition utf8_XX :: u8 where "utf8_XX = 0xF1"
definition utf8_AS :: u8 where "utf8_AS = 0xF0"
definition utf8_S1 :: u8 where "utf8_S1 = 0x02"
definition utf8_S2 :: u8 where "utf8_S2 = 0x13"
definition utf8_S3 :: u8 where "utf8_S3 = 0x03"
definition utf8_S4 :: u8 where "utf8_S4 = 0x23"
definition utf8_S5 :: u8 where "utf8_S5 = 0x34"
definition utf8_S6 :: u8 where "utf8_S6 = 0x04"
definition utf8_S7 :: u8 where "utf8_S7 = 0x44"

lemmas utf8_sizes = utf8_XX_def utf8_AS_def utf8_S1_def utf8_S2_def utf8_S3_def
  utf8_S4_def utf8_S5_def utf8_S6_def utf8_S7_def

text \<open>Information about the first byte of a sequence: eight rows of \<^verbatim>\<open>AS\<close>, four of \<^verbatim>\<open>XX\<close>, then the
  lead bytes.\<close>

definition utf8_first :: "u8 list" where
  "utf8_first =
     replicate 128 utf8_AS @ replicate 64 utf8_XX @
     [utf8_XX, utf8_XX] @ replicate 14 utf8_S1 @
     replicate 16 utf8_S1 @
     [utf8_S2, utf8_S3, utf8_S3, utf8_S3, utf8_S3, utf8_S3, utf8_S3, utf8_S3,
      utf8_S3, utf8_S3, utf8_S3, utf8_S3, utf8_S3, utf8_S4, utf8_S3, utf8_S3] @
     [utf8_S5, utf8_S6, utf8_S6, utf8_S6, utf8_S7, utf8_XX, utf8_XX, utf8_XX,
      utf8_XX, utf8_XX, utf8_XX, utf8_XX, utf8_XX, utf8_XX, utf8_XX, utf8_XX]"

text \<open>The array has sixteen entries of which the first five are initialised.\<close>

definition accept_ranges :: "(u8 \<times> u8) list" where
  "accept_ranges =
     [(0x80, 0xBF), (0xA0, 0xBF), (0x80, 0x9F), (0x90, 0xBF), (0x80, 0x8F)] @ replicate 11 (0, 0)"

text \<open>The payload bits of a lead byte and the number of bytes that follow it; \<open>None\<close> is the final
  \<^verbatim>\<open>return -1\<close> of the chain.\<close>

definition utf8_lead :: "u8 \<Rightarrow> (u64 \<times> nat) option" where
  "utf8_lead b =
     (if b AND 0x20 = 0 then Some (ucast (b AND 0x1f), 1)
      else if b AND 0x10 = 0 then Some (ucast (b AND 0x0f), 2)
      else if b AND 0x08 = 0 then Some (ucast (b AND 0x07), 3)
      else if b AND 0x04 = 0 then Some (ucast (b AND 0x03), 4)
      else if b AND 0x02 = 0 then Some (ucast (b AND 0x01), 5)
      else None)"

text \<open>The inner loop over the bytes that follow: the input ends early (\<^verbatim>\<open>goto done\<close>), a byte is wrong
  (\<^verbatim>\<open>return -1\<close>), or the character is complete.\<close>

datatype follow = Truncated | Invalid | Complete u64 "u8 list"

fun utf8_follow :: "nat \<Rightarrow> nat \<Rightarrow> u8 \<times> u8 \<Rightarrow> u64 \<Rightarrow> u8 list \<Rightarrow> follow" where
  "utf8_follow n following ar c [] = (if n < following then Truncated else Complete c [])"
| "utf8_follow n following ar c (b # bs) =
     (if n < following then
        (if n = 0 \<and> (b < fst ar \<or> b > snd ar) then Invalid
         else if b AND 0x80 = 0 \<or> b AND 0x40 \<noteq> 0 then Invalid
         else utf8_follow (Suc n) following ar (push_bit 6 c + ucast (b AND 0x3f)) bs)
      else Complete c (b # bs))"

lemma utf8_follow_shorter:
  "utf8_follow n following ar c bs = Complete c' bs' \<Longrightarrow> length bs' \<le> length bs"
  by (induction bs arbitrary: n c) (auto split: if_splits intro: le_SucI)

function utf8_loop :: "u8 list \<Rightarrow> u64 list \<Rightarrow> bool \<Rightarrow> bool \<Rightarrow> int \<times> u64 list" where
  "utf8_loop [] ub gotone ctrl = ((if ctrl then 0 else if gotone then 2 else 1), ub)"
| "utf8_loop (b # bs) ub gotone ctrl =
     (if b AND 0x80 = 0 then
        utf8_loop bs (ub @ [ucast b]) gotone (ctrl \<or> tclass b \<noteq> cls_T)
      else if b AND 0x40 = 0 then (-1, ub)
      else
        (let x = utf8_first ! unat b; ar = accept_ranges ! unat (drop_bit 4 x) in
         if x = utf8_XX then (-1, ub)
         else case utf8_lead b of
             None \<Rightarrow> (-1, ub)
           | Some (c, following) \<Rightarrow>
               (case utf8_follow 0 following ar c bs of
                  Truncated \<Rightarrow> ((if ctrl then 0 else if gotone then 2 else 1), ub)
                | Invalid \<Rightarrow> (-1, ub)
                | Complete c' bs' \<Rightarrow> utf8_loop bs' (ub @ [c']) True ctrl)))"
  by pat_completeness auto
termination
  by (relation "measure (\<lambda>(bs, _). length bs)") (auto dest!: utf8_follow_shorter)

definition file_looks_utf8 :: "u8 list \<Rightarrow> u64 list \<Rightarrow> int \<times> u64 list" where
  "file_looks_utf8 buf ub = utf8_loop buf [] False False"

definition looks_utf8_with_BOM :: "u8 list \<Rightarrow> u64 list \<Rightarrow> int \<times> u64 list" where
  "looks_utf8_with_BOM buf ub =
     (if length buf > 3 \<and> buf ! 0 = 0xef \<and> buf ! 1 = 0xbb \<and> buf ! 2 = 0xbf
      then file_looks_utf8 (drop 3 buf) ub else (-1, ub))"

subsection \<open>UTF-7, UTF-16, UTF-32\<close>

definition looks_utf7 :: "u8 list \<Rightarrow> u64 list \<Rightarrow> int \<times> u64 list" where
  "looks_utf7 buf ub =
     (if length buf > 4 \<and> buf ! 0 = 0x2b \<and> buf ! 1 = 0x2f \<and> buf ! 2 = 0x76
      then (if buf ! 3 \<in> {0x38, 0x39, 0x2b, 0x2f} then (1, []) else (-1, ub))
      else (-1, ub))"

definition UCS16_NOCHAR :: "u32 \<Rightarrow> bool" where
  "UCS16_NOCHAR c \<longleftrightarrow> 0xfdd0 \<le> c \<and> c \<le> 0xfdef"

definition UCS16_HISURR :: "u32 \<Rightarrow> bool" where
  "UCS16_HISURR c \<longleftrightarrow> 0xd800 \<le> c \<and> c \<le> 0xdbff"

definition UCS16_LOSURR :: "u32 \<Rightarrow> bool" where
  "UCS16_LOSURR c \<longleftrightarrow> 0xdc00 \<le> c \<and> c \<le> 0xdfff"

definition NOTTEXT :: "'a::len word \<Rightarrow> bool" where
  "NOTTEXT c \<longleftrightarrow> unat c < 128 \<and> text_chars ! unat c \<noteq> cls_T \<and> c \<noteq> 0"

definition ucs16_unit :: "bool \<Rightarrow> u8 \<Rightarrow> u8 \<Rightarrow> u32" where
  "ucs16_unit bigend b0 b1 =
     (if bigend then ucast b1 OR push_bit 8 (ucast b0) else ucast b0 OR push_bit 8 (ucast b1)) AND 0xffff"

fun ucs16_loop :: "bool \<Rightarrow> u32 \<Rightarrow> u8 list \<Rightarrow> u64 list \<Rightarrow> int \<times> u64 list" where
  "ucs16_loop bigend hi (b0 # b1 # bs) ub =
     (let uc = ucs16_unit bigend b0 b1 in
      if uc = 0xfffe \<or> uc = 0xffff then (0, ub)
      else if UCS16_NOCHAR uc then (0, ub)
      else if hi \<noteq> 0 \<and> \<not> UCS16_LOSURR uc then (0, ub)
      else
        (let uc' = (if hi \<noteq> 0 then 0x10000 + 0x400 * (hi - 1) + (uc - 0xdc00) else uc) in
         if NOTTEXT uc' then (0, ub)
         else if UCS16_LOSURR uc' then (0, ub @ [ucast uc'])
         else ucs16_loop bigend (if UCS16_HISURR uc' then uc' - 0xd800 + 1 else 0) bs
                (ub @ [ucast uc'])))"
| "ucs16_loop bigend hi _ ub = ((if bigend then 2 else 1), ub)"

definition looks_ucs16 :: "u8 list \<Rightarrow> u64 list \<Rightarrow> int \<times> u64 list" where
  "looks_ucs16 bf ub =
     (if length bf < 2 then (0, ub)
      else if bf ! 0 = 0xff \<and> bf ! 1 = 0xfe then ucs16_loop False 0 (drop 2 bf) []
      else if bf ! 0 = 0xfe \<and> bf ! 1 = 0xff then ucs16_loop True 0 (drop 2 bf) []
      else (0, ub))"

definition ucs32_unit :: "bool \<Rightarrow> u8 \<Rightarrow> u8 \<Rightarrow> u8 \<Rightarrow> u8 \<Rightarrow> u64" where
  "ucs32_unit bigend b0 b1 b2 b3 =
     (if bigend
      then ucast b3 OR push_bit 8 (ucast b2) OR push_bit 16 (ucast b1) OR push_bit 24 (ucast b0)
      else ucast b0 OR push_bit 8 (ucast b1) OR push_bit 16 (ucast b2) OR push_bit 24 (ucast b3))"

fun ucs32_loop :: "bool \<Rightarrow> u8 list \<Rightarrow> u64 list \<Rightarrow> int \<times> u64 list" where
  "ucs32_loop bigend (b0 # b1 # b2 # b3 # bs) ub =
     (let uc = ucs32_unit bigend b0 b1 b2 b3 in
      if uc = 0xfffe \<or> NOTTEXT uc then (0, ub @ [uc]) else ucs32_loop bigend bs (ub @ [uc]))"
| "ucs32_loop bigend _ ub = ((if bigend then 2 else 1), ub)"

definition looks_ucs32 :: "u8 list \<Rightarrow> u64 list \<Rightarrow> int \<times> u64 list" where
  "looks_ucs32 bf ub =
     (if length bf < 4 then (0, ub)
      else if bf ! 0 = 0xff \<and> bf ! 1 = 0xfe \<and> bf ! 2 = 0 \<and> bf ! 3 = 0
      then ucs32_loop False (drop 4 bf) []
      else if bf ! 0 = 0 \<and> bf ! 1 = 0 \<and> bf ! 2 = 0xfe \<and> bf ! 3 = 0xff
      then ucs32_loop True (drop 4 bf) []
      else (0, ub))"

subsection \<open>EBCDIC\<close>

definition ebcdic_to_ascii :: "u8 list" where
  "ebcdic_to_ascii =
    [0, 1, 2, 3, 156, 9, 134, 127, 151, 141, 142, 11, 12, 13, 14, 15,
     16, 17, 18, 19, 157, 133, 8, 135, 24, 25, 146, 143, 28, 29, 30, 31,
     128, 129, 130, 131, 132, 10, 23, 27, 136, 137, 138, 139, 140, 5, 6, 7,
     144, 145, 22, 147, 148, 149, 150, 4, 152, 153, 154, 155, 20, 21, 158, 26,
     32, 160, 161, 162, 163, 164, 165, 166, 167, 168, 213, 46, 60, 40, 43, 124,
     38, 169, 170, 171, 172, 173, 174, 175, 176, 177, 33, 36, 42, 41, 59, 126,
     45, 47, 178, 179, 180, 181, 182, 183, 184, 185, 203, 44, 37, 95, 62, 63,
     186, 187, 188, 189, 190, 191, 192, 193, 194, 96, 58, 35, 64, 39, 61, 34,
     195, 97, 98, 99, 100, 101, 102, 103, 104, 105, 196, 197, 198, 199, 200, 201,
     202, 106, 107, 108, 109, 110, 111, 112, 113, 114, 94, 204, 205, 206, 207, 208,
     209, 229, 115, 116, 117, 118, 119, 120, 121, 122, 210, 211, 212, 91, 214, 215,
     216, 217, 218, 219, 220, 221, 222, 223, 224, 225, 226, 227, 228, 93, 230, 231,
     123, 65, 66, 67, 68, 69, 70, 71, 72, 73, 232, 233, 234, 235, 236, 237,
     125, 74, 75, 76, 77, 78, 79, 80, 81, 82, 238, 239, 240, 241, 242, 243,
     92, 159, 83, 84, 85, 86, 87, 88, 89, 90, 244, 245, 246, 247, 248, 249,
     48, 49, 50, 51, 52, 53, 54, 55, 56, 57, 250, 251, 252, 253, 254, 255]"

definition from_ebcdic :: "u8 list \<Rightarrow> u8 list" where
  "from_ebcdic buf = map (\<lambda>b. ebcdic_to_ascii ! unat b) buf"

subsection \<open>The detector\<close>

text \<open>The out-parameters of \<^verbatim>\<open>file_encoding\<close> and its result.\<close>

record enc =
  e_rv :: int
  e_ubuf :: "u64 list"
  e_code :: string
  e_code_mime :: string
  e_type :: string

text \<open>\<open>file_encoding encoding_max buf e\<close>: \<open>encoding_max\<close> is \<^verbatim>\<open>ms->encoding_max\<close>, \<open>buf\<close> is \<^verbatim>\<open>b->fbuf\<close> up to
  \<^verbatim>\<open>b->flen\<close> (\<open>None\<close> for a null pointer), \<open>e\<close> holds the out-parameters on entry.  Both allocations
  succeed.\<close>

definition file_encoding :: "nat \<Rightarrow> u8 list option \<Rightarrow> enc \<Rightarrow> enc" where
  "file_encoding encoding_max fbuf e = (case fbuf of
     None \<Rightarrow> e\<lparr>e_rv := 0\<rparr>
   | Some b \<Rightarrow>
     (let buf = take encoding_max b;
          e0 = \<lparr>e_rv = 1, e_ubuf = [], e_code = ''unknown'', e_code_mime = ''binary'', e_type = ''text''\<rparr>;
          (asc, ub1) = looks_ascii buf []
      in if asc \<noteq> 0 then
           (let (u7, ub2) = looks_utf7 buf ub1 in
            if u7 > 0 then e0\<lparr>e_ubuf := ub2, e_code := ''Unicode text, UTF-7'', e_code_mime := ''utf-7''\<rparr>
            else e0\<lparr>e_ubuf := ub2, e_code := ''ASCII'', e_code_mime := ''us-ascii''\<rparr>)
         else
           (let (bom, ub2) = looks_utf8_with_BOM buf ub1 in
            if bom > 0
            then e0\<lparr>e_ubuf := ub2, e_code := ''Unicode text, UTF-8 (with BOM)'', e_code_mime := ''utf-8''\<rparr>
            else
              (let (u8r, ub3) = file_looks_utf8 buf ub2 in
               if u8r > 1 then e0\<lparr>e_ubuf := ub3, e_code := ''Unicode text, UTF-8'', e_code_mime := ''utf-8''\<rparr>
               else
                 (let (u32r, ub4) = looks_ucs32 buf ub3 in
                  if u32r \<noteq> 0 then
                    (if u32r = 1
                     then e0\<lparr>e_ubuf := ub4, e_code := ''Unicode text, UTF-32, little-endian'', e_code_mime := ''utf-32le''\<rparr>
                     else e0\<lparr>e_ubuf := ub4, e_code := ''Unicode text, UTF-32, big-endian'', e_code_mime := ''utf-32be''\<rparr>)
                  else
                    (let (u16r, ub5) = looks_ucs16 buf ub4 in
                     if u16r \<noteq> 0 then
                       (if u16r = 1
                        then e0\<lparr>e_ubuf := ub5, e_code := ''Unicode text, UTF-16, little-endian'', e_code_mime := ''utf-16le''\<rparr>
                        else e0\<lparr>e_ubuf := ub5, e_code := ''Unicode text, UTF-16, big-endian'', e_code_mime := ''utf-16be''\<rparr>)
                     else
                       (let (lat, ub6) = looks_latin1 buf ub5 in
                        if lat \<noteq> 0 then e0\<lparr>e_ubuf := ub6, e_code := ''ISO-8859'', e_code_mime := ''iso-8859-1''\<rparr>
                        else
                          (let (ext, ub7) = looks_extended buf ub6 in
                           if ext \<noteq> 0
                           then e0\<lparr>e_ubuf := ub7, e_code := ''Non-ISO extended-ASCII'', e_code_mime := ''unknown-8bit''\<rparr>
                           else
                             (let nbuf = from_ebcdic buf;
                                  (easc, ub8) = looks_ascii nbuf ub7
                              in if easc \<noteq> 0
                                 then e0\<lparr>e_ubuf := ub8, e_code := ''EBCDIC'', e_code_mime := ''ebcdic''\<rparr>
                                 else
                                   (let (elat, ub9) = looks_latin1 nbuf ub8 in
                                    if elat \<noteq> 0
                                    then e0\<lparr>e_ubuf := ub9, e_code := ''International EBCDIC'', e_code_mime := ''ebcdic''\<rparr>
                                    else e0\<lparr>e_rv := 0, e_ubuf := ub9, e_type := ''binary''\<rparr>))))))))))"

subsection \<open>The contract of a decoder\<close>

locale text_decoder =
  fixes dec :: "u8 list \<Rightarrow> u64 list \<Rightarrow> int \<times> u64 list"
  assumes dec_bound: "length ub \<le> length buf \<Longrightarrow> length (snd (dec buf ub)) \<le> length buf"
begin

lemma run_bound: "dec buf ub = (r, ub') \<Longrightarrow> length ub \<le> length buf \<Longrightarrow> length ub' \<le> length buf"
  using dec_bound [of ub buf] by simp

lemma run: "length ub \<le> length buf \<Longrightarrow> \<exists>r ub'. dec buf ub = (r, ub') \<and> length ub' \<le> length buf"
  using dec_bound [of ub buf] by (metis prod.collapse)

lemma fresh_bound: "length (snd (dec buf [])) \<le> length buf"
  by (rule dec_bound) simp

end

text \<open>A test that looks at each byte on its own: it answers 1 exactly when every byte is of an
  accepted class, and then the text is the bytes themselves.\<close>

locale single_byte_test = text_decoder dec
  for dec :: "u8 list \<Rightarrow> u64 list \<Rightarrow> int \<times> u64 list" +
  fixes ok :: "u8 \<Rightarrow> bool"
  assumes answer: "fst (dec buf ub) = (if list_all ok buf then 1 else 0)"
    and decoded: "list_all ok buf \<Longrightarrow> snd (dec buf ub) = map ucast buf"
begin

lemma accepts_iff: "fst (dec buf ub) \<noteq> 0 \<longleftrightarrow> list_all ok buf"
  by (simp add: answer)

lemma accepted: "list_all ok buf \<Longrightarrow> dec buf ub = (1, map ucast buf)"
  by (simp add: prod_eq_iff answer decoded)

lemma rejected: "\<not> list_all ok buf \<Longrightarrow> \<exists>ub'. dec buf ub = (0, ub')"
  by (rule exI [where x = "snd (dec buf ub)"]) (simp add: prod_eq_iff answer)

lemma rejects_byte: "b \<in> set buf \<Longrightarrow> \<not> ok b \<Longrightarrow> \<exists>ub'. dec buf ub = (0, ub')"
  by (rule rejected) (auto simp: list_all_iff)

end

lemma looks_loop_bound: "length (snd (looks_loop bad bs ub)) \<le> length ub + length bs"
proof (induction bs arbitrary: ub)
  case (Cons b bs)
  show ?case using Cons [of "ub @ [ucast b]"] by auto
qed simp

lemma looks_loop_answer:
  "fst (looks_loop bad bs ub) = (if list_all (\<lambda>b. \<not> bad (tclass b)) bs then 1 else 0)"
  by (induction bs arbitrary: ub) auto

lemma looks_loop_decoded:
  "list_all (\<lambda>b. \<not> bad (tclass b)) bs \<Longrightarrow> snd (looks_loop bad bs ub) = ub @ map ucast bs"
  by (induction bs arbitrary: ub) auto

lemmas looks_defs = looks_ascii_def looks_latin1_def looks_extended_def

interpretation ascii: single_byte_test looks_ascii "\<lambda>b. tclass b = cls_T"
  by unfold_locales
    (use looks_loop_bound [of _ _ "[]"] in \<open>simp_all add: looks_defs looks_loop_answer looks_loop_decoded\<close>)

interpretation latin1: single_byte_test looks_latin1 "\<lambda>b. tclass b = cls_T \<or> tclass b = cls_I"
  by unfold_locales
    (use looks_loop_bound [of _ _ "[]"] in \<open>auto simp: looks_defs looks_loop_answer looks_loop_decoded\<close>)

interpretation extended: single_byte_test looks_extended "\<lambda>b. tclass b \<noteq> cls_F"
proof unfold_locales
  have ex: "\<forall>b. tclass b = cls_F \<or> tclass b = cls_T \<or> tclass b = cls_I \<or> tclass b = cls_X"
    unfolding all_u8 by code_simp
  have cls: "(\<not> (tclass b \<noteq> cls_T \<and> tclass b \<noteq> cls_I \<and> tclass b \<noteq> cls_X)) \<longleftrightarrow> tclass b \<noteq> cls_F" for b
    using spec [OF ex, of b] by (auto simp: cls_defs)
  fix buf :: "u8 list" and ub :: "u64 list"
  show "length (snd (looks_extended buf ub)) \<le> length buf"
    using looks_loop_bound [of _ _ "[]"] by (simp add: looks_defs)
  show "fst (looks_extended buf ub) = (if list_all (\<lambda>b. tclass b \<noteq> cls_F) buf then 1 else 0)"
    unfolding looks_defs looks_loop_answer cls ..
  assume "list_all (\<lambda>b. tclass b \<noteq> cls_F) buf"
  then show "snd (looks_extended buf ub) = map ucast buf"
    unfolding looks_defs cls [symmetric] by (simp add: looks_loop_decoded)
qed

lemma utf8_loop_bound: "length (snd (utf8_loop bs ub g ct)) \<le> length ub + length bs"
proof (induction bs ub g ct rule: utf8_loop.induct)
  case (2 b bs ub g ct)
  show ?case
  proof (cases "b AND 0x80 = 0")
    case True
    with 2(1) show ?thesis by auto
  next
    case False
    let ?x = "utf8_first ! unat b"
    show ?thesis
    proof (cases "utf8_lead b")
      case (Some p)
      obtain c k where "p = (c, k)" by (cases p)
      with Some 2(2) [OF False _ refl refl _ Some, of c k] False show ?thesis
        by (fastforce simp: Let_def split: follow.splits dest: utf8_follow_shorter intro: le_trans)
    qed (use False in \<open>auto simp: Let_def\<close>)
  qed
qed simp

interpretation utf8: text_decoder file_looks_utf8
  by unfold_locales (use utf8_loop_bound [of _ "[]"] in \<open>simp add: file_looks_utf8_def\<close>)

interpretation utf8_bom: text_decoder looks_utf8_with_BOM
  by unfold_locales
    (auto simp: looks_utf8_with_BOM_def file_looks_utf8_def intro!: le_trans [OF utf8_loop_bound])

interpretation utf7: text_decoder looks_utf7
  by unfold_locales (simp add: looks_utf7_def)

lemma ucs16_loop_bound: "length (snd (ucs16_loop be hi bs ub)) \<le> length ub + length bs"
proof (induction bs arbitrary: hi ub rule: induct_list012)
  case (3 b0 b1 bs)
  have "length (snd (ucs16_loop be h bs (ub @ [u]))) \<le> Suc (Suc (length ub + length bs))" for h u
    by (rule le_trans [OF 3(1)]) simp
  then show ?case by (simp add: Let_def)
qed simp_all

interpretation ucs16: text_decoder looks_ucs16
  by unfold_locales (auto simp: looks_ucs16_def intro!: le_trans [OF ucs16_loop_bound])

lemma ucs32_loop_bound: "length (snd (ucs32_loop be bs ub)) \<le> length ub + length bs"
  by (induction be bs ub rule: ucs32_loop.induct) (auto simp: Let_def)

interpretation ucs32: text_decoder looks_ucs32
  by unfold_locales (auto simp: looks_ucs32_def intro!: le_trans [OF ucs32_loop_bound])


subsection \<open>Properties of the detector\<close>

text \<open>C35.  Memory safety of the decoding.  \<open>file_encoding\<close> allocates room for one character per byte
  it looks at (and a terminator); whatever the bytes are, the text it leaves in \<open>ubuf\<close> has at most as
  many characters as that prefix of the file has bytes.\<close>

theorem file_encoding_ubuf_bound:
  "length (e_ubuf (file_encoding m (Some b) e)) \<le> min m (length b)"
proof -
  let ?buf = "take m b"
  let ?n = "from_ebcdic ?buf"
  have n: "length ?n = length ?buf" by (simp add: from_ebcdic_def)
  obtain r1 u1 where 1: "looks_ascii ?buf [] = (r1, u1)" "length u1 \<le> length ?buf"
    using ascii.run [of "[]" ?buf] by auto
  obtain r2 u2 where 2: "looks_utf7 ?buf u1 = (r2, u2)" "length u2 \<le> length ?buf"
    using utf7.run [OF 1(2)] by auto
  obtain r3 u3 where 3: "looks_utf8_with_BOM ?buf u1 = (r3, u3)" "length u3 \<le> length ?buf"
    using utf8_bom.run [OF 1(2)] by auto
  obtain r4 u4 where 4: "file_looks_utf8 ?buf u3 = (r4, u4)" "length u4 \<le> length ?buf"
    using utf8.run [OF 3(2)] by auto
  obtain r5 u5 where 5: "looks_ucs32 ?buf u4 = (r5, u5)" "length u5 \<le> length ?buf"
    using ucs32.run [OF 4(2)] by auto
  obtain r6 u6 where 6: "looks_ucs16 ?buf u5 = (r6, u6)" "length u6 \<le> length ?buf"
    using ucs16.run [OF 5(2)] by auto
  obtain r7 u7 where 7: "looks_latin1 ?buf u6 = (r7, u7)" "length u7 \<le> length ?buf"
    using latin1.run [OF 6(2)] by auto
  obtain r8 u8 where 8: "looks_extended ?buf u7 = (r8, u8)" "length u8 \<le> length ?buf"
    using extended.run [OF 7(2)] by auto
  obtain r9 u9 where 9: "looks_ascii ?n u8 = (r9, u9)" "length u9 \<le> length ?buf"
    using ascii.run [of u8 ?n] 8(2) n by auto
  obtain r10 u10 where 10: "looks_latin1 ?n u9 = (r10, u10)" "length u10 \<le> length ?buf"
    using latin1.run [of u9 ?n] 9(2) n by auto
  show ?thesis
    using 1(2) 2(2) 3(2) 4(2) 5(2) 6(2) 7(2) 8(2) 9(2) 10(2)
    by (simp add: file_encoding_def Let_def 1(1) 2(1) 3(1) 4(1) 5(1) 6(1) 7(1) 8(1) 9(1) 10(1))
qed


text \<open>The EBCDIC table is a permutation of the bytes, so the translation loses nothing: two
  buffers with the same translation are equal.\<close>

theorem from_ebcdic_inj: "from_ebcdic xs = from_ebcdic ys \<longleftrightarrow> xs = ys"
proof -
  have "sort (map uint ebcdic_to_ascii) = [0..255]" by code_simp
  then have "distinct (map uint ebcdic_to_ascii)" by (metis distinct_sort distinct_upto)
  then have "distinct ebcdic_to_ascii" by (simp add: distinct_map)
  moreover have "length ebcdic_to_ascii = 256" by (simp add: ebcdic_to_ascii_def)
  ultimately have "inj (\<lambda>b::u8. ebcdic_to_ascii ! unat b)"
    by (auto intro!: injI dest: iffD2 [OF word_unat_eq_iff] simp: nth_eq_iff_index_eq)
  then show ?thesis by (simp add: from_ebcdic_def inj_map_eq_map)
qed

text \<open>Plain text is recognised: a file whose examined bytes are all text bytes of the table is
  reported as ASCII, with the bytes themselves as its characters, unless it begins with a UTF-7
  byte-order mark.\<close>

theorem file_encoding_ascii:
  assumes "list_all (\<lambda>c. tclass c = cls_T) (take m b)" and "fst (looks_utf7 (take m b) []) \<noteq> 1"
  shows "file_encoding m (Some b) e =
    \<lparr>e_rv = 1, e_ubuf = map ucast (take m b), e_code = ''ASCII'', e_code_mime = ''us-ascii'', e_type = ''text''\<rparr>"
proof -
  have "looks_utf7 (take m b) ub = (-1, ub)" for ub
    using assms(2) by (auto simp: looks_utf7_def split: if_splits)
  then show ?thesis by (simp add: file_encoding_def Let_def ascii.accepted [OF assms(1)])
qed

theorem file_encoding_ascii_witness:
  "file_encoding 4 (Some (bytes_of ''plain'')) undefined =
    \<lparr>e_rv = 1, e_ubuf = map ucast (take 4 (bytes_of ''plain'')), e_code = ''ASCII'', e_code_mime = ''us-ascii'',
     e_type = ''text''\<rparr>"
  by (rule file_encoding_ascii) code_simp+

lemma utf8_loop_ctrl: "fst (utf8_loop bs ub g True) \<le> 0"
proof (induction bs arbitrary: ub g rule: length_induct)
  case (1 bs)
  then show ?case
    by (cases bs) (auto simp: Let_def split: option.split follow.split dest!: utf8_follow_shorter)
qed

lemma utf8_follow_complete: "utf8_follow n k ar c bs = Complete c' bs' \<Longrightarrow>
    length bs' \<le> length bs \<and> (0 \<in> set bs \<longrightarrow> 0 \<in> set bs')"
  by (induction bs arbitrary: n c) (auto split: if_splits intro: le_SucI)

lemma utf8_follow_not_truncated: "utf8_follow n k ar c bs = Truncated \<Longrightarrow> 0 \<notin> set bs"
  by (induction bs arbitrary: n c) (auto split: if_splits)

lemma utf8_loop_nul: "0 \<in> set bs \<Longrightarrow> fst (utf8_loop bs ub g ct) \<le> 0"
proof (induction bs arbitrary: ub g ct rule: length_induct)
  case (1 bs)
  have 0: "tclass 0 \<noteq> cls_T" by code_simp
  obtain b bs0 where bs: "bs = b # bs0" using 1(2) by (cases bs) auto
  have IH: "length xs \<le> length bs0 \<Longrightarrow> 0 \<in> set xs \<Longrightarrow> fst (utf8_loop xs ub' g' ct') \<le> 0" for xs ub' g' ct'
    using 1(1) by (simp add: bs)
  show ?case
  proof (cases "b = 0")
    case True
    with 0 show ?thesis by (simp add: bs utf8_loop_ctrl)
  next
    case False
    with 1(2) have "0 \<in> set bs0" by (simp add: bs)
    then show ?thesis using IH unfolding bs
      by (auto simp: Let_def dest!: utf8_follow_complete dest: utf8_follow_not_truncated
          split: option.split follow.split)
  qed
qed

definition bom16_32 :: "u8 list \<Rightarrow> bool" where
  "bom16_32 buf \<longleftrightarrow> take 2 buf = [0xff, 0xfe] \<or> take 2 buf = [0xfe, 0xff] \<or> take 4 buf = [0, 0, 0xfe, 0xff]"

lemma no_bom16_32:
  assumes "\<not> bom16_32 buf"
  shows "looks_ucs16 buf ub = (0, ub)" and "looks_ucs32 buf ub = (0, ub)"
  using assms unfolding bom16_32_def looks_ucs16_def looks_ucs32_def
  by (cases buf; cases "tl buf"; cases "tl (tl buf)"; cases "tl (tl (tl buf))"; auto simp: numeral_eq_Suc)+

lemma set_drop3:
  assumes "x \<in> set buf" and "3 < length buf" and "buf ! 0 \<noteq> x" and "buf ! 1 \<noteq> x" and "buf ! 2 \<noteq> x"
  shows "x \<in> set (drop 3 buf)"
proof -
  obtain a b c bs where "buf = a # b # c # bs"
    using assms(2) by (metis Suc_le_length_iff less_imp_le numeral_3_eq_3)
  with assms show ?thesis by (auto simp: numeral_3_eq_3)
qed

lemma no_utf8_bom_nul:
  assumes "0 \<in> set buf"
  shows "\<not> fst (looks_utf8_with_BOM buf ub) > 0"
proof (cases "length buf > 3 \<and> buf ! 0 = 0xef \<and> buf ! 1 = 0xbb \<and> buf ! 2 = 0xbf")
  case True
  then have "0 \<in> set (drop 3 buf)" using assms by (intro set_drop3) simp_all
  from utf8_loop_nul [OF this, of "[]" False False] show ?thesis
    by (simp add: looks_utf8_with_BOM_def file_looks_utf8_def)
qed (auto simp: looks_utf8_with_BOM_def)

lemma not_gtE: "\<not> fst p > (k::int) \<Longrightarrow> \<exists>r u. p = (r, u) \<and> \<not> r > k"
  by (cases p) simp

text \<open>Binary data is recognised: a NUL byte among the examined bytes makes the file binary
  unless it opens with a UTF-16 or UTF-32 byte-order mark; a UTF-8 byte-order mark does not help.\<close>

theorem file_encoding_nul_binary:
  assumes "0 \<in> set (take m b)" and "\<not> bom16_32 (take m b)"
  shows "e_rv (file_encoding m (Some b) e) = 0 \<and> e_code_mime (file_encoding m (Some b) e) = ''binary'' \<and>
    e_type (file_encoding m (Some b) e) = ''binary''"
proof -
  let ?buf = "take m b"
  have 0: "tclass 0 = cls_F" "cls_F \<noteq> cls_T" "cls_F \<noteq> cls_I" and "ebcdic_to_ascii ! unat (0::u8) = 0" by code_simp+
  from this(4) have e0: "0 \<in> set (from_ebcdic ?buf)"
    using imageI [OF assms(1), of "\<lambda>b. ebcdic_to_ascii ! unat b"] by (simp add: from_ebcdic_def)
  have u8: "\<not> fst (file_looks_utf8 ?buf ub) > 1" for ub
    using utf8_loop_nul [OF assms(1), of "[]" False False] by (simp add: file_looks_utf8_def)
  obtain u where 1: "looks_ascii ?buf [] = (0, u)"
    using ascii.rejects_byte [OF assms(1)] 0 by auto
  have 7: "\<exists>v. looks_latin1 ?buf w = (0, v)" for w
    using latin1.rejects_byte [OF assms(1)] 0 by auto
  have 8: "\<exists>v. looks_extended ?buf w = (0, v)" for w
    using extended.rejects_byte [OF assms(1)] 0 by auto
  have 9: "\<exists>v. looks_ascii (from_ebcdic ?buf) w = (0, v)" for w
    using ascii.rejects_byte [OF e0] 0 by auto
  have 10: "\<exists>v. looks_latin1 (from_ebcdic ?buf) w = (0, v)" for w
    using latin1.rejects_byte [OF e0] 0 by auto
  obtain r3 u3 where 3: "looks_utf8_with_BOM ?buf u = (r3, u3)" "\<not> r3 > 0" using not_gtE [OF no_utf8_bom_nul [OF assms(1)]] by blast
  obtain r4 u4 where 4: "file_looks_utf8 ?buf u3 = (r4, u4)" "\<not> r4 > 1" using not_gtE [OF u8] by blast
  obtain u7 where 77: "looks_latin1 ?buf u4 = (0, u7)" using 7 by blast
  obtain u8 where 88: "looks_extended ?buf u7 = (0, u8)" using 8 by blast
  obtain u9 where 99: "looks_ascii (from_ebcdic ?buf) u8 = (0, u9)" using 9 by blast
  obtain u10 where "looks_latin1 (from_ebcdic ?buf) u9 = (0, u10)" using 10 by blast
  then show ?thesis
    using 3(2) 4(2)
    by (simp add: file_encoding_def Let_def 1 3(1) 4(1) 77 88 99 no_bom16_32 [OF assms(2)])
qed


theorem file_encoding_nul_binary_witness:
  "e_rv (file_encoding 9 (Some [0xef, 0xbb, 0xbf, 0x41, 0, 0x42]) undefined) = 0 \<and>
    e_code_mime (file_encoding 9 (Some [0xef, 0xbb, 0xbf, 0x41, 0, 0x42]) undefined) = ''binary'' \<and>
    e_type (file_encoding 9 (Some [0xef, 0xbb, 0xbf, 0x41, 0, 0x42]) undefined) = ''binary''"
  by (rule file_encoding_nul_binary) (simp_all add: bom16_32_def)

end
