(* ===== verification/Utf8.thy ===== *)
theory Utf8
  imports Encoding
begin

text \<open>
  UTF-8 in both directions.  The encoder is \<^verbatim>\<open>encode_utf8\<close> of \<^verbatim>\<open>src/ascmagic.c\<close>, the decoder
  \<^verbatim>\<open>file_looks_utf8\<close> of \<^verbatim>\<open>src/encoding.c\<close>; \<open>utf8_bytes\<close> is the encoding form of RFC 3629, stated on
  numbers, that both are compared with.  A \<open>scalar\<close> is a Unicode scalar value: a code point that is
  not a surrogate.
\<close>

subsection \<open>The encoding form\<close>

definition scalar :: "nat \<Rightarrow> bool" where
  "scalar n \<longleftrightarrow> n \<le> 0x10FFFF \<and> \<not> (0xD800 \<le> n \<and> n \<le> 0xDFFF)"

definition utf8_bytes :: "nat \<Rightarrow> u8 list" where
  "utf8_bytes n =
     (if n < 0x80 then [word_of_nat n]
      else if n < 0x800 then [word_of_nat (0xC0 + n div 64), word_of_nat (0x80 + n mod 64)]
      else if n < 0x10000
      then [word_of_nat (0xE0 + n div 4096), word_of_nat (0x80 + n div 64 mod 64),
            word_of_nat (0x80 + n mod 64)]
      else [word_of_nat (0xF0 + n div 262144), word_of_nat (0x80 + n div 4096 mod 64),
            word_of_nat (0x80 + n div 64 mod 64), word_of_nat (0x80 + n mod 64)])"

subsection \<open>The encoder of ascmagic.c\<close>

text \<open>The continuation bytes written from the labels \<^verbatim>\<open>out5\<close> to \<^verbatim>\<open>out1\<close>: \<open>out_k k u\<close> are those that the jump
  to \<^verbatim>\<open>outk\<close> falls through.\<close>

fun out_k :: "nat \<Rightarrow> u64 \<Rightarrow> u8 list" where
  "out_k 0 u = []"
| "out_k (Suc k) u = ucast (((drop_bit (6 * k) u) AND 0x3f) + 0x80) # out_k k u"

text \<open>\<open>encode_utf8 len us\<close>: the bytes written for \<open>us\<close> when \<open>len\<close> bytes of room are left (\<^verbatim>\<open>end - buf\<close>), or
  \<open>None\<close> for the null pointer: no room, or a character above \<^verbatim>\<open>0x7fffffff\<close>.\<close>

fun encode_utf8 :: "nat \<Rightarrow> u64 list \<Rightarrow> u8 list option" where
  "encode_utf8 len [] = Some []"
| "encode_utf8 len (u # us) =
     (if u \<le> 0x7f then
        (if len < 1 then None else map_option ((@) [ucast u]) (encode_utf8 (len - 1) us))
      else if u \<le> 0x7ff then
        (if len < 2 then None
         else map_option ((@) (ucast (drop_bit 6 u + 0xc0) # out_k 1 u)) (encode_utf8 (len - 2) us))
      else if u \<le> 0xffff then
        (if len < 3 then None
         else map_option ((@) (ucast (drop_bit 12 u + 0xe0) # out_k 2 u)) (encode_utf8 (len - 3) us))
      else if u \<le> 0x1fffff then
        (if len < 4 then None
         else map_option ((@) (ucast (drop_bit 18 u + 0xf0) # out_k 3 u)) (encode_utf8 (len - 4) us))
      else if u \<le> 0x3ffffff then
        (if len < 5 then None
         else map_option ((@) (ucast (drop_bit 24 u + 0xf8) # out_k 4 u)) (encode_utf8 (len - 5) us))
      else if u \<le> 0x7fffffff then
        (if len < 6 then None
         else map_option ((@) (ucast (drop_bit 30 u + 0xfc) # out_k 5 u)) (encode_utf8 (len - 6) us))
      else None)"

subsection \<open>Lead and continuation bytes\<close>

lemma ascii_byte:
  assumes "n < 128"
  shows "(word_of_nat n :: u8) AND 0x80 = 0 \<and> (ucast (word_of_nat n :: u8) :: u64) = word_of_nat n"
proof -
  have "list_all (\<lambda>n. (word_of_nat n :: u8) AND 0x80 = 0 \<and>
      (ucast (word_of_nat n :: u8) :: u64) = word_of_nat n) [0..<128]"
    by code_simp
  then show ?thesis using le0 assms by (rule list_all_uptD)
qed

lemma lead2_byte:
  assumes "2 \<le> q" and "q < 32"
  shows "(word_of_nat (0xC0 + q) :: u8) AND 0x80 \<noteq> 0 \<and> (word_of_nat (0xC0 + q) :: u8) AND 0x40 \<noteq> 0 \<and>
    utf8_first ! unat (word_of_nat (0xC0 + q) :: u8) = utf8_S1 \<and>
    utf8_lead (word_of_nat (0xC0 + q)) = Some (word_of_nat q, 1)"
proof -
  have "list_all (\<lambda>q. (word_of_nat (0xC0 + q) :: u8) AND 0x80 \<noteq> 0 \<and> (word_of_nat (0xC0 + q) :: u8) AND 0x40 \<noteq> 0 \<and>
    utf8_first ! unat (word_of_nat (0xC0 + q) :: u8) = utf8_S1 \<and>
    utf8_lead (word_of_nat (0xC0 + q)) = Some (word_of_nat q, 1)) [2..<32]"
    by code_simp
  then show ?thesis using assms by (rule list_all_uptD)
qed

lemma lead3_byte:
  assumes "q < 16"
  shows "(word_of_nat (0xE0 + q) :: u8) AND 0x80 \<noteq> 0 \<and> (word_of_nat (0xE0 + q) :: u8) AND 0x40 \<noteq> 0 \<and>
    utf8_first ! unat (word_of_nat (0xE0 + q) :: u8) =
      (if q = 0 then utf8_S2 else if q = 13 then utf8_S4 else utf8_S3) \<and>
    utf8_lead (word_of_nat (0xE0 + q)) = Some (word_of_nat q, 2)"
proof -
  have "list_all (\<lambda>q. (word_of_nat (0xE0 + q) :: u8) AND 0x80 \<noteq> 0 \<and> (word_of_nat (0xE0 + q) :: u8) AND 0x40 \<noteq> 0 \<and>
    utf8_first ! unat (word_of_nat (0xE0 + q) :: u8) =
      (if q = 0 then utf8_S2 else if q = 13 then utf8_S4 else utf8_S3) \<and>
    utf8_lead (word_of_nat (0xE0 + q)) = Some (word_of_nat q, 2)) [0..<16]"
    by code_simp
  then show ?thesis using le0 assms by (rule list_all_uptD)
qed

lemma lead4_byte:
  assumes "q < 5"
  shows "(word_of_nat (0xF0 + q) :: u8) AND 0x80 \<noteq> 0 \<and> (word_of_nat (0xF0 + q) :: u8) AND 0x40 \<noteq> 0 \<and>
    utf8_first ! unat (word_of_nat (0xF0 + q) :: u8) =
      (if q = 0 then utf8_S5 else if q = 4 then utf8_S7 else utf8_S6) \<and>
    utf8_lead (word_of_nat (0xF0 + q)) = Some (word_of_nat q, 3)"
proof -
  have "list_all (\<lambda>q. (word_of_nat (0xF0 + q) :: u8) AND 0x80 \<noteq> 0 \<and> (word_of_nat (0xF0 + q) :: u8) AND 0x40 \<noteq> 0 \<and>
    utf8_first ! unat (word_of_nat (0xF0 + q) :: u8) =
      (if q = 0 then utf8_S5 else if q = 4 then utf8_S7 else utf8_S6) \<and>
    utf8_lead (word_of_nat (0xF0 + q)) = Some (word_of_nat q, 3)) [0..<5]"
    by code_simp
  then show ?thesis using le0 assms by (rule list_all_uptD)
qed

lemma cont_byte:
  assumes "r < 64"
  shows "(word_of_nat (0x80 + r) :: u8) AND 0x80 \<noteq> 0 \<and> (word_of_nat (0x80 + r) :: u8) AND 0x40 = 0 \<and>
    unat (word_of_nat (0x80 + r) :: u8) = 0x80 + r \<and>
    (ucast ((word_of_nat (0x80 + r) :: u8) AND 0x3f) :: u64) = word_of_nat r"
proof -
  have "list_all (\<lambda>r. (word_of_nat (0x80 + r) :: u8) AND 0x80 \<noteq> 0 \<and> (word_of_nat (0x80 + r) :: u8) AND 0x40 = 0 \<and>
    unat (word_of_nat (0x80 + r) :: u8) = 0x80 + r \<and>
    (ucast ((word_of_nat (0x80 + r) :: u8) AND 0x3f) :: u64) = word_of_nat r) [0..<64]"
    by code_simp
  then show ?thesis using le0 assms by (rule list_all_uptD)
qed

text \<open>Conversely, a byte that passes the tests has one of these shapes.\<close>

lemma cont_byteE:
  assumes "(b::u8) AND 0x80 \<noteq> 0" and "b AND 0x40 = 0"
  obtains r where "r < 64" and "b = word_of_nat (0x80 + r)"
proof -
  have "\<forall>b::u8. b AND 0x80 \<noteq> 0 \<longrightarrow> b AND 0x40 = 0 \<longrightarrow> 0x80 \<le> unat b \<and> unat b < 0xC0"
    unfolding all_u8 by code_simp
  with assms have "0x80 \<le> unat b" and "unat b - 0x80 < 64" by auto
  from that [OF this(2) word_of_nat_unat_diff [OF this(1)]] show ?thesis .
qed

lemma lead_byteE:
  assumes "(b::u8) AND 0x80 \<noteq> 0" and "b AND 0x40 \<noteq> 0" and "utf8_first ! unat b \<noteq> utf8_XX"
  obtains (two) q where "2 \<le> q" and "q < 32" and "b = word_of_nat (0xC0 + q)"
    | (three) q where "q < 16" and "b = word_of_nat (0xE0 + q)"
    | (four) q where "q < 5" and "b = word_of_nat (0xF0 + q)"
proof -
  have "\<forall>b::u8. b AND 0x80 \<noteq> 0 \<longrightarrow> b AND 0x40 \<noteq> 0 \<longrightarrow> utf8_first ! unat b \<noteq> utf8_XX \<longrightarrow>
      0xC2 \<le> unat b \<and> unat b < 0xF5"
    unfolding all_u8 by code_simp
  with assms have lo: "0xC2 \<le> unat b" and hi: "unat b < 0xF5" by auto
  consider "unat b < 0xE0" | "0xE0 \<le> unat b" "unat b < 0xF0" | "0xF0 \<le> unat b" by linarith
  then show ?thesis
  proof cases
    case 1
    show ?thesis
      by (rule two [of "unat b - 0xC0"]) (use lo 1 in \<open>auto intro: word_of_nat_unat_diff\<close>)
  next
    case 2
    show ?thesis
      by (rule three [of "unat b - 0xE0"]) (use 2 in \<open>auto intro: word_of_nat_unat_diff\<close>)
  next
    case 3
    show ?thesis
      by (rule four [of "unat b - 0xF0"]) (use 3 hi in \<open>auto intro: word_of_nat_unat_diff\<close>)
  qed
qed

subsection \<open>One character through the decoder\<close>

lemma follow_cont:
  assumes "r < 64" and "n < f"
    and "n = 0 \<Longrightarrow> unat (fst ar) \<le> 0x80 + r \<and> 0x80 + r \<le> unat (snd ar)"
  shows "utf8_follow n f ar (word_of_nat c) (word_of_nat (0x80 + r) # bs) =
    utf8_follow (Suc n) f ar (word_of_nat (64 * c + r)) bs"
proof -
  let ?b = "word_of_nat (0x80 + r) :: u8"
  note b = cont_byte [OF assms(1)]
  have "\<not> (n = 0 \<and> (?b < fst ar \<or> ?b > snd ar))"
    using assms(3) b by (auto simp: word_less_nat_alt)
  moreover have "push_bit 6 (word_of_nat c) + ucast (?b AND 0x3f) = (word_of_nat (64 * c + r) :: u64)"
    using b by (simp add: push_bit_of_nat push_bit_eq_mult mult.commute)
  ultimately show ?thesis
    using assms(2) b by (simp only: utf8_follow.simps if_True if_False simp_thms)
qed

lemma accept_ranges_of:
  "accept_ranges ! unat (drop_bit 4 utf8_S1) = (0x80, 0xBF)"
  "accept_ranges ! unat (drop_bit 4 utf8_S2) = (0xA0, 0xBF)"
  "accept_ranges ! unat (drop_bit 4 utf8_S3) = (0x80, 0xBF)"
  "accept_ranges ! unat (drop_bit 4 utf8_S4) = (0x80, 0x9F)"
  "accept_ranges ! unat (drop_bit 4 utf8_S5) = (0x90, 0xBF)"
  "accept_ranges ! unat (drop_bit 4 utf8_S6) = (0x80, 0xBF)"
  "accept_ranges ! unat (drop_bit 4 utf8_S7) = (0x80, 0x8F)"
  by code_simp+

lemma not_XX:
  "utf8_S1 \<noteq> utf8_XX" "utf8_S2 \<noteq> utf8_XX" "utf8_S3 \<noteq> utf8_XX" "utf8_S4 \<noteq> utf8_XX"
  "utf8_S5 \<noteq> utf8_XX" "utf8_S6 \<noteq> utf8_XX" "utf8_S7 \<noteq> utf8_XX"
  by (simp_all add: utf8_sizes)

text \<open>A lead byte that passes the table hands over to the inner loop.\<close>

lemma utf8_loop_lead:
  assumes "b AND 0x80 \<noteq> 0" and "b AND 0x40 \<noteq> 0" and "utf8_first ! unat b = x" and "x \<noteq> utf8_XX"
    and "utf8_lead b = Some (c, k)"
  shows "utf8_loop (b # bs) ub g ct =
    (case utf8_follow 0 k (accept_ranges ! unat (drop_bit 4 x)) c bs of
       Truncated \<Rightarrow> ((if ct then 0 else if g then 2 else 1), ub)
     | Invalid \<Rightarrow> (-1, ub)
     | Complete c' bs' \<Rightarrow> utf8_loop bs' (ub @ [c']) True ct)"
  using assms by (simp add: Let_def)

lemma follow_done: "utf8_follow f f ar c bs = Complete c bs"
  by (cases bs) simp_all

lemma follow2:
  assumes "r < 64" and "unat (fst ar) \<le> 0x80 + r" and "0x80 + r \<le> unat (snd ar)"
  shows "utf8_follow 0 1 ar (word_of_nat q) (word_of_nat (0x80 + r) # bs) =
    Complete (word_of_nat (64 * q + r)) bs"
  using follow_cont [of r 0 1 ar q bs] assms follow_done [of 1] by simp

lemma follow3:
  assumes "r < 64" and "s < 64" and "unat (fst ar) \<le> 0x80 + r" and "0x80 + r \<le> unat (snd ar)"
  shows "utf8_follow 0 2 ar (word_of_nat q) (word_of_nat (0x80 + r) # word_of_nat (0x80 + s) # bs) =
    Complete (word_of_nat (64 * (64 * q + r) + s)) bs"
  using follow_cont [of r 0 2 ar q] follow_cont [of s 1 2 ar "64 * q + r" bs] assms follow_done [of 2]
  by (simp add: numeral_2_eq_2 del: of_nat_add of_nat_mult)

lemma follow4:
  assumes "r < 64" and "s < 64" and "t < 64"
    and "unat (fst ar) \<le> 0x80 + r" and "0x80 + r \<le> unat (snd ar)"
  shows "utf8_follow 0 3 ar (word_of_nat q)
      (word_of_nat (0x80 + r) # word_of_nat (0x80 + s) # word_of_nat (0x80 + t) # bs) =
    Complete (word_of_nat (64 * (64 * (64 * q + r) + s) + t)) bs"
  using follow_cont [of r 0 3 ar q] follow_cont [of s 1 3 ar "64 * q + r"]
    follow_cont [of t 2 3 ar "64 * (64 * q + r) + s" bs] assms follow_done [of 3]
  by (simp add: numeral_2_eq_2 numeral_3_eq_3 del: of_nat_add of_nat_mult)


lemma digits64_2: "64 * (64 * (n div 4096) + n div 64 mod 64) + n mod 64 = (n::nat)"
proof -
  have "n div 4096 = n div 64 div 64" by (simp flip: div_mult2_eq)
  then show ?thesis by (simp only: mult_div_mod_eq)
qed

lemma digits64_3:
  "64 * (64 * (64 * (n div 262144) + n div 4096 mod 64) + n div 64 mod 64) + n mod 64 = (n::nat)"
proof -
  have "n div 262144 = n div 4096 div 64" by (simp flip: div_mult2_eq)
  then show ?thesis by (simp only: mult_div_mod_eq digits64_2)
qed

lemma utf8_decode_step:
  assumes "scalar n"
  shows "utf8_loop (utf8_bytes n @ bs) ub g ct =
    utf8_loop bs (ub @ [word_of_nat n]) (g \<or> 128 \<le> n)
      (ct \<or> n < 128 \<and> text_chars ! n \<noteq> cls_T)"
proof -
  consider (one) "n < 0x80" | (two) "0x80 \<le> n" "n < 0x800" | (three) "0x800 \<le> n" "n < 0x10000"
    | (four) "0x10000 \<le> n" "n \<le> 0x10FFFF"
    using assms unfolding scalar_def by linarith
  then show ?thesis
  proof cases
    case one
    then have "unat (word_of_nat n :: u8) = n" by (simp add: unat_of_nat)
    with one ascii_byte [of n] show ?thesis
      by (simp add: utf8_bytes_def tclass_def)
  next
    case two
    define q r where "q = n div 64" and "r = n mod 64"
    have qr: "2 \<le> q" "q < 32" "r < 64" "64 * q + r = n"
      using two by (auto simp: q_def r_def)
    have bytes: "utf8_bytes n = [word_of_nat (0xC0 + q), word_of_nat (0x80 + r)]"
      using two by (simp add: utf8_bytes_def q_def r_def)
    note lead = lead2_byte [OF qr(1,2)]
    show ?thesis
      unfolding bytes append.simps
      using utf8_loop_lead [of "word_of_nat (0xC0 + q)" utf8_S1 "word_of_nat q" 1] lead
        follow2 [of r "(0x80, 0xBF)" q bs] qr two
      by (simp add: not_XX accept_ranges_of del: of_nat_add utf8_loop.simps)
  next
    case three
    define q r s where "q = n div 4096" and "r = n div 64 mod 64" and "s = n mod 64"
    have qr: "q < 16" "r < 64" "s < 64" "64 * (64 * q + r) + s = n"
      using three digits64_2 [of n] by (auto simp: q_def r_def s_def)
    have bytes: "utf8_bytes n = [word_of_nat (0xE0 + q), word_of_nat (0x80 + r), word_of_nat (0x80 + s)]"
      using three by (simp add: utf8_bytes_def q_def r_def s_def)
    have lo: "q = 0 \<Longrightarrow> 32 \<le> r" using three qr by auto
    have hi: "q = 13 \<Longrightarrow> r < 32" using assms three qr unfolding scalar_def by auto
    let ?x = "if q = 0 then utf8_S2 else if q = 13 then utf8_S4 else utf8_S3"
    have ar: "accept_ranges ! unat (drop_bit 4 ?x) =
        (if q = 0 then (0xA0, 0xBF) else if q = 13 then (0x80, 0x9F) else (0x80, 0xBF))"
      by (simp only: accept_ranges_of split: if_split) simp
    note lead = lead3_byte [OF qr(1)]
    have "utf8_follow 0 2 (accept_ranges ! unat (drop_bit 4 ?x)) (word_of_nat q)
        (word_of_nat (0x80 + r) # word_of_nat (0x80 + s) # bs) = Complete (word_of_nat n) bs"
      unfolding ar by (subst follow3) (use qr lo hi in auto)
    then show ?thesis
      unfolding bytes append.simps
      using utf8_loop_lead [of "word_of_nat (0xE0 + q)" ?x "word_of_nat q" 2] lead three
      by (simp add: not_XX del: of_nat_add utf8_loop.simps)
  next
    case four
    define q r s t where "q = n div 262144" and "r = n div 4096 mod 64" and "s = n div 64 mod 64"
      and "t = n mod 64"
    have qr: "q < 5" "r < 64" "s < 64" "t < 64" "64 * (64 * (64 * q + r) + s) + t = n"
      using four digits64_3 [of n] by (auto simp: q_def r_def s_def t_def)
    have bytes: "utf8_bytes n = [word_of_nat (0xF0 + q), word_of_nat (0x80 + r), word_of_nat (0x80 + s),
        word_of_nat (0x80 + t)]"
      using four by (simp add: utf8_bytes_def q_def r_def s_def t_def)
    have lo: "q = 0 \<Longrightarrow> 16 \<le> r" using four qr by auto
    have hi: "q = 4 \<Longrightarrow> r < 16" using four qr by auto
    let ?x = "if q = 0 then utf8_S5 else if q = 4 then utf8_S7 else utf8_S6"
    have ar: "accept_ranges ! unat (drop_bit 4 ?x) =
        (if q = 0 then (0x90, 0xBF) else if q = 4 then (0x80, 0x8F) else (0x80, 0xBF))"
      by (simp only: accept_ranges_of split: if_split) simp
    note lead = lead4_byte [OF qr(1)]
    have "utf8_follow 0 3 (accept_ranges ! unat (drop_bit 4 ?x)) (word_of_nat q)
        (word_of_nat (0x80 + r) # word_of_nat (0x80 + s) # word_of_nat (0x80 + t) # bs) =
        Complete (word_of_nat n) bs"
      unfolding ar by (subst follow4) (use qr lo hi in auto)
    then show ?thesis
      unfolding bytes append.simps
      using utf8_loop_lead [of "word_of_nat (0xF0 + q)" ?x "word_of_nat q" 3] lead four
      by (simp add: not_XX del: of_nat_add utf8_loop.simps)
  qed
qed

lemma utf8_decode_all:
  assumes "\<forall>n \<in> set ns. scalar n"
  shows "utf8_loop (concat (map utf8_bytes ns) @ bs) ub g ct =
    utf8_loop bs (ub @ map word_of_nat ns) (g \<or> (\<exists>n \<in> set ns. 128 \<le> n))
      (ct \<or> (\<exists>n \<in> set ns. n < 128 \<and> text_chars ! n \<noteq> cls_T))"
  using assms
proof (induction ns arbitrary: ub g ct)
  case (Cons n ns)
  then show ?case
    by (simp add: utf8_decode_step disj_assoc del: utf8_loop.simps)
qed simp

subsection \<open>The encoder on scalar values\<close>

lemma u64_drop_bit: "n < 2 ^ 64 \<Longrightarrow> drop_bit k (word_of_nat n :: u64) = word_of_nat (n div 2 ^ k)"
proof -
  assume n: "n < 2 ^ 64"
  have "n div 2 ^ k < 2 ^ 64" using n by (meson div_le_dividend le_less_trans)
  with n have "unat (drop_bit k (word_of_nat n :: u64)) = unat (word_of_nat (n div 2 ^ k) :: u64)"
    by (simp add: unat_drop_bit unat_of_nat)
  then show ?thesis by (simp only: word_unat_eq_iff)
qed

lemma u64_and_mask6: "n < 2 ^ 64 \<Longrightarrow> (word_of_nat n :: u64) AND 0x3f = word_of_nat (n mod 64)"
proof -
  assume n: "n < 2 ^ 64"
  have "unat ((word_of_nat n :: u64) AND mask 6) = unat (word_of_nat (n mod 64) :: u64)"
    using n by (simp only: unat_and_mask unat_of_nat) simp
  then have "(word_of_nat n :: u64) AND mask 6 = word_of_nat (n mod 64)"
    by (simp only: word_unat_eq_iff)
  moreover have "(mask 6 :: u64) = 0x3f" by code_simp
  ultimately show ?thesis by simp
qed

lemma u64_to_u8: "(ucast (word_of_nat n :: u64) :: u8) = word_of_nat n"
  by (simp only: word_unat_eq_iff unsigned_ucast_eq unsigned_of_nat take_bit_eq_mod) (simp add: mod_mod_cancel)

lemma out_k_nat:
  assumes "n < 2 ^ 64"
  shows "out_k 1 (word_of_nat n) = [word_of_nat (0x80 + n mod 64)]"
    and "out_k 2 (word_of_nat n) = [word_of_nat (0x80 + n div 64 mod 64), word_of_nat (0x80 + n mod 64)]"
    and "out_k 3 (word_of_nat n) = [word_of_nat (0x80 + n div 4096 mod 64), word_of_nat (0x80 + n div 64 mod 64),
      word_of_nat (0x80 + n mod 64)]"
proof -
  have byte: "out_k (Suc k) (word_of_nat n) = word_of_nat (0x80 + n div 2 ^ (6 * k) mod 64) # out_k k (word_of_nat n)" for k
  proof -
    have "n div 2 ^ (6 * k) < 2 ^ 64" using assms by (meson div_le_dividend le_less_trans)
    then have "(drop_bit (6 * k) (word_of_nat n :: u64) AND 0x3f) + 0x80 =
        word_of_nat (0x80 + n div 2 ^ (6 * k) mod 64)"
      by (simp add: u64_drop_bit [OF assms] u64_and_mask6)
    then show ?thesis by (simp only: u64_to_u8 out_k.simps)
  qed
  show 1: "out_k 1 (word_of_nat n) = [word_of_nat (0x80 + n mod 64)]"
    using byte [of 0] by (simp del: of_nat_add)
  show 2: "out_k 2 (word_of_nat n) = [word_of_nat (0x80 + n div 64 mod 64), word_of_nat (0x80 + n mod 64)]"
    using byte [of 1] unfolding 1 Suc_1 by (simp del: of_nat_add out_k.simps)
  show "out_k 3 (word_of_nat n) = [word_of_nat (0x80 + n div 4096 mod 64), word_of_nat (0x80 + n div 64 mod 64),
      word_of_nat (0x80 + n mod 64)]"
    using byte [of 2] unfolding 2 by (simp del: of_nat_add out_k.simps)
qed

lemma u64_le_nat: "n < 2 ^ 64 \<Longrightarrow> (word_of_nat n :: u64) \<le> w \<longleftrightarrow> n \<le> unat w"
  by (simp add: word_le_nat_alt unat_of_nat)

lemma encode_utf8_step:
  assumes "scalar n" and "length (utf8_bytes n) \<le> len"
  shows "encode_utf8 len (word_of_nat n # us) =
    map_option ((@) (utf8_bytes n)) (encode_utf8 (len - length (utf8_bytes n)) us)"
proof -
  have n64: "n < 2 ^ 64" using assms(1) by (simp add: scalar_def)
  have lead: "ucast (drop_bit k (word_of_nat n :: u64) + numeral m) =
      (word_of_nat (numeral m + n div 2 ^ k) :: u8)" for k m
  proof -
    have "drop_bit k (word_of_nat n :: u64) + numeral m = word_of_nat (numeral m + n div 2 ^ k)"
      by (simp add: u64_drop_bit [OF n64])
    then show ?thesis by (simp only: u64_to_u8)
  qed
  note le = u64_le_nat [OF n64]
  have leads: "ucast (drop_bit 6 (word_of_nat n :: u64) + 0xc0) = (word_of_nat (0xC0 + n div 64) :: u8)"
    "ucast (drop_bit 12 (word_of_nat n :: u64) + 0xe0) = (word_of_nat (0xE0 + n div 4096) :: u8)"
    "ucast (drop_bit 18 (word_of_nat n :: u64) + 0xf0) = (word_of_nat (0xF0 + n div 262144) :: u8)"
    using lead [of 6] lead [of 12] lead [of 18] by (simp_all del: of_nat_add)
  consider (one) "n < 0x80" | (two) "0x80 \<le> n" "n < 0x800" | (three) "0x800 \<le> n" "n < 0x10000"
    | (four) "0x10000 \<le> n" "n \<le> 0x10FFFF"
    using assms unfolding scalar_def by linarith
  then show ?thesis
  proof cases
    case one
    then show ?thesis using assms(2) by (simp add: le utf8_bytes_def u64_to_u8)
  next
    case two
    then have "utf8_bytes n = [word_of_nat (0xC0 + n div 64), word_of_nat (0x80 + n mod 64)]"
      by (simp add: utf8_bytes_def)
    then show ?thesis using two assms(2)
      by (simp only: encode_utf8.simps le leads out_k_nat [OF n64]) (simp flip: numeral_2_eq_2)
  next
    case three
    then have "utf8_bytes n = [word_of_nat (0xE0 + n div 4096), word_of_nat (0x80 + n div 64 mod 64),
            word_of_nat (0x80 + n mod 64)]"
      by (simp add: utf8_bytes_def)
    then show ?thesis using three assms(2)
      by (simp only: encode_utf8.simps le leads out_k_nat [OF n64]) (simp flip: numeral_2_eq_2)
  next
    case four
    then have "utf8_bytes n = [word_of_nat (0xF0 + n div 262144), word_of_nat (0x80 + n div 4096 mod 64),
            word_of_nat (0x80 + n div 64 mod 64), word_of_nat (0x80 + n mod 64)]"
      by (simp add: utf8_bytes_def)
    then show ?thesis using four assms(2)
      by (simp only: encode_utf8.simps le leads out_k_nat [OF n64]) (simp flip: numeral_2_eq_2)
  qed
qed

lemma encode_utf8_scalars:
  assumes "\<forall>n \<in> set ns. scalar n" and "length (concat (map utf8_bytes ns)) \<le> len"
  shows "encode_utf8 len (map word_of_nat ns) = Some (concat (map utf8_bytes ns))"
  using assms
proof (induction ns arbitrary: len)
  case (Cons n ns)
  then show ?case by (simp add: encode_utf8_step del: encode_utf8.simps)
qed simp

lemma length_utf8_bytes: "length (utf8_bytes n) \<le> 4" "0 < length (utf8_bytes n)"
  by (simp_all add: utf8_bytes_def)

lemma length_concat_utf8_bytes: "length (concat (map utf8_bytes ns)) \<le> 4 * length ns"
proof (induction ns)
  case (Cons n ns)
  then show ?case using length_utf8_bytes(1) [of n] by simp
qed simp

subsection \<open>What the decoder accepts\<close>

lemma utf8_followE:
  assumes "utf8_follow n f ar (word_of_nat c) bs = Complete c' bs'" and "n \<le> f"
  shows "\<exists>rs. bs = map (\<lambda>r. word_of_nat (0x80 + r)) rs @ bs' \<and> length rs = f - n \<and> (\<forall>r \<in> set rs. r < 64) \<and>
    c' = word_of_nat (foldl (\<lambda>a r. 64 * a + r) c rs) \<and>
    (n = 0 \<and> rs \<noteq> [] \<longrightarrow> unat (fst ar) \<le> 0x80 + hd rs \<and> 0x80 + hd rs \<le> unat (snd ar))"
  using assms
proof (induction bs arbitrary: n c)
  case Nil
  then show ?case by (auto split: if_splits)
next
  case (Cons b bs)
  show ?case
  proof (cases "n < f")
    case True
    with Cons.prems have range: "n = 0 \<Longrightarrow> \<not> (b < fst ar \<or> b > snd ar)" and "b AND 0x80 \<noteq> 0" and "b AND 0x40 = 0"
      by (auto split: if_splits)
    from this(2,3) obtain r where r: "r < 64" and b: "b = word_of_nat (0x80 + r)" by (rule cont_byteE)
    have in_range: "n = 0 \<Longrightarrow> unat (fst ar) \<le> 0x80 + r \<and> 0x80 + r \<le> unat (snd ar)"
      using range cont_byte [OF r] unfolding b by (auto simp: word_less_nat_alt simp del: of_nat_add)
    have "utf8_follow (Suc n) f ar (word_of_nat (64 * c + r)) bs = Complete c' bs'"
      using Cons.prems(1) follow_cont [OF r True in_range] unfolding b by simp
    from Cons.IH [OF this] True obtain rs where
      "bs = map (\<lambda>r. word_of_nat (0x80 + r)) rs @ bs'" "length rs = f - Suc n" "\<forall>r \<in> set rs. r < 64"
      "c' = word_of_nat (foldl (\<lambda>a r. 64 * a + r) (64 * c + r) rs)" by auto
    then show ?thesis using r b True in_range
      by (intro exI [where x = "r # rs"]) (simp del: of_nat_add)
  next
    case False
    with Cons.prems show ?thesis by simp
  qed
qed

lemma utf8_follow_truncated: "utf8_follow n f ar c bs = Truncated \<Longrightarrow> length bs < f - n"
  by (induction bs arbitrary: n c) (fastforce split: if_splits)+

lemma utf8_bytes2: "\<lbrakk>2 \<le> q; q < 32; r < 64\<rbrakk> \<Longrightarrow>
  utf8_bytes (64 * q + r) = [word_of_nat (0xC0 + q), word_of_nat (0x80 + r)]"
  by (simp add: utf8_bytes_def del: of_nat_add)

lemma digit64: "s < 64 \<Longrightarrow> (64 * m + s) div 64 = (m::nat)" "s < 64 \<Longrightarrow> (64 * m + s) mod 64 = (s::nat)"
  by auto

lemma div64s: "n div 4096 = n div 64 div (64::nat)" "n div 262144 = n div 64 div 64 div (64::nat)"
  by (simp_all flip: div_mult2_eq)

lemma utf8_bytes3:
  assumes "q < 16" "r < 64" "s < 64" "q = 0 \<Longrightarrow> 32 \<le> r" "q = 13 \<Longrightarrow> r < 32"
  shows "utf8_bytes (64 * (64 * q + r) + s) = [word_of_nat (0xE0 + q), word_of_nat (0x80 + r), word_of_nat (0x80 + s)]"
    and "scalar (64 * (64 * q + r) + s)" and "128 \<le> 64 * (64 * q + r) + s"
proof -
  let ?n = "64 * (64 * q + r) + s"
  have d: "?n div 4096 = q" "?n div 64 mod 64 = r" "?n mod 64 = s"
    using assms by (simp_all only: div64s digit64)
  have n: "0x800 \<le> ?n" "?n < 0x10000" using assms by (cases "q = 0"; simp)+
  then show "128 \<le> ?n" by simp
  consider "q < 13" | "q = 13" | "13 < q" by linarith
  then have "\<not> (0xD800 \<le> ?n \<and> ?n \<le> 0xDFFF)" using assms by cases auto
  with n show "scalar ?n" by (simp add: scalar_def)
  show "utf8_bytes ?n = [word_of_nat (0xE0 + q), word_of_nat (0x80 + r), word_of_nat (0x80 + s)]"
    using n unfolding utf8_bytes_def d by simp
qed

lemma utf8_bytes4: 
  assumes "q < 5" "r < 64" "s < 64" "t < 64" "q = 0 \<Longrightarrow> 16 \<le> r" "q = 4 \<Longrightarrow> r < 16"
  shows "utf8_bytes (64 * (64 * (64 * q + r) + s) + t) =
    [word_of_nat (0xF0 + q), word_of_nat (0x80 + r), word_of_nat (0x80 + s), word_of_nat (0x80 + t)]"
    and "scalar (64 * (64 * (64 * q + r) + s) + t)" and "128 \<le> 64 * (64 * (64 * q + r) + s) + t"
proof -
  let ?n = "64 * (64 * (64 * q + r) + s) + t"
  have d: "?n div 262144 = q" "?n div 4096 mod 64 = r" "?n div 64 mod 64 = s" "?n mod 64 = t"
    using assms by (simp_all only: div64s digit64)
  have lo: "0x10000 \<le> ?n" using assms by (cases "q = 0") auto
  then show "128 \<le> ?n" by simp
  have "?n \<le> 0x10FFFF" using assms by (cases "q = 4") auto
  with lo show "scalar ?n" by (simp add: scalar_def)
  show "utf8_bytes ?n = [word_of_nat (0xF0 + q), word_of_nat (0x80 + r), word_of_nat (0x80 + s), word_of_nat (0x80 + t)]"
   using lo unfolding utf8_bytes_def d by simp
qed


lemma foldl64_2: "length rs = 2 \<Longrightarrow> \<exists>r s. rs = [r, s]" and foldl64_3: "length rs = 3 \<Longrightarrow> \<exists>r s t. rs = [r, s, t]"
  by (auto simp: numeral_2_eq_2 numeral_3_eq_3 length_Suc_conv)

text \<open>A character that the decoder completes is the encoding of a scalar value.\<close>

lemma utf8_loop_completeE:
  assumes "b AND 0x80 \<noteq> 0" and "b AND 0x40 \<noteq> 0" and "utf8_first ! unat b \<noteq> utf8_XX"
  obtains c k where "utf8_lead b = Some (c, k)" and "k \<le> 3"
    and "\<And>c' bs bs'. utf8_follow 0 k (accept_ranges ! unat (drop_bit 4 (utf8_first ! unat b))) c bs = Complete c' bs' \<Longrightarrow>
      \<exists>n. scalar n \<and> 128 \<le> n \<and> c' = word_of_nat n \<and> b # bs = utf8_bytes n @ bs'"
  using assms
proof (cases rule: lead_byteE [case_names two three four])
  case (two q)
  note lead = lead2_byte [OF two(1,2)]
  show ?thesis
  proof (rule that [of "word_of_nat q" 1])
    show "utf8_lead b = Some (word_of_nat q, 1)" using lead two(3) by simp
    fix c' bs bs'
    assume "utf8_follow 0 1 (accept_ranges ! unat (drop_bit 4 (utf8_first ! unat b))) (word_of_nat q) bs = Complete c' bs'"
    from utf8_followE [OF this] obtain r where "bs = word_of_nat (0x80 + r) # bs'" "r < 64" "c' = word_of_nat (64 * q + r)"
      by (auto simp: length_Suc_conv)
    then show "\<exists>n. scalar n \<and> 128 \<le> n \<and> c' = word_of_nat n \<and> b # bs = utf8_bytes n @ bs'"
      using two by (intro exI [where x = "64 * q + r"]) (simp add: utf8_bytes2 scalar_def del: of_nat_add)
  qed simp
next
  case (three q)
  note lead = lead3_byte [OF three(1)]
  show ?thesis
  proof (rule that [of "word_of_nat q" 2])
    show "utf8_lead b = Some (word_of_nat q, 2)" using lead three(2) by simp
    fix c' bs bs'
    assume "utf8_follow 0 2 (accept_ranges ! unat (drop_bit 4 (utf8_first ! unat b))) (word_of_nat q) bs = Complete c' bs'"
    from utf8_followE [OF this] obtain r s where *: "bs = word_of_nat (0x80 + r) # word_of_nat (0x80 + s) # bs'"
        "r < 64" "s < 64" "c' = word_of_nat (64 * (64 * q + r) + s)"
      and "unat (fst (accept_ranges ! unat (drop_bit 4 (utf8_first ! unat b)))) \<le> 0x80 + r"
        "0x80 + r \<le> unat (snd (accept_ranges ! unat (drop_bit 4 (utf8_first ! unat b))))"
      by (auto dest!: foldl64_2)
    then have "q = 0 \<Longrightarrow> 32 \<le> r" "q = 13 \<Longrightarrow> r < 32"
      using lead unfolding three(2) by (auto simp: accept_ranges_of simp del: of_nat_add)
    with * show "\<exists>n. scalar n \<and> 128 \<le> n \<and> c' = word_of_nat n \<and> b # bs = utf8_bytes n @ bs'"
      using three utf8_bytes3 [of q r s] by (intro exI [where x = "64 * (64 * q + r) + s"]) (auto simp del: of_nat_add)
  qed simp
next
  case (four q)
  note lead = lead4_byte [OF four(1)]
  show ?thesis
  proof (rule that [of "word_of_nat q" 3])
    show "utf8_lead b = Some (word_of_nat q, 3)" using lead four(2) by simp
    fix c' bs bs'
    assume "utf8_follow 0 3 (accept_ranges ! unat (drop_bit 4 (utf8_first ! unat b))) (word_of_nat q) bs = Complete c' bs'"
    from utf8_followE [OF this] obtain r s t where *: "bs = word_of_nat (0x80 + r) # word_of_nat (0x80 + s) # word_of_nat (0x80 + t) # bs'"
        "r < 64" "s < 64" "t < 64" "c' = word_of_nat (64 * (64 * (64 * q + r) + s) + t)"
      and "unat (fst (accept_ranges ! unat (drop_bit 4 (utf8_first ! unat b)))) \<le> 0x80 + r"
        "0x80 + r \<le> unat (snd (accept_ranges ! unat (drop_bit 4 (utf8_first ! unat b))))"
      by (auto dest!: foldl64_3)
    then have "q = 0 \<Longrightarrow> 16 \<le> r" "q = 4 \<Longrightarrow> r < 16"
      using lead unfolding four(2) by (auto simp: accept_ranges_of simp del: of_nat_add)
    with * show "\<exists>n. scalar n \<and> 128 \<le> n \<and> c' = word_of_nat n \<and> b # bs = utf8_bytes n @ bs'"
      using four utf8_bytes4 [of q r s t]
      by (intro exI [where x = "64 * (64 * (64 * q + r) + s) + t"]) (auto simp del: of_nat_add)
  qed simp
qed


text \<open>The result code of the decoder for the characters it read.\<close>

definition utf8_rv :: "nat list \<Rightarrow> int" where
  "utf8_rv ns =
     (if \<exists>n \<in> set ns. n < 128 \<and> text_chars ! n \<noteq> cls_T then 0
      else if \<exists>n \<in> set ns. 128 \<le> n then 2 else 1)"

lemma utf8_loop_sound:
  assumes "utf8_loop bs ub g ct = (rv, out)" and "rv \<noteq> -1"
  shows "\<exists>ns tail. (\<forall>n \<in> set ns. scalar n) \<and> out = ub @ map word_of_nat ns \<and>
    bs = concat (map utf8_bytes ns) @ tail \<and> length tail \<le> 3 \<and>
    rv = (if ct \<or> (\<exists>n \<in> set ns. n < 128 \<and> text_chars ! n \<noteq> cls_T) then 0
          else if g \<or> (\<exists>n \<in> set ns. 128 \<le> n) then 2 else 1)"
  using assms
proof (induction bs ub g ct rule: utf8_loop.induct)
  case (1 ub g ct)
  then show ?case by (intro exI [where x = "[]"]) auto
next
  case (2 b bs ub g ct)
  show ?case
  proof (cases "b AND 0x80 = 0")
    case True
    have "\<forall>b::u8. b AND 0x80 = 0 \<longrightarrow> unat b < 128" unfolding all_u8 by code_simp
    with True have small: "unat b < 128" by blast
    then have bytes: "utf8_bytes (unat b) = [b]" and sc: "scalar (unat b)"
      by (simp_all add: utf8_bytes_def scalar_def)
    have "utf8_loop bs (ub @ [ucast b]) g (ct \<or> tclass b \<noteq> cls_T) = (rv, out)"
      using 2(3) True by simp
    from 2(1) [OF True this 2(4)] obtain ns tail where
      "\<forall>n \<in> set ns. scalar n" "out = (ub @ [ucast b]) @ map word_of_nat ns"
      "bs = concat (map utf8_bytes ns) @ tail" "length tail \<le> 3"
      "rv = (if (ct \<or> tclass b \<noteq> cls_T) \<or> (\<exists>n \<in> set ns. n < 128 \<and> text_chars ! n \<noteq> cls_T) then 0
          else if g \<or> (\<exists>n \<in> set ns. 128 \<le> n) then 2 else 1)" by blast
    then show ?thesis using bytes sc small
      by (intro exI [where x = "unat b # ns"] exI [where x = tail]) (auto simp: tclass_def)
  next
    case False
    let ?x = "utf8_first ! unat b"
    have b: "b AND 0x40 \<noteq> 0" "?x \<noteq> utf8_XX" using 2(3,4) False by (auto simp: Let_def split: if_splits)
    obtain c k where lead: "utf8_lead b = Some (c, k)" "k \<le> 3"
      and complete: "\<And>c' bs bs'. utf8_follow 0 k (accept_ranges ! unat (drop_bit 4 ?x)) c bs = Complete c' bs' \<Longrightarrow>
        \<exists>n. scalar n \<and> 128 \<le> n \<and> c' = word_of_nat n \<and> b # bs = utf8_bytes n @ bs'"
      using False b by (rule utf8_loop_completeE) blast
    note step = utf8_loop_lead [OF False b(1) refl b(2) lead(1), of bs ub g ct]
    show ?thesis
    proof (cases "utf8_follow 0 k (accept_ranges ! unat (drop_bit 4 ?x)) c bs")
      case Truncated
      with utf8_follow_truncated [OF this] step 2(3) lead(2) show ?thesis
        by (intro exI [where x = "[]"] exI [where x = "b # bs"]) auto
    next
      case Invalid
      with step 2(3,4) show ?thesis by simp
    next
      case (Complete c' bs')
      from complete [OF this] obtain n where n: "scalar n" "128 \<le> n" "c' = word_of_nat n" "b # bs = utf8_bytes n @ bs'"
        by blast
      have "utf8_loop bs' (ub @ [c']) True ct = (rv, out)" using step 2(3) Complete by simp
      from 2(2) [OF False b(1) refl refl b(2) lead(1) refl Complete this 2(4)] obtain ns tail where
        "\<forall>n \<in> set ns. scalar n" "out = (ub @ [c']) @ map word_of_nat ns"
        "bs' = concat (map utf8_bytes ns) @ tail" "length tail \<le> 3"
        "rv = (if ct \<or> (\<exists>n \<in> set ns. n < 128 \<and> text_chars ! n \<noteq> cls_T) then 0
          else if True \<or> (\<exists>n \<in> set ns. 128 \<le> n) then 2 else 1)" by blast
      then show ?thesis using n
        by (intro exI [where x = "n # ns"] exI [where x = tail]) auto
    qed
  qed
qed



text \<open>C14.  Round trip.  The encoder of \<^verbatim>\<open>ascmagic.c\<close> succeeds on Unicode scalar values whenever it has
  four bytes of room per character (the caller allocates six), and the decoder of \<^verbatim>\<open>encoding.c\<close>
  reads the same characters back, with the answer those characters call for.\<close>

theorem utf8_roundtrip:
  assumes "\<forall>n \<in> set ns. scalar n" and "4 * length ns \<le> len"
  shows "\<exists>bs. encode_utf8 len (map word_of_nat ns) = Some bs \<and>
    file_looks_utf8 bs ub = (utf8_rv ns, map word_of_nat ns)"
proof -
  have "encode_utf8 len (map word_of_nat ns) = Some (concat (map utf8_bytes ns))"
    using assms length_concat_utf8_bytes [of ns] by (intro encode_utf8_scalars) auto
  moreover have "file_looks_utf8 (concat (map utf8_bytes ns)) ub = (utf8_rv ns, map word_of_nat ns)"
    using utf8_decode_all [OF assms(1), of "[]"] by (simp add: file_looks_utf8_def utf8_rv_def)
  ultimately show ?thesis by blast
qed

theorem utf8_roundtrip_witness:
  "\<exists>bs. encode_utf8 12 (map word_of_nat [0x41, 0x20AC, 0x1F600]) = Some bs \<and>
    file_looks_utf8 bs [] = (utf8_rv [0x41, 0x20AC, 0x1F600], map word_of_nat [0x41, 0x20AC, 0x1F600])"
  by (rule utf8_roundtrip) (simp_all add: scalar_def)

subsection \<open>UTF-8 files\<close>

lemma lead_not_text: "scalar n \<Longrightarrow> 128 \<le> n \<Longrightarrow> tclass (hd (utf8_bytes n)) \<noteq> cls_T"
proof -
  assume n: "scalar n" "128 \<le> n"
  have all: "list_all (\<lambda>k. text_chars ! k \<noteq> cls_T) [0xC0..<0x100]" by code_simp
  have "\<exists>k. 0xC0 \<le> k \<and> k < 0x100 \<and> hd (utf8_bytes n) = word_of_nat k"
  proof -
    consider (two) "n < 0x800" | (three) "0x800 \<le> n" "n < 0x10000" | (four) "0x10000 \<le> n" "n \<le> 0x10FFFF"
      using n unfolding scalar_def by linarith
    then show ?thesis
    proof cases
      case two
      then show ?thesis using n by (intro exI [where x = "0xC0 + n div 64"]) (auto simp: utf8_bytes_def)
    next
      case three
      then show ?thesis by (intro exI [where x = "0xE0 + n div 4096"]) (auto simp: utf8_bytes_def)
    next
      case four
      then show ?thesis by (intro exI [where x = "0xF0 + n div 262144"]) (auto simp: utf8_bytes_def)
    qed
  qed
  then obtain k where k: "0xC0 \<le> k" "k < 0x100" "hd (utf8_bytes n) = word_of_nat k" by blast
  with list_all_uptD [OF all k(1,2)] show ?thesis by (simp add: tclass_def unat_of_nat)
qed

lemma no_utf8_bom: "take 3 buf \<noteq> [0xef, 0xbb, 0xbf] \<Longrightarrow> looks_utf8_with_BOM buf ub = (-1, ub)"
proof -
  assume nobom: "take 3 buf \<noteq> [0xef, 0xbb, 0xbf]"
  have "\<not> (length buf > 3 \<and> buf ! 0 = 0xef \<and> buf ! 1 = 0xbb \<and> buf ! 2 = 0xbf)"
  proof
    assume h: "length buf > 3 \<and> buf ! 0 = 0xef \<and> buf ! 1 = 0xbb \<and> buf ! 2 = 0xbf"
    then obtain a b c bs where "buf = a # b # c # bs"
      by (metis Suc_le_length_iff less_imp_le numeral_3_eq_3)
    with h nobom show False by (simp add: numeral_3_eq_3)
  qed
  then show ?thesis unfolding looks_utf8_with_BOM_def by (rule if_not_P)
qed

text \<open>C34.  UTF-8 files are recognised: a file that is the encoding of Unicode scalar values, with a
  non-ASCII character and no non-text control among them and no byte-order mark, is reported as UTF-8
  and its characters are exactly these values.\<close>

theorem file_encoding_utf8:
  assumes "\<forall>n \<in> set ns. scalar n" and "\<exists>n \<in> set ns. 128 \<le> n"
    and "\<forall>n \<in> set ns. n < 128 \<longrightarrow> text_chars ! n = cls_T"
    and "bs = concat (map utf8_bytes ns)" and "length bs \<le> m" and "take 3 bs \<noteq> [0xef, 0xbb, 0xbf]"
  shows "file_encoding m (Some bs) e =
    \<lparr>e_rv = 1, e_ubuf = map word_of_nat ns, e_code = ''Unicode text, UTF-8'', e_code_mime = ''utf-8'',
     e_type = ''text''\<rparr>"
proof -
  from assms(1,2) obtain n where n: "n \<in> set ns" "scalar n" "128 \<le> n" by blast
  have "utf8_bytes n \<noteq> []" using length_utf8_bytes(2) [of n] by auto
  then have "hd (utf8_bytes n) \<in> set (utf8_bytes n)" by simp
  with n(1) have "hd (utf8_bytes n) \<in> set bs" unfolding assms(4) by auto
  from ascii.rejects_byte [OF this lead_not_text [OF n(2,3)], of "[]"] obtain u
    where 1: "looks_ascii bs [] = (0, u)" by blast
  have "utf8_rv ns = 2" using assms(2,3) by (auto simp: utf8_rv_def)
  with utf8_decode_all [OF assms(1), of "[]" "[]" False False] assms(2,3)
  have 4: "file_looks_utf8 bs w = (2, map word_of_nat ns)" for w
    by (auto simp: file_looks_utf8_def assms(4))
  show ?thesis
    using assms(5) by (simp add: file_encoding_def Let_def 1 4 no_utf8_bom [OF assms(6)])
qed

theorem file_encoding_utf8_witness:
  "file_encoding 100 (Some [0x41, 0xC3, 0xA9]) undefined =
    \<lparr>e_rv = 1, e_ubuf = map word_of_nat [0x41, 0xE9], e_code = ''Unicode text, UTF-8'', e_code_mime = ''utf-8'',
     e_type = ''text''\<rparr>"
proof (rule file_encoding_utf8)
  show "\<forall>n \<in> set [0x41, 0xE9]. n < 128 \<longrightarrow> text_chars ! n = cls_T" by (simp add: text_chars_def cls_T_def)
qed (simp_all add: scalar_def utf8_bytes_def)

end
