(* ===== verification/Json.thy ===== *)
theory Json
  imports Prelude
begin

text \<open>
  The JSON recogniser, \<^verbatim>\<open>src/is_json.c\<close>, compiled with \<^verbatim>\<open>JSON_COUNT\<close> 0 as in the distribution.  A pair of
  pointers \<open>uc\<close>, \<open>ue\<close> is the list of bytes between them; a parser that takes \<^verbatim>\<open>const unsigned char **ucp\<close>
  returns its answer with the new list.  The counters \<^verbatim>\<open>st[JSON_MAX]\<close> are a list of six numbers.
\<close>

subsection \<open>Character tests\<close>

definition JSON_ARRAY :: nat where "JSON_ARRAY = 0"
definition JSON_CONSTANT :: nat where "JSON_CONSTANT = 1"
definition JSON_NUMBER :: nat where "JSON_NUMBER = 2"
definition JSON_OBJECT :: nat where "JSON_OBJECT = 3"
definition JSON_STRING :: nat where "JSON_STRING = 4"
definition JSON_ARRAYN :: nat where "JSON_ARRAYN = 5"
definition JSON_MAX :: nat where "JSON_MAX = 6"

lemmas json_counters = JSON_ARRAY_def JSON_CONSTANT_def JSON_NUMBER_def JSON_OBJECT_def
  JSON_STRING_def JSON_ARRAYN_def JSON_MAX_def

text \<open>The counter update \<^verbatim>\<open>st[t]++\<close>.\<close>

definition bump :: "nat \<Rightarrow> nat list \<Rightarrow> nat list" where
  "bump t st = st[t := st ! t + 1]"

definition json_isspace :: "u8 \<Rightarrow> bool" where
  "json_isspace uc \<longleftrightarrow> uc = 0x20 \<or> uc = 0x0a \<or> uc = 0x0d \<or> uc = 0x09"

definition json_isdigit :: "u8 \<Rightarrow> bool" where
  "json_isdigit uc \<longleftrightarrow> uc \<in> set [0x30, 0x31, 0x32, 0x33, 0x34, 0x35, 0x36, 0x37, 0x38, 0x39]"

definition json_isxdigit :: "u8 \<Rightarrow> bool" where
  "json_isxdigit uc \<longleftrightarrow> json_isdigit uc \<or>
     uc \<in> set [0x61, 0x62, 0x63, 0x64, 0x65, 0x66, 0x41, 0x42, 0x43, 0x44, 0x45, 0x46]"

definition json_skip_space :: "u8 list \<Rightarrow> u8 list" where
  "json_skip_space uc = dropWhile json_isspace uc"

subsection \<open>Strings, numbers, constants\<close>

text \<open>The four hexadecimal digits of a \<^verbatim>\<open>\u\<close> escape: the loop over \<open>i\<close>, which stops after the first byte that
  is no digit.\<close>

fun json_xdigits :: "nat \<Rightarrow> u8 list \<Rightarrow> bool \<times> u8 list" where
  "json_xdigits (Suc n) (c # uc) = (if json_isxdigit c then json_xdigits n uc else (False, uc))"
| "json_xdigits _ uc = (True, uc)"

lemma json_xdigits_le: "length (snd (json_xdigits n uc)) \<le> length uc"
  by (induction n uc rule: json_xdigits.induct) auto

text \<open>What follows a backslash: \<open>True\<close> is \<^verbatim>\<open>continue\<close>, \<open>False\<close> is \<^verbatim>\<open>goto out\<close>.\<close>

definition json_escape :: "u8 list \<Rightarrow> bool \<times> u8 list" where
  "json_escape uc = (case uc of
     [] \<Rightarrow> (False, [])
   | d # uc' \<Rightarrow>
       if d = 0 then (False, uc')
       else if d \<in> set [0x22, 0x5c, 0x2f, 0x62, 0x66, 0x6e, 0x72, 0x74] then (True, uc')
       else if d = 0x75 then (if length uc' < 4 then (False, []) else json_xdigits 4 uc')
       else (False, uc'))"

lemma json_escape_le: "length (snd (json_escape uc)) \<le> length uc"
  using json_xdigits_le [of 4 "tl uc"] by (cases uc) (auto simp: json_escape_def)

function json_parse_string :: "u8 list \<Rightarrow> nat \<times> u8 list" where
  "json_parse_string [] = (0, [])"
| "json_parse_string (c # uc) =
     (if c = 0 then (0, uc)
      else if c = 0x5c then
        (let (ok, uc') = json_escape uc in if ok then json_parse_string uc' else (0, uc'))
      else if c = 0x22 then (1, uc)
      else json_parse_string uc)"
  by pat_completeness auto
termination
proof (relation "measure length")
  fix c :: u8 and uc uc' :: "u8 list" and x ok
  assume "x = json_escape uc" and "(ok, uc') = x"
  then have "json_escape uc = (ok, uc')" by simp
  then show "(uc', c # uc) \<in> measure length" using json_escape_le [of uc] by simp
qed auto

text \<open>The loop over digits, with the flag \<open>got\<close>.\<close>

fun json_digits :: "bool \<Rightarrow> u8 list \<Rightarrow> bool \<times> u8 list" where
  "json_digits got [] = (got, [])"
| "json_digits got (c # uc) = (if json_isdigit c then json_digits True uc else (got, c # uc))"

text \<open>Skip one byte if it is one of those given: \<^verbatim>\<open>if (*uc == '-') uc++\<close>; the caller has ruled out the end.\<close>

fun skip_if :: "u8 list \<Rightarrow> u8 list \<Rightarrow> u8 list" where
  "skip_if cs [] = []"
| "skip_if cs (c # uc) = (if c \<in> set cs then uc else c # uc)"

definition json_parse_number :: "u8 list \<Rightarrow> nat \<times> u8 list" where
  "json_parse_number uc =
     (if uc = [] then (0, uc)
      else let (got, uc) = json_digits False (skip_if [0x2d] uc) in
        if uc = [] then (of_bool got, uc)
        else let (got, uc) = json_digits got (skip_if [0x2e] uc) in
          if uc = [] then (of_bool got, uc)
          else if got \<and> (hd uc = 0x65 \<or> hd uc = 0x45) then
            (let uc = tl uc in
             if uc = [] then (0, uc)
             else let (got, uc) = json_digits False (skip_if [0x2b, 0x2d] uc) in (of_bool got, uc))
          else (of_bool got, uc))"

text \<open>\<open>str\<close> is the constant without its first letter, which the caller has matched.  The pointer moves
  by the length of the rest whether or not it matches, and stays within the buffer; the comparison
  stops at the end of the buffer.\<close>

fun json_const_match :: "u8 list \<Rightarrow> u8 list \<Rightarrow> bool" where
  "json_const_match (c # uc) (s # str) = (c = s \<and> json_const_match uc str)"
| "json_const_match _ _ = True"

definition json_parse_const :: "u8 list \<Rightarrow> u8 list \<Rightarrow> nat \<times> u8 list" where
  "json_parse_const uc str = (of_bool (json_const_match uc str), drop (length str) uc)"

subsection \<open>Values\<close>

lemma json_skip_space_le: "length (json_skip_space uc) \<le> length uc"
  by (simp add: json_skip_space_def length_dropWhile_le)

lemma json_skip_space_Cons: "json_skip_space uc = c # uc' \<Longrightarrow> length uc' < length uc"
  using json_skip_space_le [of uc] by simp

lemma json_parse_string_le: "length (snd (json_parse_string uc)) \<le> length uc"
proof (induction uc rule: json_parse_string.induct)
  case (2 c uc)
  obtain ok u where e: "json_escape uc = (ok, u)" by fastforce
  then have "length u \<le> length uc" using json_escape_le [of uc] by simp
  moreover have "length (snd (json_parse_string u)) \<le> length u" if "c \<noteq> 0" "c = 0x5c" ok
    using 2(1) [OF that(1,2) e [symmetric]] e that(3) by simp
  ultimately show ?case using 2(2) e by (auto simp: Let_def)
qed simp

lemma json_digits_le: "length (snd (json_digits got uc)) \<le> length uc"
  by (induction got uc rule: json_digits.induct) auto

lemma skip_if_le: "length (skip_if cs uc) \<le> length uc"
  by (cases uc) auto

lemma json_digits_skip_le: "json_digits got (skip_if cs uc) = (g, uc') \<Longrightarrow> length uc' \<le> length uc"
  using json_digits_le [of got "skip_if cs uc"] skip_if_le [of cs uc] by simp

lemma json_parse_number_le: "length (snd (json_parse_number uc)) \<le> length uc"
proof -
  obtain g1 u1 where 1: "json_digits False (skip_if [0x2d] uc) = (g1, u1)" by fastforce
  obtain g2 u2 where 2: "json_digits g1 (skip_if [0x2e] u1) = (g2, u2)" by fastforce
  obtain g3 u3 where 3: "json_digits False (skip_if [0x2b, 0x2d] (tl u2)) = (g3, u3)" by fastforce
  have "length u1 \<le> length uc" "length u2 \<le> length uc" "length u3 \<le> length uc"
    using json_digits_skip_le [OF 1] json_digits_skip_le [OF 2] json_digits_skip_le [OF 3] by simp_all
  then show ?thesis by (simp add: json_parse_number_def Let_def 1 2 3)
qed

lemma json_digits_got: "json_digits got uc = (True, uc') \<Longrightarrow> \<not> got \<Longrightarrow> length uc' < length uc"
  using json_digits_le [of True "tl uc"] by (cases uc) (auto split: if_splits)

lemma json_parse_number_less:
  assumes "json_parse_number uc = (rv, uc')" and "rv \<noteq> 0"
  shows "length uc' < length uc"
proof -
  obtain g1 u1 where 1: "json_digits False (skip_if [0x2d] uc) = (g1, u1)" by fastforce
  obtain g2 u2 where 2: "json_digits g1 (skip_if [0x2e] u1) = (g2, u2)" by fastforce
  obtain g3 u3 where 3: "json_digits False (skip_if [0x2b, 0x2d] (tl u2)) = (g3, u3)" by fastforce
  note le = json_digits_skip_le [OF 1] json_digits_skip_le [OF 2] json_digits_skip_le [OF 3]
  have g1: "g1 \<Longrightarrow> length u1 < length uc"
    using json_digits_got [of False _ u1] 1 skip_if_le [of "[0x2d]" uc] by fastforce
  moreover have "g2 \<Longrightarrow> \<not> g1 \<Longrightarrow> length u2 < length u1"
    using json_digits_got [of False _ u2] 2 skip_if_le [of "[0x2e]" u1] by fastforce
  ultimately have g2: "g2 \<Longrightarrow> length u2 < length uc" using le by linarith
  then have g3: "g2 \<Longrightarrow> length u3 < length uc" using le(3) by simp
  show ?thesis
    using assms g1 g2 g3 by (auto simp: json_parse_number_def Let_def 1 2 3 split: if_splits)
qed

lemma json_parse_const_le: "length (snd (json_parse_const uc str)) \<le> length uc"
  by (simp add: json_parse_const_def)

lemma json_scalars_le:
  "json_parse_string uc = (rv, uc') \<Longrightarrow> length uc' \<le> length uc"
  "json_parse_number uc = (rv, uc') \<Longrightarrow> length uc' \<le> length uc"
  "json_parse_const uc str = (rv, uc') \<Longrightarrow> length uc' \<le> length uc"
  using json_parse_string_le [of uc] json_parse_number_le [of uc] json_parse_const_le [of uc str] by auto

text \<open>The cases of the switch that neither open an array nor an object: the answer, the counter \<open>t\<close>
  and the rest.\<close>

definition json_scalar :: "u8 \<Rightarrow> u8 list \<Rightarrow> nat \<times> nat \<times> u8 list" where
  "json_scalar c uc =
     (if c = 0x22 then (case json_parse_string uc of (rv, uc) \<Rightarrow> (rv, JSON_STRING, uc))
      else if c = 0x74 then
        (case json_parse_const uc [0x72, 0x75, 0x65] of (rv, uc) \<Rightarrow> (rv, JSON_CONSTANT, uc))
      else if c = 0x66 then
        (case json_parse_const uc [0x61, 0x6c, 0x73, 0x65] of (rv, uc) \<Rightarrow> (rv, JSON_CONSTANT, uc))
      else if c = 0x6e then
        (case json_parse_const uc [0x75, 0x6c, 0x6c] of (rv, uc) \<Rightarrow> (rv, JSON_CONSTANT, uc))
      else (case json_parse_number (c # uc) of (rv, uc) \<Rightarrow> (rv, JSON_NUMBER, uc)))"

lemma json_scalar_le: "json_scalar c uc = (rv, t, uc') \<Longrightarrow> length uc' \<le> Suc (length uc)"
  by (auto simp: json_scalar_def dest!: json_scalars_le split: if_splits prod.splits)

lemma json_scalar_less: "json_scalar c uc = (rv, t, uc') \<Longrightarrow> rv \<noteq> 0 \<Longrightarrow> length uc' \<le> length uc"
  using json_parse_number_less [of "c # uc"]
  by (auto simp: json_scalar_def dest!: json_scalars_le(1,3) split: if_splits prod.splits)

text \<open>\<^verbatim>\<open>(st[JSON_ARRAYN] || st[JSON_OBJECT]) ? n : 0\<close>.\<close>

definition json_tail :: "nat list \<Rightarrow> nat \<Rightarrow> nat" where
  "json_tail st n = (if st ! JSON_ARRAYN \<noteq> 0 \<or> st ! JSON_OBJECT \<noteq> 0 then n else 0)"

function json_parse :: "u8 list \<Rightarrow> nat list \<Rightarrow> nat \<Rightarrow> nat \<times> u8 list \<times> nat list"
  and json_parse_array :: "u8 list \<Rightarrow> nat list \<Rightarrow> nat \<Rightarrow> nat \<times> u8 list \<times> nat list"
  and json_parse_object :: "u8 list \<Rightarrow> nat list \<Rightarrow> nat \<Rightarrow> nat \<times> u8 list \<times> nat list" where
  "json_parse ucp st lvl =
     (case json_skip_space ucp of
        [] \<Rightarrow> (0, [], st)
      | c # uc \<Rightarrow>
          if lvl > 500 then (0, ucp, st)
          else let (rv, t, uc, st) =
              (if c = 0x5b then
                 (case json_parse_array uc st (Suc lvl) of (rv, uc, st) \<Rightarrow> (rv, JSON_ARRAY, uc, st))
               else if c = 0x7b then
                 (case json_parse_object uc st (Suc lvl) of (rv, uc, st) \<Rightarrow> (rv, JSON_OBJECT, uc, st))
               else (case json_scalar c uc of (rv, t, uc) \<Rightarrow> (rv, t, uc, st)));
            st = (if rv \<noteq> 0 then bump t st else st);
            uc = json_skip_space uc
          in if lvl = 0 then
               (if rv = 0 then (0, uc, st)
                else case uc of
                    [] \<Rightarrow> (json_tail st 1, uc, st)
                  | c' # uc' \<Rightarrow>
                      (if c = c'
                       then (case json_parse uc st 1 of
                               (rv2, _, st2) \<Rightarrow> (if rv2 \<noteq> 0 then json_tail st2 2 else 0, uc, st2))
                       else (0, uc, st)))
             else (rv, uc, st))"
| "json_parse_array uc st lvl =
     (if uc = [] then (0, uc, st)
      else case json_skip_space uc of
          [] \<Rightarrow> (0, [], st)
        | c # uc0 \<Rightarrow>
            if c = 0x5d then (1, uc0, bump JSON_ARRAYN st)
            else (case json_parse (c # uc0) st (Suc lvl) of
                (rv, uc1, st1) \<Rightarrow>
                  if rv = 0 then (0, uc1, st1)
                  else (case uc1 of
                      [] \<Rightarrow> (0, [], st1)
                    | d # uc2 \<Rightarrow>
                        if d = 0x2c then json_parse_array uc2 st1 lvl
                        else if d = 0x5d then (1, uc2, bump JSON_ARRAYN st1)
                        else (0, d # uc2, st1))))"
| "json_parse_object uc st lvl =
     (if uc = [] then (0, uc, st)
      else case json_skip_space uc of
          [] \<Rightarrow> (0, [], st)
        | c # uc0 \<Rightarrow>
            if c = 0x7d then (1, uc0, st)
            else if c \<noteq> 0x22 then (0, uc0, st)
            else (case json_parse_string uc0 of
                (rv, uc1) \<Rightarrow>
                  if rv = 0 then (0, uc1, st)
                  else (case json_skip_space uc1 of
                      [] \<Rightarrow> (0, [], st)
                    | d # uc2 \<Rightarrow>
                        if d \<noteq> 0x3a then (0, uc2, st)
                        else (case json_parse uc2 st (Suc lvl) of
                            (rv, uc3, st1) \<Rightarrow>
                              if rv = 0 then (0, uc3, st1)
                              else (case uc3 of
                                  [] \<Rightarrow> (0, [], st1)
                                | e # uc4 \<Rightarrow>
                                    if e = 0x2c then json_parse_object uc4 st1 lvl
                                    else if e = 0x7d then (1, uc4, st1)
                                    else (0, uc4, st1))))))"
  by pat_completeness auto


lemma json_array_ext:
  assumes "json_parse_json_parse_array_json_parse_object_dom (Inr (Inl (uc, st, lvl)))"
    and Q: "\<And>c uc0. json_skip_space uc = c # uc0 \<Longrightarrow> c \<noteq> 0x5d \<Longrightarrow> uc \<noteq> [] \<Longrightarrow>
      length (fst (snd (json_parse (c # uc0) st (Suc lvl)))) \<le> Suc (length uc0)"
    and R: "\<And>c uc0 rv u2 s. json_skip_space uc = c # uc0 \<Longrightarrow> c \<noteq> 0x5d \<Longrightarrow> uc \<noteq> [] \<Longrightarrow> 
      json_parse (c # uc0) st (Suc lvl) = (rv, 0x2c # u2, s) \<Longrightarrow> rv \<noteq> 0 \<Longrightarrow>
      length (fst (snd (json_parse_array u2 s lvl))) \<le> length u2"
  shows "length (fst (snd (json_parse_array uc st lvl))) \<le> length uc"
proof (cases "json_skip_space uc")
  case Nil
  then show ?thesis by (simp add: json_parse_array.psimps [OF assms(1)])
next
  case (Cons c uc0)
  note sp = json_skip_space_Cons [OF Cons]
  show ?thesis
  proof (cases "uc = [] \<or> c = 0x5d")
    case True
    then show ?thesis using sp by (auto simp: json_parse_array.psimps [OF assms(1)] Cons)
  next
    case False
    obtain rv u s where p: "json_parse (c # uc0) st (Suc lvl) = (rv, u, s)" by (metis prod.collapse)
    with Q [OF Cons] False have u: "length u \<le> Suc (length uc0)" by auto
    show ?thesis
    proof (cases "rv \<noteq> 0 \<and> u \<noteq> [] \<and> hd u = 0x2c")
      case True
      then obtain u2 where u2: "u = 0x2c # u2" by (cases u) auto
      with R [OF Cons _ _ p [unfolded u2]] False True u sp show ?thesis
        by (simp add: json_parse_array.psimps [OF assms(1)] Cons p)
    next
      case no: False
      then show ?thesis using False u sp
        by (auto simp: json_parse_array.psimps [OF assms(1)] Cons p split: list.split)
    qed
  qed
qed
lemma json_object_ext:
  assumes "json_parse_json_parse_array_json_parse_object_dom (Inr (Inr (uc, st, lvl)))"
    and Q: "\<And>c uc0 rv uc1 uc2. json_skip_space uc = c # uc0 \<Longrightarrow> c = 0x22 \<Longrightarrow> uc \<noteq> [] \<Longrightarrow>
      json_parse_string uc0 = (rv, uc1) \<Longrightarrow> rv \<noteq> 0 \<Longrightarrow> json_skip_space uc1 = 0x3a # uc2 \<Longrightarrow>
      length (fst (snd (json_parse uc2 st (Suc lvl)))) \<le> length uc2"
    and R: "\<And>c uc0 rv uc1 uc2 rv' u2 s. json_skip_space uc = c # uc0 \<Longrightarrow> c = 0x22 \<Longrightarrow> uc \<noteq> [] \<Longrightarrow>
      json_parse_string uc0 = (rv, uc1) \<Longrightarrow> rv \<noteq> 0 \<Longrightarrow> json_skip_space uc1 = 0x3a # uc2 \<Longrightarrow>
      json_parse uc2 st (Suc lvl) = (rv', 0x2c # u2, s) \<Longrightarrow> rv' \<noteq> 0 \<Longrightarrow>
      length (fst (snd (json_parse_object u2 s lvl))) \<le> length u2"
  shows "length (fst (snd (json_parse_object uc st lvl))) \<le> length uc"
proof (cases "json_skip_space uc")
  case Nil
  then show ?thesis by (simp add: json_parse_object.psimps [OF assms(1)])
next
  case (Cons c uc0)
  note sp = json_skip_space_Cons [OF Cons]
  note step = json_parse_object.psimps [OF assms(1)] Cons
  obtain rv uc1 where str: "json_parse_string uc0 = (rv, uc1)" by fastforce
  note u1 = json_scalars_le(1) [OF str]
  show ?thesis
  proof (cases "uc = [] \<or> c \<noteq> 0x22 \<or> rv = 0 \<or> (case json_skip_space uc1 of [] \<Rightarrow> True | d # _ \<Rightarrow> d \<noteq> 0x3a)")
    case True
    then show ?thesis using sp u1 json_skip_space_Cons [of uc1] by (auto simp: step str split: list.split list.splits)
  next
    case False
    then obtain uc2 where colon: "json_skip_space uc1 = 0x3a # uc2" by (auto split: list.splits)
    note u2 = json_skip_space_Cons [OF colon]
    obtain rv' u s where p: "json_parse uc2 st (Suc lvl) = (rv', u, s)" by (metis prod.collapse)
    with Q [OF Cons _ _ str _ colon] False have u: "length u \<le> length uc2" by auto
    show ?thesis
    proof (cases "rv' \<noteq> 0 \<and> u \<noteq> [] \<and> hd u = 0x2c")
      case True
      then obtain u3 where u3: "u = 0x2c # u3" by (cases u) auto
      with R [OF Cons _ _ str _ colon p [unfolded u3]] False True u u1 u2 sp show ?thesis
        by (simp add: step str colon p)
    next
      case no: False
      then show ?thesis using False u u1 u2 sp
        by (auto simp: step str colon p split: list.split)
    qed
  qed
qed

lemma json_parse_ext:
  assumes "json_parse_json_parse_array_json_parse_object_dom (Inl (ucp, st, lvl))"
    and "\<And>c uc. json_skip_space ucp = c # uc \<Longrightarrow> \<not> 500 < lvl \<Longrightarrow> c = 0x5b \<Longrightarrow>
      length (fst (snd (json_parse_array uc st (Suc lvl)))) \<le> length uc"
    and "\<And>c uc. json_skip_space ucp = c # uc \<Longrightarrow> \<not> 500 < lvl \<Longrightarrow> c = 0x7b \<Longrightarrow>
      length (fst (snd (json_parse_object uc st (Suc lvl)))) \<le> length uc"
  shows "length (fst (snd (json_parse ucp st lvl))) \<le> length ucp"
proof (cases "json_skip_space ucp")
  case Nil
  then show ?thesis by (simp add: json_parse.psimps [OF assms(1)])
next
  case (Cons c uc)
  show ?thesis
  proof (cases "500 < lvl")
    case True
    then show ?thesis by (simp add: json_parse.psimps [OF assms(1)] Cons)
  next
    case False
    obtain rv t u s where eq: "(if c = 0x5b then
               (case json_parse_array uc st (Suc lvl) of (rv, uc, st) \<Rightarrow> (rv, JSON_ARRAY, uc, st))
             else if c = 0x7b then
               (case json_parse_object uc st (Suc lvl) of (rv, uc, st) \<Rightarrow> (rv, JSON_OBJECT, uc, st))
             else (case json_scalar c uc of (rv, t, uc) \<Rightarrow> (rv, t, uc, st))) = (rv, t, u, s)"
      by (metis prod.collapse)
    then have "length u \<le> Suc (length uc)"
      using json_scalar_le [of c uc] assms(2,3) [OF Cons False] by (auto split: if_splits prod.splits)
    then have "length (json_skip_space u) \<le> length ucp"
      using json_skip_space_le [of u] json_skip_space_Cons [OF Cons] by linarith
    with False show ?thesis
      unfolding json_parse.psimps [OF assms(1)] Cons list.case eq Let_def
      by (auto split: list.split prod.split)
  qed
qed

lemma json_parse_dom_le:
  "json_parse_json_parse_array_json_parse_object_dom (Inl (ucp, st, lvl)) \<Longrightarrow>
     length (fst (snd (json_parse ucp st lvl))) \<le> length ucp"
  "json_parse_json_parse_array_json_parse_object_dom (Inr (Inl (uc, st', lvl'))) \<Longrightarrow>
     length (fst (snd (json_parse_array uc st' lvl'))) \<le> length uc"
  "json_parse_json_parse_array_json_parse_object_dom (Inr (Inr (uc2, st2, lvl2))) \<Longrightarrow>
     length (fst (snd (json_parse_object uc2 st2 lvl2))) \<le> length uc2"
proof (induction ucp st lvl and uc st' lvl' and uc2 st2 lvl2
    rule: json_parse_json_parse_array_json_parse_object.pinduct)
  case (1 ucp st lvl)
  show ?case by (rule json_parse_ext [OF 1(1)]) (use 1(2,3) in auto)
next
  case (2 uc st lvl)
  show ?case
  proof (rule json_array_ext [OF 2(1)])
    fix c uc0 assume "json_skip_space uc = c # uc0" "c \<noteq> 0x5d" "uc \<noteq> []"
    with 2(2) show "length (fst (snd (json_parse (c # uc0) st (Suc lvl)))) \<le> Suc (length uc0)" by fastforce
  next
    fix c uc0 rv u2 s
    assume "json_skip_space uc = c # uc0" "c \<noteq> 0x5d" "uc \<noteq> []" 
      "json_parse (c # uc0) st (Suc lvl) = (rv, 0x2c # u2, s)" "rv \<noteq> 0"
    then show "length (fst (snd (json_parse_array u2 s lvl))) \<le> length u2"
      by (intro 2(3)) auto
  qed
next
  case (3 uc st lvl)
  show ?case
  proof (rule json_object_ext [OF 3(1)])
    fix c uc0 rv uc1 uc2 assume "json_skip_space uc = c # uc0" "c = 0x22" "uc \<noteq> []" 
      "json_parse_string uc0 = (rv, uc1)" "rv \<noteq> 0" "json_skip_space uc1 = 0x3a # uc2"
    then show "length (fst (snd (json_parse uc2 st (Suc lvl)))) \<le> length uc2"
      by (intro 3(2)) auto
  next
    fix c uc0 rv uc1 uc2 rv' u2 s assume "json_skip_space uc = c # uc0" "c = 0x22" "uc \<noteq> []" 
      "json_parse_string uc0 = (rv, uc1)" "rv \<noteq> 0" "json_skip_space uc1 = 0x3a # uc2"
      "json_parse uc2 st (Suc lvl) = (rv', 0x2c # u2, s)" "rv' \<noteq> 0"
    note h = this
    show "length (fst (snd (json_parse_object u2 s lvl))) \<le> length u2"
      by (rule 3(3) [OF h(3,1) _ _ h(4) [symmetric] h(5,6) _ h(7) [symmetric] refl h(8) refl refl])
        (use h(2) in simp_all)
  qed
qed


text \<open>Every recursive call is on a shorter text, or on the same text from a loop to a value.\<close>

definition json_size :: "(u8 list \<times> nat list \<times> nat) + (u8 list \<times> nat list \<times> nat) + (u8 list \<times> nat list \<times> nat) \<Rightarrow> nat" where
  "json_size a = (case a of Inl (uc, _) \<Rightarrow> 2 * length uc
     | Inr (Inl (uc, _)) \<Rightarrow> Suc (2 * length uc) | Inr (Inr (uc, _)) \<Rightarrow> Suc (2 * length uc))"

lemma json_size_simps [simp]:
  "json_size (Inl (uc, st, lvl)) = 2 * length uc"
  "json_size (Inr (Inl (uc, st, lvl))) = Suc (2 * length uc)"
  "json_size (Inr (Inr (uc, st, lvl))) = Suc (2 * length uc)"
  by (simp_all add: json_size_def)

termination json_parse
proof (relation "measure json_size", goal_cases)
  case (2 ucp st lvl c uc)
  then show ?case using json_skip_space_Cons [of ucp] by simp
next
  case (3 ucp st lvl c uc)
  then show ?case using json_skip_space_Cons [of ucp] by simp
next
  case (4 ucp st lvl c uc x rv y t ya xc yb xd xe c' uc')
  have x: "x = (rv, t, xc, yb)" using 4(4-6) by simp
  have arr: "c = 0x5b \<Longrightarrow> length (fst (snd (json_parse_array uc st (Suc lvl)))) \<le> length uc"
    and obj: "c \<noteq> 0x5b \<Longrightarrow> c = 0x7b \<Longrightarrow> length (fst (snd (json_parse_object uc st (Suc lvl)))) \<le> length uc"
    by (rule json_parse_dom_le(2,3), (erule (1) 4(13) | erule 4(14)))+
  have "length xc \<le> length uc"
    using arr obj json_scalar_less [of c uc rv t xc] 4(10) 4(3) x by (auto split: if_splits prod.splits)
  then show ?case using json_skip_space_le [of xc] json_skip_space_Cons [OF 4(1)] 4(8) by simp
next
  case (5 uc st lvl c uc0)
  then show ?case using json_skip_space_Cons [of uc] by simp
next
  case (6 uc st lvl c uc0 rv y u s d u2)
  then have "json_parse (c # uc0) st (Suc lvl) = (rv, 0x2c # u2, s)" by simp
  with json_parse_dom_le(1) [OF 6(9)] json_skip_space_Cons [OF 6(2)] show ?case by simp
next
  case (7 uc st lvl c uc0 rv uc1 d uc2)
  then show ?case using json_skip_space_Cons [of uc] json_skip_space_Cons [of uc1] json_scalars_le(1) [OF 7(5) [symmetric]] by simp
next
  case (8 uc st lvl c uc0 rv uc1 d uc2 rv' y u s e u2)
  then have "json_parse uc2 st (Suc lvl) = (rv', 0x2c # u2, s)" by simp
  with json_parse_dom_le(1) [OF 8(14)] json_skip_space_Cons [OF 8(2)] json_skip_space_Cons [OF 8(7)]
    json_scalars_le(1) [OF 8(5) [symmetric]]
  show ?case by simp
qed simp

declare json_parse.simps [simp del] json_parse_array.simps [simp del] json_parse_object.simps [simp del]

subsection \<open>Documents\<close>

datatype jchar = Plain u8 | Esc u8 | Uni u8 u8 u8 u8

datatype json =
    JStr "jchar list"
  | JNum bool "u8 list" "u8 list" "(u8 list \<times> u8 list) option"
  | JTrue | JFalse | JNull
  | JArr "json list"
  | JObj "(jchar list \<times> json) list"

fun jchar_ok :: "jchar \<Rightarrow> bool" where
  "jchar_ok (Plain c) \<longleftrightarrow> c \<notin> {0, 0x22, 0x5c}"
| "jchar_ok (Esc c) \<longleftrightarrow> c \<in> {0x22, 0x5c, 0x2f, 0x62, 0x66, 0x6e, 0x72, 0x74}"
| "jchar_ok (Uni a b c d) \<longleftrightarrow> json_isxdigit a \<and> json_isxdigit b \<and> json_isxdigit c \<and> json_isxdigit d"

fun render_jchar :: "jchar \<Rightarrow> u8 list" where
  "render_jchar (Plain c) = [c]"
| "render_jchar (Esc c) = [0x5c, c]"
| "render_jchar (Uni a b c d) = [0x5c, 0x75, a, b, c, d]"

definition render_str :: "jchar list \<Rightarrow> u8 list" where
  "render_str cs = 0x22 # concat (map render_jchar cs) @ [0x22]"

definition render_num :: "bool \<Rightarrow> u8 list \<Rightarrow> u8 list \<Rightarrow> (u8 list \<times> u8 list) option \<Rightarrow> u8 list" where
  "render_num neg ds fs ex =
     (if neg then [0x2d] else []) @ ds @ (if fs = [] then [] else 0x2e # fs) @
     (case ex of None \<Rightarrow> [] | Some (sg, es) \<Rightarrow> 0x65 # sg @ es)"

text \<open>A document laid out with the whitespace \<open>w\<close> around every token.\<close>

fun render :: "u8 list \<Rightarrow> json \<Rightarrow> u8 list"
  and render_elems :: "u8 list \<Rightarrow> json list \<Rightarrow> u8 list"
  and render_members :: "u8 list \<Rightarrow> (jchar list \<times> json) list \<Rightarrow> u8 list" where
  "render w (JStr cs) = w @ render_str cs @ w"
| "render w (JNum neg ds fs ex) = w @ render_num neg ds fs ex @ w"
| "render w JTrue = w @ [0x74, 0x72, 0x75, 0x65] @ w"
| "render w JFalse = w @ [0x66, 0x61, 0x6c, 0x73, 0x65] @ w"
| "render w JNull = w @ [0x6e, 0x75, 0x6c, 0x6c] @ w"
| "render w (JArr vs) = w @ 0x5b # render_elems w vs @ 0x5d # w"
| "render w (JObj ms) = w @ 0x7b # render_members w ms @ 0x7d # w"
| "render_elems w [] = w"
| "render_elems w (v # vs) = render w v @ (if vs = [] then [] else 0x2c # render_elems w vs)"
| "render_members w [] = w"
| "render_members w ((k, v) # ms) =
     w @ render_str k @ w @ 0x3a # render w v @ (if ms = [] then [] else 0x2c # render_members w ms)"

fun json_ok :: "json \<Rightarrow> bool" and elems_ok :: "json list \<Rightarrow> bool"
  and members_ok :: "(jchar list \<times> json) list \<Rightarrow> bool" where
  "json_ok (JStr cs) \<longleftrightarrow> list_all jchar_ok cs"
| "json_ok (JNum neg ds fs ex) \<longleftrightarrow> ds \<noteq> [] \<and> list_all json_isdigit ds \<and> list_all json_isdigit fs \<and>
     (case ex of None \<Rightarrow> True
      | Some (sg, es) \<Rightarrow> (sg = [] \<or> sg = [0x2b] \<or> sg = [0x2d]) \<and> es \<noteq> [] \<and> list_all json_isdigit es)"
| "json_ok JTrue \<longleftrightarrow> True"
| "json_ok JFalse \<longleftrightarrow> True"
| "json_ok JNull \<longleftrightarrow> True"
| "json_ok (JArr vs) \<longleftrightarrow> elems_ok vs"
| "json_ok (JObj ms) \<longleftrightarrow> members_ok ms"
| "elems_ok [] \<longleftrightarrow> True"
| "elems_ok (v # vs) \<longleftrightarrow> json_ok v \<and> elems_ok vs"
| "members_ok [] \<longleftrightarrow> True"
| "members_ok ((k, v) # ms) \<longleftrightarrow> list_all jchar_ok k \<and> json_ok v \<and> members_ok ms"

fun depth :: "json \<Rightarrow> nat" and elems_depth :: "json list \<Rightarrow> nat"
  and members_depth :: "(jchar list \<times> json) list \<Rightarrow> nat" where
  "depth (JArr vs) = Suc (elems_depth vs)"
| "depth (JObj ms) = Suc (members_depth ms)"
| "depth _ = 0"
| "elems_depth [] = 0"
| "elems_depth (v # vs) = max (depth v) (elems_depth vs)"
| "members_depth [] = 0"
| "members_depth ((k, v) # ms) = max (depth v) (members_depth ms)"

fun container :: "json \<Rightarrow> bool" where
  "container (JArr vs) = True"
| "container (JObj ms) = True"
| "container _ = False"

subsection \<open>Tokens\<close>

lemma json_skip_space_append [simp]:
  "list_all json_isspace w \<Longrightarrow> json_skip_space (w @ uc) = json_skip_space uc"
  by (simp add: json_skip_space_def list_all_iff dropWhile_append2)

lemma json_skip_space_Nil [simp]: "json_skip_space [] = []"
  by (simp add: json_skip_space_def)

lemma json_skip_space_nonspace [simp]: "\<not> json_isspace c \<Longrightarrow> json_skip_space (c # uc) = c # uc"
  by (simp add: json_skip_space_def)

lemma json_skip_space_all [simp]: "list_all json_isspace w \<Longrightarrow> json_skip_space w = []"
  using json_skip_space_append [of w "[]"] by simp

lemma json_xdigits4:
  assumes "json_isxdigit a" "json_isxdigit b" "json_isxdigit c" "json_isxdigit d"
  shows "json_xdigits 4 (a # b # c # d # uc) = (True, uc)"
proof -
  have "json_xdigits (Suc (Suc (Suc (Suc 0)))) (a # b # c # d # uc) = (True, uc)" using assms by simp
  moreover have "(4::nat) = Suc (Suc (Suc (Suc 0)))" by simp
  ultimately show ?thesis by (simp only:)
qed

lemma json_string_step:
  assumes "jchar_ok c"
  shows "json_parse_string (render_jchar c @ uc) = json_parse_string uc"
proof (cases c)
  case (Esc d)
  with assms have "json_escape (d # uc) = (True, uc)" by (auto simp: json_escape_def)
  then show ?thesis by (simp add: Esc Let_def)
next
  case (Uni a b d e)
  with assms have "json_escape (0x75 # a # b # d # e # uc) = (True, uc)"
    by (simp add: json_escape_def json_xdigits4)
  then show ?thesis by (simp add: Uni Let_def)
qed (use assms in simp)

lemma json_string_chars:
  assumes "list_all jchar_ok cs"
  shows "json_parse_string (concat (map render_jchar cs) @ 0x22 # rest) = (1, rest)"
  using assms
proof (induction cs)
  case (Cons c cs)
  then show ?case by (simp add: json_string_step del: json_parse_string.simps)
qed simp

text \<open>A value ends where the text ends or a delimiter follows.\<close>

definition ends_value :: "u8 list \<Rightarrow> bool" where
  "ends_value rest \<longleftrightarrow> rest = [] \<or> json_isspace (hd rest) \<or> hd rest \<in> {0x2c, 0x5d, 0x7d}"

lemma ends_value_hd:
  "ends_value (c # rest) \<Longrightarrow> \<not> json_isdigit c \<and> c \<noteq> 0x2e \<and> c \<noteq> 0x65 \<and> c \<noteq> 0x45"
  by (auto simp: ends_value_def json_isspace_def json_isdigit_def)

lemma json_digits_append:
  "list_all json_isdigit ds \<Longrightarrow> json_digits got (ds @ uc) = json_digits (got \<or> ds \<noteq> []) uc"
  by (induction ds arbitrary: got) auto

lemma json_digits_stop: "uc = [] \<or> \<not> json_isdigit (hd uc) \<Longrightarrow> json_digits got uc = (got, uc)"
  by (cases uc) auto


lemma json_number_token:
  assumes "json_ok (JNum neg ds fs ex)" and "ends_value rest"
  shows "json_parse_number (render_num neg ds fs ex @ rest) = (1, rest)"
proof -
  let ?exp = "case ex of None \<Rightarrow> [] | Some (sg, es) \<Rightarrow> 0x65 # sg @ es"
  let ?frac = "if fs = [] then [] else 0x2e # fs"
  have ds: "ds \<noteq> []" "list_all json_isdigit ds" and fs: "list_all json_isdigit fs" using assms(1) by auto
  have stop: "rest = [] \<or> \<not> json_isdigit (hd rest)" "hd rest \<noteq> 0x2e \<or> rest = []" "hd rest \<noteq> 0x65 \<or> rest = []" "hd rest \<noteq> 0x45 \<or> rest = []"
    using assms(2) ends_value_hd by (cases rest; auto)+
  have "hd ds \<noteq> 0x2d" using ds by (cases ds) (auto simp: json_isdigit_def)
  then have 0: "skip_if [0x2d] (render_num neg ds fs ex @ rest) = ds @ ?frac @ ?exp @ rest"
    using ds by (cases ds) (auto simp: render_num_def)
  have 1: "json_digits False (ds @ ?frac @ ?exp @ rest) = (True, ?frac @ ?exp @ rest)"
    using ds stop by (subst json_digits_append) (auto intro!: json_digits_stop simp: json_isdigit_def split: option.split)
  have sk: "skip_if [0x2e] (?frac @ ?exp @ rest) = fs @ ?exp @ rest" 
    using stop by (cases rest) (auto split: option.split)
  have 2: "json_digits True (fs @ ?exp @ rest) = (True, ?exp @ rest)"
    using fs stop by (subst json_digits_append) (auto intro!: json_digits_stop simp: json_isdigit_def split: option.split)
  have ne: "render_num neg ds fs ex @ rest \<noteq> []" using ds by (simp add: render_num_def)
  show ?thesis
  proof (cases ex)
    case None
    then show ?thesis using 0 1 sk 2 ne stop by (auto simp: json_parse_number_def Let_def)
  next
    case (Some p)
    obtain sg es where p: "p = (sg, es)" by fastforce
    have es: "es \<noteq> []" "list_all json_isdigit es" "sg = [] \<or> sg = [0x2b] \<or> sg = [0x2d]" using assms(1) Some p by auto
    then have 3: "skip_if [0x2b, 0x2d] (sg @ es @ rest) = es @ rest" by (cases es) (auto simp: json_isdigit_def)
    have 4: "json_digits False (es @ rest) = (True, rest)"
      using es stop(1) by (subst json_digits_append) (auto intro!: json_digits_stop)
    show ?thesis using 0 1 sk 2 3 4 ne Some p es(1) by (simp add: json_parse_number_def Let_def)
  qed
qed


subsection \<open>Values at an inner level\<close>

lemma json_parse_scalar_val:
  assumes "json_skip_space ucp = c # uc" and "lvl \<noteq> 0" and "lvl \<le> 500" and "c \<noteq> 0x5b" and "c \<noteq> 0x7b"
    and "json_scalar c uc = (rv, t, u)" and "rv \<noteq> 0"
  shows "json_parse ucp st lvl = (rv, json_skip_space u, bump t st)"
  using assms by (subst json_parse.simps) (simp add: Let_def)

lemma json_parse_array_val:
  assumes "json_skip_space ucp = 0x5b # uc" and "lvl \<le> 500"
    and "json_parse_array uc st (Suc lvl) = (1, u, s)"
  shows "lvl \<noteq> 0 \<Longrightarrow> json_parse ucp st lvl = (1, json_skip_space u, bump JSON_ARRAY s)"
    and "lvl = 0 \<Longrightarrow> json_skip_space u = [] \<Longrightarrow> json_parse ucp st lvl = (json_tail (bump JSON_ARRAY s) 1, [], bump JSON_ARRAY s)"
  using assms by (subst json_parse.simps, simp add: Let_def)+

lemma json_parse_object_val:
  assumes "json_skip_space ucp = 0x7b # uc" and "lvl \<le> 500"
    and "json_parse_object uc st (Suc lvl) = (1, u, s)"
  shows "lvl \<noteq> 0 \<Longrightarrow> json_parse ucp st lvl = (1, json_skip_space u, bump JSON_OBJECT s)"
    and "lvl = 0 \<Longrightarrow> json_skip_space u = [] \<Longrightarrow> json_parse ucp st lvl = (json_tail (bump JSON_OBJECT s) 1, [], bump JSON_OBJECT s)"
  using assms by (subst json_parse.simps, simp add: Let_def)+

text \<open>The counters only grow, and keep their number.\<close>

definition counted :: "nat list \<Rightarrow> nat list \<Rightarrow> bool" where
  "counted st st' \<longleftrightarrow> length st' = length st \<and> (\<forall>i < length st. st ! i \<le> st' ! i)"

lemma counted_refl [simp]: "counted st st"
  by (simp add: counted_def)

lemma counted_trans: "counted a b \<Longrightarrow> counted b c \<Longrightarrow> counted a c"
  by (auto simp: counted_def intro: le_trans)

lemma counted_bump: "counted a b \<Longrightarrow> counted a (bump t b)"
proof -
  have "b ! i \<le> bump t b ! i" if "i < length b" for i
    using that by (cases "t = i") (simp_all add: bump_def)
  then show "counted a b \<Longrightarrow> counted a (bump t b)"
    by (auto simp: counted_def bump_def intro: le_trans)
qed

lemma bump_grows: "t < length st \<Longrightarrow> bump t st ! t \<noteq> 0"
  by (simp add: bump_def)


lemma bracket_not_space [simp]:
  "\<not> json_isspace 0x5b" "\<not> json_isspace 0x5d" "\<not> json_isspace 0x7b" "\<not> json_isspace 0x7d" "\<not> json_isspace 0x2c"
  "\<not> json_isspace 0x3a" "\<not> json_isspace 0x22" "\<not> json_isspace 0x74" "\<not> json_isspace 0x66" "\<not> json_isspace 0x6e" "\<not> json_isspace 0x2d"
  by (simp_all add: json_isspace_def)

lemma render_scalar:
  assumes "list_all json_isspace w" and "json_ok v" and "\<not> container v" and "ends_value rest"
  shows "\<exists>c uc t. json_skip_space (render w v @ rest) = c # uc \<and> c \<noteq> 0x5b \<and> c \<noteq> 0x7b \<and>
    json_scalar c uc = (1, t, w @ rest)"
proof -
  have wr: "ends_value (w @ rest)" using assms(1,4) by (cases w) (auto simp: ends_value_def)
  show ?thesis
  proof (cases v)
    case (JStr cs)
    then show ?thesis using assms(1,2) json_string_chars [of cs "w @ rest"]
      by (simp add: render_str_def json_scalar_def)
  next
    case (JNum neg ds fs ex)
    note tok = json_number_token [OF assms(2) [unfolded JNum] wr]
    obtain c uc where cu: "render_num neg ds fs ex @ w @ rest = c # uc" "c = 0x2d \<or> json_isdigit c"
      using assms(2) JNum by (cases ds; cases neg) (auto simp: render_num_def)
    then have "\<not> json_isspace c" "c \<notin> {0x5b, 0x7b, 0x22, 0x74, 0x66, 0x6e}" by (auto simp: json_isspace_def json_isdigit_def)
    then show ?thesis using tok assms(1) JNum cu(1) by (simp add: json_scalar_def)
  qed (use assms in \<open>auto simp: json_scalar_def json_parse_const_def\<close>)
qed

lemma json_parse_skip: "lvl \<le> 500 \<Longrightarrow> json_parse (json_skip_space u) st lvl = json_parse u st lvl"
proof -
  have "json_skip_space (json_skip_space u) = json_skip_space u"
    unfolding json_skip_space_def by (rule dropWhile_idem)
  then show "lvl \<le> 500 \<Longrightarrow> json_parse (json_skip_space u) st lvl = json_parse u st lvl"
    by (subst (1 2) json_parse.simps) (simp split: list.split)
qed

lemma array_item:
  assumes "json_skip_space uc = c # uc0" "c \<noteq> 0x5d" "uc \<noteq> []"
    and "json_parse uc st (Suc lvl) = (1, d # uc2, st1)"
  shows "d = 0x2c \<Longrightarrow> json_parse_array uc st lvl = json_parse_array uc2 st1 lvl"
   and "d = 0x5d \<Longrightarrow> json_parse_array uc st lvl = (1, uc2, bump JSON_ARRAYN st1)"
proof -
  have "json_skip_space (c # uc0) = c # uc0"
    using assms(1) unfolding json_skip_space_def by (metis dropWhile_idem)
  then have "json_parse (c # uc0) st (Suc lvl) = json_parse uc st (Suc lvl) \<or> Suc lvl > 500"
    using assms(1) by (subst (1 2) json_parse.simps) simp
  then have "json_parse (c # uc0) st (Suc lvl) = (1, d # uc2, st1)"
    using assms(1,4) by (auto simp: json_parse.simps [of uc])
  then show "d = 0x2c \<Longrightarrow> json_parse_array uc st lvl = json_parse_array uc2 st1 lvl"
   "d = 0x5d \<Longrightarrow> json_parse_array uc st lvl = (1, uc2, bump JSON_ARRAYN st1)"
    using assms by (subst json_parse_array.simps, simp)+
qed

lemma object_item:
  assumes "json_skip_space uc = 0x22 # uc0" "uc \<noteq> []" "json_parse_string uc0 = (1, uc1)" "json_skip_space uc1 = 0x3a # uc2"
    and "json_parse uc2 st (Suc lvl) = (1, d # uc3, st1)"
  shows "d = 0x2c \<Longrightarrow> json_parse_object uc st lvl = json_parse_object uc3 st1 lvl"
   and "d = 0x7d \<Longrightarrow> json_parse_object uc st lvl = (1, uc3, st1)"
  using assms by (subst json_parse_object.simps, simp)+


lemma render_first:
  assumes "list_all json_isspace w" and "json_ok v"
  shows "\<exists>c uc. json_skip_space (render w v @ rest) = c # uc \<and> c \<noteq> 0x5d \<and> render w v @ rest \<noteq> []"
proof (cases v)
  case (JNum neg ds fs ex)
  obtain c uc where cu: "render_num neg ds fs ex @ w @ rest = c # uc" "c = 0x2d \<or> json_isdigit c"
    using assms(2) JNum by (cases ds; cases neg) (auto simp: render_num_def)
  moreover from this(2) have "\<not> json_isspace c" "c \<noteq> 0x5d" by (auto simp: json_isspace_def json_isdigit_def)
  ultimately show ?thesis using assms(1) JNum by auto
qed (use assms in \<open>auto simp: render_str_def\<close>)

lemma scalar_parse:
  assumes "list_all json_isspace w" and "json_ok v" and "\<not> container v" and "ends_value rest" and "lvl \<noteq> 0" and "lvl \<le> 500"
  shows "\<exists>st'. json_parse (render w v @ rest) st lvl = (1, json_skip_space rest, st') \<and> counted st st'"
proof -
  obtain c uc t where "json_skip_space (render w v @ rest) = c # uc" "c \<noteq> 0x5b" "c \<noteq> 0x7b"
    "json_scalar c uc = (1, t, w @ rest)"
    using render_scalar [OF assms(1-4)] by blast
  from json_parse_scalar_val [OF this(1) assms(5,6) this(2-4)] assms(1) counted_bump [OF counted_refl]
  show ?thesis by auto
qed

lemma elems_step:
  assumes w: "list_all json_isspace w" and ok: "json_ok v" "elems_ok vs"
    and P: "\<And>rest st. container v \<or> ends_value rest \<Longrightarrow>
      \<exists>st'. json_parse (render w v @ rest) st (Suc lvl) = (1, json_skip_space rest, st') \<and> counted st st'"
    and Q: "\<And>st. vs \<noteq> [] \<Longrightarrow> \<exists>st'. json_parse_array (render_elems w vs @ 0x5d # rest) st lvl = (1, rest, bump JSON_ARRAYN st') \<and> counted st st'"
  shows "\<exists>st'. json_parse_array (render_elems w (v # vs) @ 0x5d # rest) st lvl = (1, rest, bump JSON_ARRAYN st') \<and> counted st st'"
proof (cases "vs = []")
  case True
  obtain st' where p: "json_parse (render w v @ 0x5d # rest) st (Suc lvl) = (1, 0x5d # rest, st')" "counted st st'"
    using P [of "0x5d # rest" st] by (auto simp: ends_value_def)
  obtain c uc0 where "json_skip_space (render w v @ 0x5d # rest) = c # uc0" "c \<noteq> 0x5d" "render w v @ 0x5d # rest \<noteq> []"
    using render_first [OF w ok(1)] by blast
  from array_item(2) [OF this p(1)] p(2) True show ?thesis by auto
next
  case False
  let ?r = "render_elems w vs @ 0x5d # rest"
  obtain st1 where p: "json_parse (render w v @ 0x2c # ?r) st (Suc lvl) = (1, 0x2c # ?r, st1)" "counted st st1"
    using P [of "0x2c # ?r" st] by (auto simp: ends_value_def)
  obtain c uc0 where "json_skip_space (render w v @ 0x2c # ?r) = c # uc0" "c \<noteq> 0x5d" "render w v @ 0x2c # ?r \<noteq> []"
    using render_first [OF w ok(1)] by blast
  from array_item(1) [OF this p(1)] False have
    "json_parse_array (render_elems w (v # vs) @ 0x5d # rest) st lvl = json_parse_array ?r st1 lvl" by simp
  with Q [OF False, of st1] p(2) counted_trans show ?thesis by metis
qed

lemma members_step:
  assumes w: "list_all json_isspace w" and k: "list_all jchar_ok k" and ok: "json_ok v" "members_ok ms"
    and P: "\<And>rest st. container v \<or> ends_value rest \<Longrightarrow>
      \<exists>st'. json_parse (render w v @ rest) st (Suc lvl) = (1, json_skip_space rest, st') \<and> counted st st'"
    and Q: "\<And>st. ms \<noteq> [] \<Longrightarrow> \<exists>st'. json_parse_object (render_members w ms @ 0x7d # rest) st lvl = (1, rest, st') \<and> counted st st'"
  shows "\<exists>st'. json_parse_object (render_members w ((k, v) # ms) @ 0x7d # rest) st lvl = (1, rest, st') \<and> counted st st'"
proof -
  have key: "json_skip_space (w @ render_str k @ u) = 0x22 # concat (map render_jchar k) @ 0x22 # u" for u
    using w by (simp add: render_str_def)
  note str = json_string_chars [OF k]
  show ?thesis
  proof (cases "ms = []")
    case True
    obtain st' where p: "json_parse (render w v @ 0x7d # rest) st (Suc lvl) = (1, 0x7d # rest, st')" "counted st st'"
      using P [of "0x7d # rest" st] by (auto simp: ends_value_def)
    from object_item(2) [OF key _ str [of "w @ 0x3a # render w v @ 0x7d # rest"] _ p(1)] p(2) True w
    show ?thesis by (auto simp: render_str_def)
  next
    case False
    let ?r = "render_members w ms @ 0x7d # rest"
    obtain st1 where p: "json_parse (render w v @ 0x2c # ?r) st (Suc lvl) = (1, 0x2c # ?r, st1)" "counted st st1"
      using P [of "0x2c # ?r" st] by (auto simp: ends_value_def)
    from object_item(1) [OF key _ str [of "w @ 0x3a # render w v @ 0x2c # ?r"] _ p(1)] False w have
      "json_parse_object (render_members w ((k, v) # ms) @ 0x7d # rest) st lvl = json_parse_object ?r st1 lvl"
      by (simp add: render_str_def)
    with Q [OF False, of st1] p(2) counted_trans show ?thesis by metis
  qed
qed

lemma render_parse:
  "list_all json_isspace w \<Longrightarrow> json_ok v \<Longrightarrow> container v \<or> ends_value rest \<Longrightarrow> lvl \<noteq> 0 \<Longrightarrow> lvl + 2 * depth v \<le> 500 \<Longrightarrow>
    \<exists>st'. json_parse (render w v @ rest) st lvl = (1, json_skip_space rest, st') \<and> counted st st'"
  "list_all json_isspace w \<Longrightarrow> elems_ok vs \<Longrightarrow> Suc lvl + 2 * elems_depth vs \<le> 500 \<Longrightarrow>
    \<exists>st'. json_parse_array (render_elems w vs @ 0x5d # rest) st lvl = (1, rest, bump JSON_ARRAYN st') \<and> counted st st'"
  "list_all json_isspace w \<Longrightarrow> members_ok ms \<Longrightarrow> Suc lvl + 2 * members_depth ms \<le> 500 \<Longrightarrow>
    \<exists>st'. json_parse_object (render_members w ms @ 0x7d # rest) st lvl = (1, rest, st') \<and> counted st st'"
proof (induction w v and w vs and w ms arbitrary: rest lvl st and rest lvl st and rest lvl st
    rule: render_render_elems_render_members.induct)
  case (6 w vs)
  have lv: "lvl \<le> 500" "Suc (Suc lvl) + 2 * elems_depth vs \<le> 500" using 6 by simp_all
  from 6(1) [OF 6(2) _ lv(2)] 6(3) obtain st' where
    "json_parse_array (render_elems w vs @ 0x5d # w @ rest) st (Suc lvl) = (1, w @ rest, bump JSON_ARRAYN st')" "counted st st'"
    by (metis json_ok.simps(6))
  from json_parse_array_val(1) [OF _ lv(1) this(1), of "render w (JArr vs) @ rest"] this(2) 6(2,5) show ?case
    by (simp add: counted_bump)
next
  case (7 w ms)
  have lv: "lvl \<le> 500" "Suc (Suc lvl) + 2 * members_depth ms \<le> 500" using 7 by simp_all
  from 7(1) [OF 7(2) _ lv(2)] 7(3) obtain st' where
    "json_parse_object (render_members w ms @ 0x7d # w @ rest) st (Suc lvl) = (1, w @ rest, st')" "counted st st'"
    by (metis json_ok.simps(7))
  from json_parse_object_val(1) [OF _ lv(1) this(1), of "render w (JObj ms) @ rest"] this(2) 7(2,5) show ?case
    by (simp add: counted_bump)
next
  case (8 w)
  then show ?case
    by (intro exI [where x = st]) (subst json_parse_array.simps, simp)
next
  case (9 w v vs)
  have ok: "json_ok v" "elems_ok vs" using 9(4) by simp_all
  have lv: "Suc lvl + 2 * depth v \<le> 500" "Suc lvl + 2 * elems_depth vs \<le> 500" using 9(5) by simp_all
  show ?case
    by (rule elems_step [OF 9(3) ok 9(1) [OF 9(3) ok(1) _ _ lv(1)] 9(2) [OF _ 9(3) ok(2) lv(2)]]) simp_all
next
  case (10 w)
  then show ?case
    by (intro exI [where x = st]) (subst json_parse_object.simps, simp)
next
  case (11 w k v ms)
  have ok: "json_ok v" "members_ok ms" "list_all jchar_ok k" using 11(4) by simp_all
  have lv: "Suc lvl + 2 * depth v \<le> 500" "Suc lvl + 2 * members_depth ms \<le> 500" using 11(5) by simp_all
  show ?case
    by (rule members_step [OF 11(3) ok(3) ok(1,2) 11(1) [OF 11(3) ok(1) _ _ lv(1)] 11(2) [OF _ 11(3) ok(2) lv(2)]]) simp_all
next
  case (1 w cs)
  then show ?case by (intro scalar_parse) simp_all
next
  case (2 w neg ds fs ex)
  then show ?case by (intro scalar_parse) simp_all
next
  case (3 w)
  then show ?case by (intro scalar_parse) simp_all
next
  case (4 w)
  then show ?case by (intro scalar_parse) simp_all
next
  case (5 w)
  then show ?case by (intro scalar_parse) simp_all
qed


subsection \<open>Properties of the recogniser\<close>

definition opener :: "json \<Rightarrow> u8" where
  "opener v = (case v of JArr _ \<Rightarrow> 0x5b | _ \<Rightarrow> 0x7b)"

lemma counted_tail: "length st = JSON_MAX \<Longrightarrow> counted st st' \<Longrightarrow> json_tail st n = n \<Longrightarrow> json_tail st' n = n"
proof -
  assume st: "length st = JSON_MAX" "counted st st'" "json_tail st n = n"
  have "st ! JSON_ARRAYN \<le> st' ! JSON_ARRAYN" "st ! JSON_OBJECT \<le> st' ! JSON_OBJECT"
    using st(1,2) by (simp_all add: counted_def json_counters)
  with st(3) show ?thesis by (auto simp: json_tail_def split: if_splits)
qed

lemma bump_tail: "length st = JSON_MAX \<Longrightarrow> json_tail (bump JSON_OBJECT st) n = n"
  "length st = JSON_MAX \<Longrightarrow> json_tail (bump JSON_ARRAYN st) n = n"
  by (simp_all add: json_tail_def bump_def json_counters)

text \<open>What the outermost level does after a container: the end of the text, or a second value.\<close>

definition json_top :: "u8 \<Rightarrow> nat list \<Rightarrow> u8 list \<Rightarrow> nat" where
  "json_top c s rest = (case json_skip_space rest of [] \<Rightarrow> json_tail s 1
     | c' # _ \<Rightarrow> if c = c' then (case json_parse (json_skip_space rest) s 1 of (rv2, _, st2) \<Rightarrow> if rv2 \<noteq> 0 then json_tail st2 2 else 0) else 0)"

lemma json_parse_array_top:
  assumes "json_skip_space ucp = 0x5b # uc" and "json_parse_array uc st 1 = (1, u, s)"
  shows "fst (json_parse ucp st 0) = json_top 0x5b (bump JSON_ARRAY s) u"
  using assms by (subst json_parse.simps) (simp add: Let_def json_top_def split: list.split prod.split)

lemma json_parse_object_top:
  assumes "json_skip_space ucp = 0x7b # uc" and "json_parse_object uc st 1 = (1, u, s)"
  shows "fst (json_parse ucp st 0) = json_top 0x7b (bump JSON_OBJECT s) u"
  using assms by (subst json_parse.simps) (simp add: Let_def json_top_def split: list.split prod.split)

lemma json_top_space:
  assumes "list_all json_isspace w"
  shows "json_top c s (w @ rest) = json_top c s rest"
  unfolding json_top_def json_skip_space_append [OF assms] ..

lemma container_top:
  assumes "list_all json_isspace w" and "container v" and "json_ok v" and "depth v \<le> 250" and "length st = JSON_MAX"
  shows "\<exists>s. fst (json_parse (render w v @ rest) st 0) = json_top (opener v) s rest \<and>
    length s = JSON_MAX \<and> (\<forall>n. json_tail s n = n)"
proof (cases v)
  case (JArr vs)
  have "\<exists>st'. json_parse_array (render_elems w vs @ 0x5d # w @ rest) st 1 = (1, w @ rest, bump JSON_ARRAYN st') \<and> counted st st'"
    by (rule render_parse) (use assms JArr in auto)
  then obtain st' where p: "json_parse_array (render_elems w vs @ 0x5d # w @ rest) st 1 = (1, w @ rest, bump JSON_ARRAYN st')"
    "counted st st'" by blast
  then have len: "length (bump JSON_ARRAYN st') = JSON_MAX" using assms(5) by (simp add: counted_def bump_def)
  have "json_tail (bump JSON_ARRAY (bump JSON_ARRAYN st')) n = n" for n
    by (rule counted_tail [OF len counted_bump [OF counted_refl] bump_tail(2)]) (use len in \<open>simp add: bump_def\<close>)
  with json_parse_array_top [OF _ p(1), of "render w v @ rest"] len show ?thesis
    using JArr assms(1)
    by (intro exI [where x = "bump JSON_ARRAY (bump JSON_ARRAYN st')"]) (simp add: json_top_space opener_def bump_def)
next
  case (JObj ms)
  have "\<exists>st'. json_parse_object (render_members w ms @ 0x7d # w @ rest) st 1 = (1, w @ rest, st') \<and> counted st st'"
    by (rule render_parse) (use assms JObj in auto)
  then obtain st' where p: "json_parse_object (render_members w ms @ 0x7d # w @ rest) st 1 = (1, w @ rest, st')"
    "counted st st'" by blast
  then have len: "length st' = JSON_MAX" using assms(5) by (simp add: counted_def)
  from json_parse_object_top [OF _ p(1), of "render w v @ rest"] len show ?thesis
    using JObj assms(1) bump_tail(1) [OF len]
    by (intro exI [where x = "bump JSON_OBJECT st'"]) (simp add: json_top_space opener_def bump_def)
qed (use assms in simp_all)



text \<open>New-line delimited JSON.  Two documents of the same kind, one after the other, are recognised as
  such, whatever follows them.\<close>

theorem json_lines_complete:
  assumes "json_ok v1" and "json_ok v2" and "container v1" and "container v2" and "opener v1 = opener v2"
    and "depth v1 \<le> 250" and "depth v2 \<le> 249" and "list_all json_isspace w"
  shows "fst (json_parse (render w v1 @ render w v2 @ more) (replicate JSON_MAX 0) 0) = 2"
proof -
  from container_top [OF assms(8,3,1,6), of "replicate JSON_MAX 0" "render w v2 @ more"] obtain s where
    s: "fst (json_parse (render w v1 @ render w v2 @ more) (replicate JSON_MAX 0) 0) = json_top (opener v1) s (render w v2 @ more)"
      "length s = JSON_MAX" "\<forall>n. json_tail s n = n" by auto
  from render_parse(1) [OF assms(8,2), of more 1 s] assms obtain st' where
    p: "json_parse (render w v2 @ more) s 1 = (1, json_skip_space more, st')" "counted s st'" by auto
  have "\<exists>uc. json_skip_space (render w v2 @ more) = opener v2 # uc"
    using assms(4,8) by (cases v2) (auto simp: opener_def)
  with s p counted_tail [OF s(2) p(2)] json_parse_skip [of 1 "render w v2 @ more" s]
  show ?thesis by (auto simp: json_top_def assms(5))
qed

theorem json_lines_complete_witness:
  "fst (json_parse (render [] (JArr [JNull]) @ render [] (JArr [JFalse]) @ [0x21]) (replicate JSON_MAX 0) 0) = 2"
  by (rule json_lines_complete) (simp_all add: opener_def)


text \<open>C36.  The nesting limit.  A text that opens more than 251 arrays in a row is rejected, so the recursion
  is bounded whatever the input.\<close>

lemma json_deep:
  assumes "0 < n" and "500 < lvl + 2 * (n - 1)"
  shows "fst (json_parse (replicate n 0x5b @ rest) st lvl) = 0"
  using assms
proof (induction n arbitrary: lvl st)
  case (Suc n)
  show ?case
  proof (cases "500 < lvl")
    case True
    then show ?thesis by (subst json_parse.simps) simp
  next
    case False
    with Suc.prems have n: "0 < n" "500 < Suc (Suc lvl) + 2 * (n - 1)" by auto
    then obtain m where m: "n = Suc m" by (cases n) auto
    have "fst (json_parse_array (replicate n 0x5b @ rest) st (Suc lvl)) = 0"
      using Suc.IH [OF n, of st] unfolding m by (subst json_parse_array.simps) (auto split: prod.split)
    then show ?thesis using False
      by (subst json_parse.simps) (auto simp: Let_def split: prod.split)
  qed
qed simp

theorem json_depth_limit:
  assumes "251 < n"
  shows "fst (json_parse (replicate n 0x5b @ rest) st 0) = 0"
  by (rule json_deep) (use assms in auto)

theorem json_depth_limit_witness: "fst (json_parse (replicate 252 0x5b @ [0x5d]) [0, 0, 0, 0, 0, 0] 0) = 0"
  by (rule json_depth_limit) simp

text \<open>Only containers count: whatever is accepted begins, after whitespace, with a bracket or a brace, so a
  bare string, number or constant is never reported as JSON.\<close>

lemma json_scalar_counter: "json_scalar c uc = (rv, t, u) \<Longrightarrow> t \<in> {JSON_STRING, JSON_CONSTANT, JSON_NUMBER}"
  by (auto simp: json_scalar_def split: if_splits prod.splits)

lemma json_parse_scalar_counts:
  assumes "json_skip_space ucp = c # uc" and "c \<noteq> 0x5b" and "c \<noteq> 0x7b" and "lvl \<noteq> 0"
  shows "json_tail (snd (snd (json_parse ucp st lvl))) n = json_tail st n"
proof -
  obtain rv t u where s: "json_scalar c uc = (rv, t, u)" by (metis prod.collapse)
  then show ?thesis using assms json_scalar_counter [OF s]
    by (subst json_parse.simps) (auto simp: Let_def json_tail_def bump_def json_counters)
qed

theorem json_needs_container:
  assumes "fst (json_parse buf (replicate JSON_MAX 0) 0) \<noteq> 0"
  shows "\<exists>c uc. json_skip_space buf = c # uc \<and> c \<in> {0x5b, 0x7b}"
proof (rule ccontr)
  assume no: "\<nexists>c uc. json_skip_space buf = c # uc \<and> c \<in> {0x5b, 0x7b}"
  show False
  proof (cases "json_skip_space buf")
    case Nil
    with assms show False by (subst (asm) json_parse.simps) simp
  next
    case (Cons c uc)
    with no have c: "c \<noteq> 0x5b" "c \<noteq> 0x7b" by auto
    obtain rv t u where s: "json_scalar c uc = (rv, t, u)" by (metis prod.collapse)
    let ?st = "bump t (replicate JSON_MAX 0)"
    have t0: "json_tail ?st n = 0" for n
      using json_scalar_counter [OF s] by (auto simp: json_tail_def bump_def json_counters)
    have "json_tail (snd (snd (json_parse (json_skip_space u) ?st 1))) n = 0"
      if "json_skip_space u = c # uc'" for uc' n
      using json_parse_scalar_counts [of "json_skip_space u" c uc' 1 ?st n] that c t0
        json_skip_space_nonspace [of c uc'] hd_dropWhile [of json_isspace u]
      by (auto simp: json_skip_space_def)
    then show False using assms t0
      by (subst (asm) json_parse.simps) (auto simp: Cons c s Let_def split: list.splits prod.splits if_splits)
  qed
qed

theorem json_needs_container_witness:
  "\<exists>c uc. json_skip_space (bytes_of '' [1] '') = c # uc \<and> c \<in> {0x5b, 0x7b}"
  by (rule json_needs_container) code_simp

text \<open>A trailing comma is accepted, in an array and in an object, although RFC 7159 has no such form.\<close>

theorem json_trailing_comma:
  "fst (json_parse [0x5b, 0x31, 0x2c, 0x5d] (replicate JSON_MAX 0) 0) = 1 \<and>
   fst (json_parse [0x7b, 0x22, 0x61, 0x22, 0x3a, 0x31, 0x2c, 0x7d] (replicate JSON_MAX 0) 0) = 1"
  by code_simp

end
