(* ===== verification/Csv.thy ===== *)
theory Csv
  imports Prelude
begin

text \<open>
  The CSV recogniser, \<^verbatim>\<open>src/is_csv.c\<close>, with \<^verbatim>\<open>CSV_LINES\<close> 10 as in the distribution.  \<open>eatquote\<close> skips to
  the end of a quoted stretch; \<open>csv_parse\<close> counts the fields \<open>nf\<close> of the current line, the fields \<open>tf\<close> of
  the first line and the lines \<open>nl\<close>.
\<close>

definition CSV_LINES :: nat where "CSV_LINES = 10"

text \<open>\<open>quote\<close> says whether the last byte was a quote; on the byte after it the pointer steps back.\<close>

fun eatquote :: "bool \<Rightarrow> u8 list \<Rightarrow> u8 list" where
  "eatquote quote [] = []"
| "eatquote quote (c # uc) =
     (if c \<noteq> 0x22 then (if quote then c # uc else eatquote False uc)
      else eatquote (\<not> quote) uc)"

lemma eatquote_le: "length (eatquote q uc) \<le> length uc"
  by (induction q uc rule: eatquote.induct) auto

function csv_loop :: "nat \<Rightarrow> nat \<Rightarrow> nat \<Rightarrow> u8 list \<Rightarrow> bool" where
  "csv_loop nf tf nl [] = (tf \<ge> 1 \<and> nl \<ge> 2)"
| "csv_loop nf tf nl (c # uc) =
     (if c = 0x22 then csv_loop nf tf nl (eatquote False uc)
      else if c = 0x2c then csv_loop (nf + 1) tf nl uc
      else if c = 0x0a then
        (if nl + 1 = CSV_LINES then tf > 1 \<and> tf = nf
         else if tf = 0 then (if nf = 0 then False else csv_loop 0 nf (nl + 1) uc)
         else if tf \<noteq> nf then False
         else csv_loop 0 tf (nl + 1) uc)
      else csv_loop nf tf nl uc)"
  by pat_completeness auto
termination
  by (relation "measure (\<lambda>(nf, tf, nl, uc). length uc)") (auto simp: le_imp_less_Suc eatquote_le)

definition csv_parse :: "u8 list \<Rightarrow> bool" where
  "csv_parse uc = csv_loop 0 0 0 uc"

subsection \<open>Tables\<close>

text \<open>A field is bare or quoted; inside quotes a quote is doubled and commas and line ends are data.\<close>

datatype field = Bare "u8 list" | Quoted "u8 list"

fun field_ok :: "field \<Rightarrow> bool" where
  "field_ok (Bare bs) \<longleftrightarrow> list_all (\<lambda>b. b \<notin> {0x22, 0x2c, 0x0a}) bs"
| "field_ok (Quoted bs) \<longleftrightarrow> True"

fun render_field :: "field \<Rightarrow> u8 list" where
  "render_field (Bare bs) = bs"
| "render_field (Quoted bs) = 0x22 # concat (map (\<lambda>b. if b = 0x22 then [b, b] else [b]) bs) @ [0x22]"

fun render_row :: "field list \<Rightarrow> u8 list" where
  "render_row [] = []"
| "render_row (f # fs) = render_field f @ (if fs = [] then [] else 0x2c # render_row fs)"

definition render_table :: "field list list \<Rightarrow> u8 list" where
  "render_table rows = concat (map (\<lambda>r. render_row r @ [0x0a]) rows)"

text \<open>A separator follows a field.\<close>

definition sep :: "u8 list \<Rightarrow> bool" where
  "sep rest \<longleftrightarrow> rest \<noteq> [] \<and> hd rest \<noteq> 0x22"

lemma eatquote_quoted:
  assumes "sep rest"
  shows "eatquote False (concat (map (\<lambda>b. if b = 0x22 then [b, b] else [b]) bs) @ 0x22 # rest) = rest"
proof -
  obtain c r where "rest = c # r" "c \<noteq> 0x22" using assms by (cases rest) (auto simp: sep_def)
  then show ?thesis by (induction bs) auto
qed

lemma csv_field:
  assumes "field_ok f" and "sep rest"
  shows "csv_loop nf tf nl (render_field f @ rest) = csv_loop nf tf nl rest"
proof (cases f)
  case (Bare bs)
  have "list_all (\<lambda>b. b \<notin> {0x22, 0x2c, 0x0a}) bs" using assms Bare by simp
  then show ?thesis unfolding Bare by (induction bs) auto
next
  case (Quoted bs)
  then show ?thesis using eatquote_quoted [OF assms(2)] by simp
qed

lemma csv_row:
  assumes "list_all field_ok fs" and "fs \<noteq> []"
  shows "csv_loop nf tf nl (render_row fs @ 0x0a # rest) = csv_loop (nf + (length fs - 1)) tf nl (0x0a # rest)"
  using assms
proof (induction fs arbitrary: nf)
  case (Cons f fs)
  show ?case
  proof (cases "fs = []")
    case True
    then show ?thesis using Cons.prems csv_field [of f "0x0a # rest" nf tf nl] by (simp add: sep_def del: csv_loop.simps)
  next
    case False
    have "csv_loop nf tf nl (render_row (f # fs) @ 0x0a # rest) = csv_loop nf tf nl (0x2c # render_row fs @ 0x0a # rest)"
      using Cons.prems csv_field [of f "0x2c # render_row fs @ 0x0a # rest" nf tf nl] False
      by (simp add: sep_def del: csv_loop.simps)
    also have "\<dots> = csv_loop (nf + 1) tf nl (render_row fs @ 0x0a # rest)" by simp
    also have "\<dots> = csv_loop (nf + 1 + (length fs - 1)) tf nl (0x0a # rest)"
      using Cons.IH Cons.prems False by simp
    finally show ?thesis using False by (cases fs) simp_all
  qed
qed simp

lemma csv_table_row:
  assumes "list_all field_ok r" and "length r = Suc k"
  shows "csv_loop 0 tf nl (render_table (r # rows)) = csv_loop k tf nl (0x0a # render_table rows)"
  using csv_row [of r 0 tf nl "render_table rows"] assms
  by (cases r) (simp_all add: render_table_def del: csv_loop.simps)

text \<open>The lines after the first, all with \<open>k\<close> commas.\<close>

lemma csv_rows:
  assumes "\<forall>r \<in> set rows. list_all field_ok r \<and> length r = Suc k" and "0 < k" and "nl < 10"
  shows "csv_loop 0 k nl (render_table rows) =
    (if nl + length rows \<ge> 10 then k > 1 else nl + length rows \<ge> 2)"
  using assms
proof (induction rows arbitrary: nl)
  case Nil
  then show ?case by (simp add: render_table_def)
next
  case (Cons r rows)
  have "csv_loop 0 k nl (render_table (r # rows)) = csv_loop k k nl (0x0a # render_table rows)"
    using Cons.prems by (intro csv_table_row) auto
  then show ?case using Cons by (auto simp: CSV_LINES_def)
qed

text \<open>C29.  Tables are recognised.  For a table whose rows all have \<open>k + 1\<close> fields, bare or quoted, the
  answer depends on the shape only: with fewer than ten rows it is accepted when there are at least
  two; with ten or more, only when rows have at least three fields, so a two-column table is accepted
  at nine rows and rejected at ten.\<close>

theorem csv_parse_table:
  assumes "\<forall>r \<in> set rows. list_all field_ok r \<and> length r = Suc k" and "0 < k"
  shows "csv_parse (render_table rows) = (if length rows \<ge> 10 then k \<ge> 2 else length rows \<ge> 2)"
proof (cases rows)
  case Nil
  then show ?thesis by (simp add: csv_parse_def render_table_def)
next
  case (Cons r rs)
  have "csv_parse (render_table rows) = csv_loop k 0 0 (0x0a # render_table rs)"
    unfolding csv_parse_def Cons by (rule csv_table_row) (use assms Cons in auto)
  also have "\<dots> = csv_loop 0 k 1 (render_table rs)" using assms(2) by (simp add: CSV_LINES_def)
  finally show ?thesis using csv_rows [of rs k 1] assms Cons by auto
qed

theorem csv_parse_table_witness:
  "csv_parse (render_table [[Bare [0x61], Quoted [0x22, 0x0a]], [Bare [], Bare [0x62]]]) =
    (if length [[Bare [0x61], Quoted [0x22, 0x0a]], [Bare [], Bare [0x62]]] \<ge> 10 then (1::nat) \<ge> 2
     else length [[Bare [0x61], Quoted [0x22, 0x0a]], [Bare [], Bare [0x62]]] \<ge> 2)"
  by (rule csv_parse_table [where k = 1]) simp_all

end
