(* ===== verification/Tar.thy ===== *)
theory Tar
  imports Prelude
begin

text \<open>
  The tar test, \<^verbatim>\<open>src/is_tar.c\<close> with the record layout of \<^verbatim>\<open>src/tar.h\<close>.  The header is the first
  512 bytes of the file; a field is a slice of it.  The fields are of type \<^verbatim>\<open>char\<close>, which is signed
  on the modelled host: where their value counts it is read with \<open>sint\<close>.
\<close>

definition RECORDSIZE :: nat where "RECORDSIZE = 512"
definition NAMSIZ :: nat where "NAMSIZ = 100"

definition hdr_name :: "u8 list \<Rightarrow> u8 list" where "hdr_name h = take NAMSIZ h"
definition hdr_chksum :: "u8 list \<Rightarrow> u8 list" where "hdr_chksum h = take 8 (drop 148 h)"
definition hdr_magic :: "u8 list \<Rightarrow> u8 list" where "hdr_magic h = take 8 (drop 257 h)"

definition TMAGIC :: "u8 list" where "TMAGIC = [0x75, 0x73, 0x74, 0x61, 0x72, 0]"
definition GNUTMAGIC :: "u8 list" where "GNUTMAGIC = [0x75, 0x73, 0x74, 0x61, 0x72, 0x20, 0x20, 0]"

definition isodigit :: "u8 \<Rightarrow> bool" where
  "isodigit c \<longleftrightarrow> 0x30 \<le> sint c \<and> sint c \<le> 0x37"

text \<open>Scan octal digits: the value so far and the bytes left.\<close>

fun oct_digits :: "int \<Rightarrow> u8 list \<Rightarrow> int \<times> u8 list" where
  "oct_digits value [] = (value, [])"
| "oct_digits value (c # cs) =
     (if isodigit c then oct_digits (push_bit 3 value OR (sint c - 0x30)) cs else (value, c # cs))"

definition from_oct :: "u8 list \<Rightarrow> int" where
  "from_oct fld =
     (case dropWhile isspace fld of
        [] \<Rightarrow> -1
      | c # cs \<Rightarrow>
          (case oct_digits 0 (c # cs) of
             (value, []) \<Rightarrow> value
           | (value, d # _) \<Rightarrow> if d \<noteq> 0 \<and> \<not> isspace d then -1 else value))"

text \<open>\<^verbatim>\<open>strncmp(a, b, n) == 0\<close>: equal up to \<open>n\<close> bytes or a common terminator.\<close>

fun strn_eq :: "nat \<Rightarrow> u8 list \<Rightarrow> u8 list \<Rightarrow> bool" where
  "strn_eq (Suc n) (a # as) (b # bs) = (a = b \<and> (a = 0 \<or> strn_eq n as bs))"
| "strn_eq _ _ _ = True"

text \<open>\<^verbatim>\<open>"/gpkg-1"\<close> with its terminator.\<close>

definition gpkg_match :: "u8 list" where
  "gpkg_match = [0x2f, 0x67, 0x70, 0x6b, 0x67, 0x2d, 0x31, 0]"

text \<open>The position of the first NUL of the name, if any, is the length of the name up to it.\<close>

definition is_gpkg :: "u8 list \<Rightarrow> bool" where
  "is_gpkg h =
     (let nm = hdr_name h; nulp = length (cstr nm) in
      nulp < length nm \<and> nulp \<ge> length gpkg_match \<and>
      take (length gpkg_match) (drop (nulp - length gpkg_match + 1) nm) = gpkg_match)"

definition tar_sum :: "u8 list \<Rightarrow> int" where
  "tar_sum h = sum_list (map uint h) - sum_list (map sint (hdr_chksum h)) + 0x20 * 8"

definition is_tar :: "u8 list \<Rightarrow> int" where
  "is_tar buf =
     (if length buf < RECORDSIZE then 0
      else let h = take RECORDSIZE buf in
        if is_gpkg h then 0
        else if tar_sum h \<noteq> from_oct (hdr_chksum h) then 0
        else if strn_eq 8 (hdr_magic h) GNUTMAGIC then 3
        else if strn_eq 8 (hdr_magic h) TMAGIC then 2
        else 1)"

subsection \<open>Octal fields\<close>

text \<open>The field as archivers write it: \<open>k\<close> octal digits.\<close>

fun octal :: "nat \<Rightarrow> nat \<Rightarrow> u8 list" where
  "octal 0 n = []"
| "octal (Suc k) n = octal k (n div 8) @ [word_of_nat (0x30 + n mod 8)]"

lemma odigit:
  assumes "d < 8"
  shows "isodigit (word_of_nat (0x30 + d)) \<and> sint (word_of_nat (0x30 + d) :: u8) - 0x30 = int d \<and>
    \<not> isspace (word_of_nat (0x30 + d)) \<and> sint (word_of_nat (0x30 + d) :: u8) = uint (word_of_nat (0x30 + d) :: u8)"
proof -
  have "list_all (\<lambda>d. isodigit (word_of_nat (0x30 + d)) \<and> sint (word_of_nat (0x30 + d) :: u8) - 0x30 = int d \<and>
    \<not> isspace (word_of_nat (0x30 + d)) \<and> sint (word_of_nat (0x30 + d) :: u8) = uint (word_of_nat (0x30 + d) :: u8)) [0..<8]"
    by code_simp
  then show ?thesis using le0 assms by (rule list_all_uptD)
qed

lemma shift3_or: "0 \<le> v \<Longrightarrow> d < 8 \<Longrightarrow> push_bit 3 v OR int d = 8 * v + int d"
proof -
  assume "0 \<le> v" "d < 8"
  have "\<not> bit d n" if "3 \<le> n" for n
  proof -
    have "(8::nat) = 2 ^ 3" by simp
    also have "\<dots> \<le> 2 ^ n" using that by (intro power_increasing) auto
    finally show ?thesis using \<open>d < 8\<close> by (simp add: bit_iff_odd)
  qed
  then have "push_bit 3 v AND int d = 0"
    by (intro bit_eqI) (auto simp: bit_simps not_less)
  then show ?thesis by (simp add: push_bit_eq_mult flip: disjunctive_add_eq_or)
qed

lemma oct_digits_octal:
  "0 \<le> v \<Longrightarrow> oct_digits v (octal k n @ rest) = oct_digits (8 ^ k * v + int (n mod 8 ^ k)) rest"
proof (induction k arbitrary: n rest)
  case (Suc k)
  have "n mod 8 < 8" by simp
  note d = odigit [OF this]
  have nn: "0 \<le> 8 ^ k * v + int (n div 8 mod 8 ^ k)" using Suc.prems by simp
  have "oct_digits v (octal (Suc k) n @ rest) =
      oct_digits (8 ^ k * v + int (n div 8 mod 8 ^ k)) (word_of_nat (0x30 + n mod 8) # rest)"
    using Suc by (simp del: oct_digits.simps of_nat_add)
  also have "\<dots> = oct_digits (8 * (8 ^ k * v + int (n div 8 mod 8 ^ k)) + int (n mod 8)) rest"
    by (simp only: oct_digits.simps if_True shift3_or [OF nn \<open>n mod 8 < 8\<close>]
      d [THEN conjunct1] d [THEN conjunct2, THEN conjunct1])
  also have "8 * (8 ^ k * v + int (n div 8 mod 8 ^ k)) + int (n mod 8) = 8 ^ Suc k * v + int (n mod 8 ^ Suc k)"
    using mod_mult2_eq [of n 8 "8 ^ k"] by (simp add: algebra_simps)
  finally show ?case .
qed simp

lemma octal_first: "\<exists>d ds. octal (Suc k) n = word_of_nat (0x30 + d) # ds \<and> d < 8"
proof (induction k arbitrary: n)
  case (Suc k)
  then show ?case using Suc.IH [of "n div 8"] by (metis append_Cons octal.simps(2))
qed (auto intro: exI [where x = "_ mod 8"])

text \<open>A number written in octal, blanks before it and a NUL or a blank after it, reads back.\<close>

theorem from_oct_octal:
  assumes "n < 8 ^ Suc k" and "list_all isspace sp" and "rest = [] \<or> hd rest = 0 \<or> isspace (hd rest)"
  shows "from_oct (sp @ octal (Suc k) n @ rest) = int n"
proof -
  obtain d ds where o: "octal (Suc k) n = word_of_nat (0x30 + d) # ds" "d < 8" using octal_first by blast
  then have dw: "dropWhile isspace (sp @ octal (Suc k) n @ rest) = octal (Suc k) n @ rest"
    using assms(2) odigit [OF o(2)] by (simp add: dropWhile_append2 list_all_iff del: of_nat_add)
  have "\<forall>b. b = 0 \<or> isspace b \<longrightarrow> \<not> isodigit b" unfolding all_u8 by code_simp
  then have stop: "oct_digits v rest = (v, rest)" for v
    using assms(3) by (cases rest) auto
  have od: "oct_digits 0 (octal (Suc k) n @ rest) = (int n, rest)"
    using oct_digits_octal [of 0 "Suc k" n rest] assms(1) stop by (simp del: octal.simps)
  obtain c cs where cs: "octal (Suc k) n @ rest = c # cs" using o(1) by (metis append_Cons)
  have "oct_digits 0 (c # cs) = (int n, rest)" using od unfolding cs .
  then show ?thesis using assms(3)
    unfolding from_oct_def trans [OF dw cs] list.case by (cases rest) simp_all
qed


theorem from_oct_octal_witness: "from_oct ([0x20] @ octal (Suc 5) 5349 @ [0, 0x20]) = int 5349"
  by (rule from_oct_octal) (simp_all add: isspace_def)


subsection \<open>The checksum\<close>

lemma length_octal [simp]: "length (octal k n) = k"
  by (induction k arbitrary: n) auto

lemma octal_sint: "map sint (octal k n) = map uint (octal k n)"
proof (induction k arbitrary: n)
  case (Suc k)
  then show ?case using odigit [of "n mod 8"] by (simp del: of_nat_add)
qed simp

lemma sum_unat: "sum_list (map uint bs) = int (sum_list (map unat (bs :: u8 list)))"
  by (induction bs) auto

lemma sum_unat_le: "sum_list (map unat (bs :: u8 list)) \<le> 255 * length bs"
proof (induction bs)
  case (Cons b bs)
  then show ?case using unat_u8_less [of b] by (simp del: unat_u8_less)
qed simp

text \<open>C25.  Archives are recognised: a header whose checksum field holds, in the usual form of six octal digits,
  a NUL and a blank, the sum of its bytes with that field counted as blanks, is a tar header, and the
  magic field tells which kind.\<close>

theorem is_tar_valid:
  assumes "length pre = 148" and "length post = 356"
    and "s = 8 * 32 + sum_list (map unat pre) + sum_list (map unat post)"
    and "h = pre @ octal 6 s @ [0, 0x20] @ post" and "\<not> is_gpkg h"
  shows "is_tar (h @ rest) =
    (if strn_eq 8 (take 8 (drop 101 post)) GNUTMAGIC then 3
     else if strn_eq 8 (take 8 (drop 101 post)) TMAGIC then 2 else 1)"
proof -
  have len: "length h = RECORDSIZE" using assms(1,2,4) by (simp add: RECORDSIZE_def)
  have ck: "hdr_chksum h = octal 6 s @ [0, 0x20]" using assms(1,4) by (simp add: hdr_chksum_def)
  have mg: "hdr_magic h = take 8 (drop 101 post)" using assms(1,4) by (simp add: hdr_magic_def)
  have "s \<le> 256 + 255 * 148 + 255 * 356"
    using sum_unat_le [of pre] sum_unat_le [of post] assms(1-3) by simp
  then have "s < 8 ^ Suc 5" by simp
  from from_oct_octal [OF this, of "[]" "[0, 0x20]"] have oct: "from_oct (hdr_chksum h) = int s"
    unfolding ck by (simp add: numeral_eq_Suc del: octal.simps)
  have "sum_list (map uint h) = int (s - 256) + sum_list (map uint (octal 6 s)) + 32"
    unfolding assms(4) map_append sum_list_append sum_unat by (simp add: assms(3) del: octal.simps)
  moreover have "sum_list (map sint (octal 6 s @ [0, 0x20])) = sum_list (map uint (octal 6 s)) + 32"
    by (simp add: octal_sint del: octal.simps)
  moreover have "256 \<le> s" using assms(3) by simp
  ultimately have "tar_sum h = int s"
    unfolding tar_sum_def ck by (simp add: of_nat_diff del: octal.simps)
  then show ?thesis
    using len oct mg assms(5) by (simp add: is_tar_def Let_def)
qed

theorem is_tar_valid_witness:
  "is_tar ((replicate 148 0x61 @ octal 6 (8 * 32 + sum_list (map unat (replicate 148 (0x61::u8))) +
        sum_list (map unat (replicate 356 (0::u8)))) @ [0, 0x20] @ replicate 356 0) @ []) =
    (if strn_eq 8 (take 8 (drop 101 (replicate 356 0))) GNUTMAGIC then 3
     else if strn_eq 8 (take 8 (drop 101 (replicate 356 0))) TMAGIC then 2 else 1)"
  by (rule is_tar_valid [OF _ _ refl refl]) (simp_all add: is_gpkg_def hdr_name_def NAMSIZ_def cstr_def)

lemma sum_list_upd: "i < length xs \<Longrightarrow> sum_list (map uint (xs[i := b])) = sum_list (map uint xs) - uint (xs ! i) + uint (b :: u8)"
  by (induction xs arbitrary: i) (auto split: nat.split)

text \<open>C26.  Corruption is noticed: changing any single byte of an accepted header outside the checksum field
  makes the test fail.\<close>

theorem is_tar_tamper:
  assumes "is_tar buf \<noteq> 0" and "i < 512" and "i < 148 \<or> 156 \<le> i" and "b \<noteq> buf ! i"
  shows "is_tar (buf[i := b]) = 0"
proof -
  let ?h = "take RECORDSIZE buf"
  have len: "512 \<le> length buf" using assms(1) by (auto simp: is_tar_def RECORDSIZE_def split: if_splits)
  have h: "take RECORDSIZE (buf[i := b]) = ?h[i := b]" by (simp add: take_update_swap)
  have ck: "hdr_chksum (?h[i := b]) = hdr_chksum ?h"
    using assms(3) by (auto simp: hdr_chksum_def drop_update_swap take_update_swap list_update_beyond)
  have "uint b \<noteq> uint (buf ! i)" using assms(4) by (simp add: word_uint_eq_iff)
  then have "tar_sum (?h[i := b]) \<noteq> tar_sum ?h"
    using sum_list_upd [of i ?h b] assms(2) len unfolding tar_sum_def ck by (simp add: RECORDSIZE_def)
  moreover have "tar_sum ?h = from_oct (hdr_chksum ?h)"
    using assms(1) by (auto simp: is_tar_def Let_def split: if_splits)
  ultimately show ?thesis by (simp add: is_tar_def Let_def h ck)
qed

theorem is_tar_tamper_witness:
  "is_tar ((replicate 148 0 @ [0x30, 0x30, 0x30, 0x34, 0x30, 0x30, 0, 0x20] @ replicate 356 0)[3 := 7]) = 0"
proof (rule is_tar_tamper)
  show "is_tar (replicate 148 0 @ [0x30, 0x30, 0x30, 0x34, 0x30, 0x30, 0, 0x20] @ replicate 356 0) \<noteq> 0"
    by code_simp
qed (simp_all add: nth_append)

end
