(* ===== verification/Simh.thy ===== *)
theory Simh
  imports Bytes
begin

text \<open>
  The SIMH tape-image recogniser, \<^verbatim>\<open>src/is_simh.c\<close>, with \<^verbatim>\<open>SIMH_TAPEMARKS\<close> 10 as in the distribution.  The
  pointer \<open>uc\<close> may move past the end of the buffer before it is compared with \<open>ue\<close>, so it is kept as
  the offset \<open>pos\<close> from the start.  Words are copied from the buffer in the byte order of the host,
  the parameter \<open>big\<close>.
\<close>

definition SIMH_TAPEMARKS :: nat where "SIMH_TAPEMARKS = 10"

definition NEED_SWAP :: "bool \<Rightarrow> bool" where
  "NEED_SWAP big \<longleftrightarrow> (host_word big [1, 2, 3, 4] :: u32) = 0x01020304"

definition swap4 :: "bool \<Rightarrow> u32 \<Rightarrow> u32" where
  "swap4 big sv = (let s = host_bytes big 4 sv in host_word big [s ! 3, s ! 2, s ! 1, s ! 0])"

text \<open>The word at the pointer, the error flag; the caller moves the pointer by four.\<close>

definition getlen :: "bool \<Rightarrow> u8 list \<Rightarrow> u32 \<times> bool" where
  "getlen big bs =
     (let n = host_word big bs; n = (if NEED_SWAP big then swap4 big n else n) in
      if n = 0xffffffff then (n, False)
      else let err = (n AND 0x00ffffff \<noteq> n AND 0x0fffffff); n = n AND 0x00ffffff in
        (if n AND 1 \<noteq> 0 then n + 1 else n, err))"

definition simh_done :: "nat \<Rightarrow> nat \<Rightarrow> nat \<Rightarrow> bool" where
  "simh_done nt nr pos \<longleftrightarrow> \<not> (nt * 4 = pos) \<and> nr \<noteq> 0"

function simh_loop :: "bool \<Rightarrow> u8 list \<Rightarrow> nat \<Rightarrow> nat \<Rightarrow> nat \<Rightarrow> bool" where
  "simh_loop big buf pos nt nr =
     (if length buf < pos + 4 then simh_done nt nr pos
      else case getlen big (take 4 (drop pos buf)) of (nbytes, err) \<Rightarrow>
        let pos = pos + 4 in
        if err then False
        else if (nt > 0 \<or> nr > 0) \<and> nbytes = 0xFFFFFFFF then simh_done nt nr pos
        else if nbytes = 0 then
          (if nt + 1 = SIMH_TAPEMARKS then simh_done (nt + 1) nr pos
           else simh_loop big buf pos (nt + 1) nr)
        else let pos = pos + unat nbytes in
          if length buf < pos + 4 then simh_done nt nr pos
          else case getlen big (take 4 (drop pos buf)) of (cbytes, err) \<Rightarrow>
            if err then False
            else if nbytes \<noteq> cbytes then False
            else simh_loop big buf (pos + 4) nt (nr + 1))"
  by pat_completeness auto
termination
  by (relation "measure (\<lambda>(big, buf, pos, nt, nr). length buf - pos)") auto

declare simh_loop.simps [simp del]

definition simh_parse :: "bool \<Rightarrow> u8 list \<Rightarrow> bool" where
  "simh_parse big buf = simh_loop big buf 0 0 0"

subsection \<open>The byte order of the host does not matter\<close>

lemma NEED_SWAP_big: "NEED_SWAP True" and NEED_SWAP_little: "\<not> NEED_SWAP False"
  by (simp_all add: NEED_SWAP_def host_word_def)

lemma swap4_host: "length bs = 4 \<Longrightarrow> swap4 True (host_word True bs) = host_word False bs"
proof -
  assume len: "length bs = 4"
  then have "host_bytes True 4 (host_word True bs :: u32) = bs"
    using host_bytes_word [of bs True, where 'a = 32] by simp
  moreover obtain a b c d where "bs = [a, b, c, d]"
    using len by (auto simp: numeral_eq_Suc length_Suc_conv)
  ultimately show ?thesis by (simp add: swap4_def Let_def host_word_def)
qed

lemma getlen_host: "length bs = 4 \<Longrightarrow> getlen True bs = getlen False bs"
  by (simp add: getlen_def NEED_SWAP_big NEED_SWAP_little swap4_host)

lemma simh_loop_host: "simh_loop True buf pos nt nr = simh_loop False buf pos nt nr"
  proof (induction "length buf - pos" arbitrary: pos nt nr rule: less_induct)
    case less
    have gl: "getlen True (take 4 (drop p buf)) = getlen False (take 4 (drop p buf))" if "\<not> length buf < p + 4" for p
      using that by (intro getlen_host) simp
    show ?case
    proof (cases "length buf < pos + 4")
      case True
      then show ?thesis by (simp add: simh_loop.simps)
    next
      case False
      have IH: "pos < p \<Longrightarrow> p \<le> length buf \<Longrightarrow> simh_loop True buf p a b = simh_loop False buf p a b" for p a b
        using less False by auto
      show ?thesis
        using False gl [OF False]
        by (subst (1 2) simh_loop.simps) (auto simp: Let_def IH gl split: prod.split)
    qed
  qed

text \<open>C28.  The recogniser gives the same answer on big-endian and little-endian hosts.\<close>

theorem simh_parse_host: "simh_parse True buf = simh_parse False buf"
  by (simp add: simh_parse_def simh_loop_host)

subsection \<open>Tapes\<close>

datatype item = Mark | Rec "u8 list"

fun item_ok :: "item \<Rightarrow> bool" where
  "item_ok Mark \<longleftrightarrow> True"
| "item_ok (Rec d) \<longleftrightarrow> 0 < length d \<and> length d < 2 ^ 24"

text \<open>A record is written between two copies of its length, padded to an even number of bytes.\<close>

fun write_item :: "item \<Rightarrow> u8 list" where
  "write_item Mark = to_le 4 0"
| "write_item (Rec d) = to_le 4 (length d) @ d @ (if odd (length d) then [0] else []) @ to_le 4 (length d)"

definition marks :: "item list \<Rightarrow> nat" where "marks its = length (filter (\<lambda>i. i = Mark) its)"
definition recs :: "item list \<Rightarrow> nat" where "recs its = length (filter (\<lambda>i. i \<noteq> Mark) its)"

lemma getlen_to_le:
  assumes "n < 2 ^ 24"
  shows "getlen False (to_le 4 n) = (word_of_nat (n + n mod 2), False)"
proof -
  let ?w = "word_of_nat n :: u32"
  have n: "unat ?w = n" using assms by (simp add: unat_of_nat)
  have hw: "host_word False (to_le 4 n) = ?w" using assms by (simp add: host_word_def le_nat_to_le)
  have m: "?w AND mask k = word_of_nat (n mod 2 ^ k)" for k
  proof -
    have "n mod 2 ^ k < 2 ^ 32" by (rule le_less_trans [OF mod_less_eq_dividend]) (use assms in simp)
    then have "unat (word_of_nat (n mod 2 ^ k) :: u32) = n mod 2 ^ k" by (simp add: unat_of_nat)
    then show ?thesis by (simp only: word_unat_eq_iff unat_and_mask n)
  qed
  have "?w \<noteq> 0xffffffff" using n assms by auto
  moreover have e: "(mask 24 :: u32) = 0x00ffffff" "(mask 28 :: u32) = 0x0fffffff" "(mask 1 :: u32) = 1" by code_simp+
  moreover have "n mod 2 ^ 24 = n" "n mod 2 ^ 28 = n" using assms by simp_all
  ultimately have "?w AND 0x00ffffff = ?w" "?w AND 0x0fffffff = ?w" "?w AND 1 = word_of_nat (n mod 2)" "?w \<noteq> 0xffffffff"
    using m [of 24, unfolded e] m [of 28, unfolded e] m [of 1, unfolded e] by (simp_all only: power_one_right simp_thms)
  moreover have "word_of_nat (n mod 2) = (if n mod 2 = 0 then 0 else 1 :: u32)" by (cases "even n") auto
  moreover have "n mod 2 = (if n mod 2 = 0 then 0 else 1)" by auto
  ultimately show ?thesis
    unfolding getlen_def hw Let_def by (simp add: NEED_SWAP_little)
qed

lemma simh_mark:
  assumes "take 4 (drop pos buf) = to_le 4 0" and "nt + 1 < SIMH_TAPEMARKS"
  shows "simh_loop False buf pos nt nr = simh_loop False buf (pos + 4) (nt + 1) nr"
proof -
  have "length (take 4 (drop pos buf)) = 4" unfolding assms(1) by simp
  then have "\<not> length buf < pos + 4" by simp
  then show ?thesis using assms(2) getlen_to_le [of 0]
    by (subst simh_loop.simps) (simp add: assms(1) Let_def)
qed

lemma simh_record:
  assumes "take 4 (drop pos buf) = to_le 4 n" and "take 4 (drop (pos + 4 + (n + n mod 2)) buf) = to_le 4 n"
    and "0 < n" and "n < 2 ^ 24"
  shows "simh_loop False buf pos nt nr = simh_loop False buf (pos + 4 + (n + n mod 2) + 4) nt (nr + 1)"
proof -
  let ?w = "word_of_nat (n + n mod 2) :: u32"
  have "length (take 4 (drop pos buf)) = 4" unfolding assms(1) by simp
  then have 1: "\<not> length buf < pos + 4" by simp
  have "length (take 4 (drop (pos + 4 + (n + n mod 2)) buf)) = 4" unfolding assms(2) by simp
  then have 2: "\<not> length buf < pos + 4 + (n + n mod 2) + 4" by simp
  have "n mod 2 < 2" by simp
  then have "n + n mod 2 < 2 ^ 32" using assms(4) by simp
  then have u: "unat ?w = n + n mod 2" by (simp add: unat_of_nat del: of_nat_add)
  then have w: "?w \<noteq> 0" "?w \<noteq> 0xFFFFFFFF" using assms(3,4) \<open>n mod 2 < 2\<close> by auto
  show ?thesis
    using 1 2 w u by (subst simh_loop.simps) (simp add: assms(1,2) getlen_to_le [OF assms(4)] Let_def)
qed

lemma simh_items:
  assumes "list_all item_ok its" and "nt + marks its < SIMH_TAPEMARKS" and "length tail < 4"
    and "buf = pre @ concat (map write_item its) @ tail"
  shows "simh_loop False buf (length pre) nt nr = simh_done (nt + marks its) (nr + recs its) (length buf - length tail)"
  using assms
proof (induction its arbitrary: pre nt nr)
  case Nil
  then show ?case by (subst simh_loop.simps) (simp add: marks_def recs_def)
next
  case (Cons i its)
  show ?case
  proof (cases i)
    case Mark
    have "simh_loop False buf (length pre) nt nr = simh_loop False buf (length pre + 4) (nt + 1) nr"
      by (rule simh_mark) (use Cons.prems Mark in \<open>auto simp: marks_def\<close>)
    then show ?thesis
      using Cons.IH [of "nt + 1" "pre @ write_item Mark" nr] Cons.prems Mark by (simp add: marks_def recs_def)
  next
    case (Rec d)
    let ?n = "length d"
    have len: "length (d @ (if odd ?n then [0] else [])) = ?n + ?n mod 2" by (simp add: mod2_eq_if)
    have "simh_loop False buf (length pre) nt nr =
        simh_loop False buf (length pre + 4 + (?n + ?n mod 2) + 4) nt (nr + 1)"
    proof (rule simh_record)
      show "take 4 (drop (length pre) buf) = to_le 4 ?n" using Cons.prems Rec by simp
      have "buf = (pre @ to_le 4 ?n @ d @ (if odd ?n then [0] else [])) @ to_le 4 ?n @ concat (map write_item its) @ tail"
        using Cons.prems Rec by simp
      then show "take 4 (drop (length pre + 4 + (?n + ?n mod 2)) buf) = to_le 4 ?n"
        using len by (simp only: drop_append length_append length_to_le) simp
    qed (use Cons.prems Rec in auto)
    also have "\<dots> = simh_done (nt + marks its) (nr + 1 + recs its) (length buf - length tail)"
      using Cons.IH [of nt "pre @ write_item i" "nr + 1"] Cons.prems Rec len by (simp add: marks_def ac_simps)
    finally show ?thesis using Rec by (simp add: marks_def recs_def)
  qed
qed

lemma tape_length: "list_all item_ok its \<Longrightarrow> 8 * recs its + 4 * marks its \<le> length (concat (map write_item its))"
proof (induction its)
  case (Cons i its)
  then show ?case by (cases i) (auto simp: marks_def recs_def)
qed (simp add: marks_def recs_def)

text \<open>C27.  Tape images are recognised: a sequence of records and fewer than ten tape marks, with at least one
  record, is accepted on any host, up to three stray bytes at the end.\<close>

theorem simh_parse_tape:
  assumes "list_all item_ok its" and "marks its < 10" and "0 < recs its" and "length tail < 4"
  shows "simh_parse big (concat (map write_item its) @ tail)"
proof -
  have "simh_parse False (concat (map write_item its) @ tail)"
    using simh_items [of its 0 tail "concat (map write_item its) @ tail" "[]" 0] tape_length [OF assms(1)] assms
    by (simp add: simh_parse_def SIMH_TAPEMARKS_def simh_done_def)
  then show ?thesis using simh_loop_host by (cases big) (simp_all add: simh_parse_def)
qed

theorem simh_parse_tape_witness:
  "simh_parse True (concat (map write_item [Rec [1, 2, 3], Mark, Mark, Rec [9]]) @ [0xff])"
  by (rule simh_parse_tape) (simp_all add: marks_def recs_def)

end
