(* ===== verification/Magic_Types.thy ===== *)
theory Magic_Types
  imports Prelude
begin

text \<open>
  The data of the library: the constants of \<^verbatim>\<open>src/file.h\<close> and \<^verbatim>\<open>src/magic.h.in\<close>, a magic entry
  (\<^verbatim>\<open>struct magic\<close>), the state of a query (\<^verbatim>\<open>struct magic_set\<close>) and the buffer under test.

  Integers keep their width; a signed field is a word that its users read with \<open>sint\<close>.  The union
  \<^verbatim>\<open>VALUETYPE\<close> is its 128 bytes.  The union \<^verbatim>\<open>_u\<close> of a magic entry is the 64-bit mask; on the modelled
  little-endian host \<^verbatim>\<open>str_range\<close> is its low half and \<^verbatim>\<open>str_flags\<close> its high half.  A pointer into the
  file is the list of bytes from there to the end of the file's buffer.
\<close>

subsection \<open>Constants\<close>

abbreviation (input) INDIR :: u16 where "INDIR \<equiv> 0x01"
abbreviation (input) OFFADD :: u16 where "OFFADD \<equiv> 0x02"
abbreviation (input) INDIROFFADD :: u16 where "INDIROFFADD \<equiv> 0x04"
abbreviation (input) UNSIGNED :: u16 where "UNSIGNED \<equiv> 0x08"
abbreviation (input) NOSPACE :: u16 where "NOSPACE \<equiv> 0x10"
abbreviation (input) BINTEST :: u16 where "BINTEST \<equiv> 0x20"
abbreviation (input) TEXTTEST :: u16 where "TEXTTEST \<equiv> 0x40"
abbreviation (input) OFFNEGATIVE :: u16 where "OFFNEGATIVE \<equiv> 0x80"
abbreviation (input) OFFPOSITIVE :: u16 where "OFFPOSITIVE \<equiv> 0x100"
abbreviation (input) FILE_INVALID :: u8 where "FILE_INVALID \<equiv> 0"
abbreviation (input) FILE_BYTE :: u8 where "FILE_BYTE \<equiv> 1"
abbreviation (input) FILE_SHORT :: u8 where "FILE_SHORT \<equiv> 2"
abbreviation (input) FILE_DEFAULT :: u8 where "FILE_DEFAULT \<equiv> 3"
abbreviation (input) FILE_LONG :: u8 where "FILE_LONG \<equiv> 4"
abbreviation (input) FILE_STRING :: u8 where "FILE_STRING \<equiv> 5"
abbreviation (input) FILE_DATE :: u8 where "FILE_DATE \<equiv> 6"
abbreviation (input) FILE_BESHORT :: u8 where "FILE_BESHORT \<equiv> 7"
abbreviation (input) FILE_BELONG :: u8 where "FILE_BELONG \<equiv> 8"
abbreviation (input) FILE_BEDATE :: u8 where "FILE_BEDATE \<equiv> 9"
abbreviation (input) FILE_LESHORT :: u8 where "FILE_LESHORT \<equiv> 10"
abbreviation (input) FILE_LELONG :: u8 where "FILE_LELONG \<equiv> 11"
abbreviation (input) FILE_LEDATE :: u8 where "FILE_LEDATE \<equiv> 12"
abbreviation (input) FILE_PSTRING :: u8 where "FILE_PSTRING \<equiv> 13"
abbreviation (input) FILE_LDATE :: u8 where "FILE_LDATE \<equiv> 14"
abbreviation (input) FILE_BELDATE :: u8 where "FILE_BELDATE \<equiv> 15"
abbreviation (input) FILE_LELDATE :: u8 where "FILE_LELDATE \<equiv> 16"
abbreviation (input) FILE_REGEX :: u8 where "FILE_REGEX \<equiv> 17"
abbreviation (input) FILE_BESTRING16 :: u8 where "FILE_BESTRING16 \<equiv> 18"
abbreviation (input) FILE_LESTRING16 :: u8 where "FILE_LESTRING16 \<equiv> 19"
abbreviation (input) FILE_SEARCH :: u8 where "FILE_SEARCH \<equiv> 20"
abbreviation (input) FILE_MEDATE :: u8 where "FILE_MEDATE \<equiv> 21"
abbreviation (input) FILE_MELDATE :: u8 where "FILE_MELDATE \<equiv> 22"
abbreviation (input) FILE_MELONG :: u8 where "FILE_MELONG \<equiv> 23"
abbreviation (input) FILE_QUAD :: u8 where "FILE_QUAD \<equiv> 24"
abbreviation (input) FILE_LEQUAD :: u8 where "FILE_LEQUAD \<equiv> 25"
abbreviation (input) FILE_BEQUAD :: u8 where "FILE_BEQUAD \<equiv> 26"
abbreviation (input) FILE_QDATE :: u8 where "FILE_QDATE \<equiv> 27"
abbreviation (input) FILE_LEQDATE :: u8 where "FILE_LEQDATE \<equiv> 28"
abbreviation (input) FILE_BEQDATE :: u8 where "FILE_BEQDATE \<equiv> 29"
abbreviation (input) FILE_QLDATE :: u8 where "FILE_QLDATE \<equiv> 30"
abbreviation (input) FILE_LEQLDATE :: u8 where "FILE_LEQLDATE \<equiv> 31"
abbreviation (input) FILE_BEQLDATE :: u8 where "FILE_BEQLDATE \<equiv> 32"
abbreviation (input) FILE_FLOAT :: u8 where "FILE_FLOAT \<equiv> 33"
abbreviation (input) FILE_BEFLOAT :: u8 where "FILE_BEFLOAT \<equiv> 34"
abbreviation (input) FILE_LEFLOAT :: u8 where "FILE_LEFLOAT \<equiv> 35"
abbreviation (input) FILE_DOUBLE :: u8 where "FILE_DOUBLE \<equiv> 36"
abbreviation (input) FILE_BEDOUBLE :: u8 where "FILE_BEDOUBLE \<equiv> 37"
abbreviation (input) FILE_LEDOUBLE :: u8 where "FILE_LEDOUBLE \<equiv> 38"
abbreviation (input) FILE_BEID3 :: u8 where "FILE_BEID3 \<equiv> 39"
abbreviation (input) FILE_LEID3 :: u8 where "FILE_LEID3 \<equiv> 40"
abbreviation (input) FILE_INDIRECT :: u8 where "FILE_INDIRECT \<equiv> 41"
abbreviation (input) FILE_QWDATE :: u8 where "FILE_QWDATE \<equiv> 42"
abbreviation (input) FILE_LEQWDATE :: u8 where "FILE_LEQWDATE \<equiv> 43"
abbreviation (input) FILE_BEQWDATE :: u8 where "FILE_BEQWDATE \<equiv> 44"
abbreviation (input) FILE_NAME :: u8 where "FILE_NAME \<equiv> 45"
abbreviation (input) FILE_USE :: u8 where "FILE_USE \<equiv> 46"
abbreviation (input) FILE_CLEAR :: u8 where "FILE_CLEAR \<equiv> 47"
abbreviation (input) FILE_DER :: u8 where "FILE_DER \<equiv> 48"
abbreviation (input) FILE_GUID :: u8 where "FILE_GUID \<equiv> 49"
abbreviation (input) FILE_LEGUID :: u8 where "FILE_LEGUID \<equiv> 50"
abbreviation (input) FILE_BEGUID :: u8 where "FILE_BEGUID \<equiv> 51"
abbreviation (input) FILE_OFFSET :: u8 where "FILE_OFFSET \<equiv> 52"
abbreviation (input) FILE_BEVARINT :: u8 where "FILE_BEVARINT \<equiv> 53"
abbreviation (input) FILE_LEVARINT :: u8 where "FILE_LEVARINT \<equiv> 54"
abbreviation (input) FILE_MSDOSDATE :: u8 where "FILE_MSDOSDATE \<equiv> 55"
abbreviation (input) FILE_LEMSDOSDATE :: u8 where "FILE_LEMSDOSDATE \<equiv> 56"
abbreviation (input) FILE_BEMSDOSDATE :: u8 where "FILE_BEMSDOSDATE \<equiv> 57"
abbreviation (input) FILE_MSDOSTIME :: u8 where "FILE_MSDOSTIME \<equiv> 58"
abbreviation (input) FILE_LEMSDOSTIME :: u8 where "FILE_LEMSDOSTIME \<equiv> 59"
abbreviation (input) FILE_BEMSDOSTIME :: u8 where "FILE_BEMSDOSTIME \<equiv> 60"
abbreviation (input) FILE_OCTAL :: u8 where "FILE_OCTAL \<equiv> 61"
abbreviation (input) FILE_FACTOR_OP_PLUS :: u8 where "FILE_FACTOR_OP_PLUS \<equiv> 0x2b"
abbreviation (input) FILE_FACTOR_OP_MINUS :: u8 where "FILE_FACTOR_OP_MINUS \<equiv> 0x2d"
abbreviation (input) FILE_FACTOR_OP_TIMES :: u8 where "FILE_FACTOR_OP_TIMES \<equiv> 0x2a"
abbreviation (input) FILE_FACTOR_OP_DIV :: u8 where "FILE_FACTOR_OP_DIV \<equiv> 0x2f"
abbreviation (input) FILE_FACTOR_OP_NONE :: u8 where "FILE_FACTOR_OP_NONE \<equiv> 0x0"
abbreviation (input) FILE_OPAND :: u8 where "FILE_OPAND \<equiv> 0"
abbreviation (input) FILE_OPOR :: u8 where "FILE_OPOR \<equiv> 1"
abbreviation (input) FILE_OPXOR :: u8 where "FILE_OPXOR \<equiv> 2"
abbreviation (input) FILE_OPADD :: u8 where "FILE_OPADD \<equiv> 3"
abbreviation (input) FILE_OPMINUS :: u8 where "FILE_OPMINUS \<equiv> 4"
abbreviation (input) FILE_OPMULTIPLY :: u8 where "FILE_OPMULTIPLY \<equiv> 5"
abbreviation (input) FILE_OPDIVIDE :: u8 where "FILE_OPDIVIDE \<equiv> 6"
abbreviation (input) FILE_OPMODULO :: u8 where "FILE_OPMODULO \<equiv> 7"
abbreviation (input) FILE_OPS_MASK :: u8 where "FILE_OPS_MASK \<equiv> 0x07"
abbreviation (input) FILE_OPSIGNED :: u8 where "FILE_OPSIGNED \<equiv> 0x20"
abbreviation (input) FILE_OPINVERSE :: u8 where "FILE_OPINVERSE \<equiv> 0x40"
abbreviation (input) FILE_OPINDIRECT :: u8 where "FILE_OPINDIRECT \<equiv> 0x80"
abbreviation (input) COND_NONE :: u8 where "COND_NONE \<equiv> 0"
abbreviation (input) COND_IF :: u8 where "COND_IF \<equiv> 1"
abbreviation (input) COND_ELIF :: u8 where "COND_ELIF \<equiv> 2"
abbreviation (input) COND_ELSE :: u8 where "COND_ELSE \<equiv> 3"
abbreviation (input) STRING_COMPACT_WHITESPACE :: u32 where "STRING_COMPACT_WHITESPACE \<equiv> 0x1"
abbreviation (input) STRING_COMPACT_OPTIONAL_WHITESPACE :: u32 where "STRING_COMPACT_OPTIONAL_WHITESPACE \<equiv> 0x2"
abbreviation (input) STRING_IGNORE_LOWERCASE :: u32 where "STRING_IGNORE_LOWERCASE \<equiv> 0x4"
abbreviation (input) STRING_IGNORE_UPPERCASE :: u32 where "STRING_IGNORE_UPPERCASE \<equiv> 0x8"
abbreviation (input) REGEX_OFFSET_START :: u32 where "REGEX_OFFSET_START \<equiv> 0x10"
abbreviation (input) STRING_TEXTTEST :: u32 where "STRING_TEXTTEST \<equiv> 0x20"
abbreviation (input) STRING_BINTEST :: u32 where "STRING_BINTEST \<equiv> 0x40"
abbreviation (input) PSTRING_1_BE :: u32 where "PSTRING_1_BE \<equiv> 0x80"
abbreviation (input) PSTRING_1_LE :: u32 where "PSTRING_1_LE \<equiv> 0x80"
abbreviation (input) PSTRING_2_BE :: u32 where "PSTRING_2_BE \<equiv> 0x100"
abbreviation (input) PSTRING_2_LE :: u32 where "PSTRING_2_LE \<equiv> 0x200"
abbreviation (input) PSTRING_4_BE :: u32 where "PSTRING_4_BE \<equiv> 0x400"
abbreviation (input) PSTRING_4_LE :: u32 where "PSTRING_4_LE \<equiv> 0x800"
abbreviation (input) REGEX_LINE_COUNT :: u32 where "REGEX_LINE_COUNT \<equiv> 0x800"
abbreviation (input) PSTRING_LENGTH_INCLUDES_ITSELF :: u32 where "PSTRING_LENGTH_INCLUDES_ITSELF \<equiv> 0x1000"
abbreviation (input) STRING_TRIM :: u32 where "STRING_TRIM \<equiv> 0x2000"
abbreviation (input) STRING_FULL_WORD :: u32 where "STRING_FULL_WORD \<equiv> 0x4000"
abbreviation (input) INDIRECT_RELATIVE :: u32 where "INDIRECT_RELATIVE \<equiv> 0x1"
abbreviation (input) MAGIC_NONE :: u32 where "MAGIC_NONE \<equiv> 0x0000000"
abbreviation (input) MAGIC_DEBUG :: u32 where "MAGIC_DEBUG \<equiv> 0x0000001"
abbreviation (input) MAGIC_SYMLINK :: u32 where "MAGIC_SYMLINK \<equiv> 0x0000002"
abbreviation (input) MAGIC_COMPRESS :: u32 where "MAGIC_COMPRESS \<equiv> 0x0000004"
abbreviation (input) MAGIC_DEVICES :: u32 where "MAGIC_DEVICES \<equiv> 0x0000008"
abbreviation (input) MAGIC_MIME_TYPE :: u32 where "MAGIC_MIME_TYPE \<equiv> 0x0000010"
abbreviation (input) MAGIC_CONTINUE :: u32 where "MAGIC_CONTINUE \<equiv> 0x0000020"
abbreviation (input) MAGIC_CHECK :: u32 where "MAGIC_CHECK \<equiv> 0x0000040"
abbreviation (input) MAGIC_PRESERVE_ATIME :: u32 where "MAGIC_PRESERVE_ATIME \<equiv> 0x0000080"
abbreviation (input) MAGIC_RAW :: u32 where "MAGIC_RAW \<equiv> 0x0000100"
abbreviation (input) MAGIC_ERROR :: u32 where "MAGIC_ERROR \<equiv> 0x0000200"
abbreviation (input) MAGIC_MIME_ENCODING :: u32 where "MAGIC_MIME_ENCODING \<equiv> 0x0000400"
abbreviation (input) MAGIC_APPLE :: u32 where "MAGIC_APPLE \<equiv> 0x0000800"
abbreviation (input) MAGIC_EXTENSION :: u32 where "MAGIC_EXTENSION \<equiv> 0x1000000"
abbreviation (input) MAGIC_COMPRESS_TRANSP :: u32 where "MAGIC_COMPRESS_TRANSP \<equiv> 0x2000000"
abbreviation (input) MAGIC_NO_COMPRESS_FORK :: u32 where "MAGIC_NO_COMPRESS_FORK \<equiv> 0x4000000"
abbreviation (input) MAGIC_NO_CHECK_COMPRESS :: u32 where "MAGIC_NO_CHECK_COMPRESS \<equiv> 0x0001000"
abbreviation (input) MAGIC_NO_CHECK_TAR :: u32 where "MAGIC_NO_CHECK_TAR \<equiv> 0x0002000"
abbreviation (input) MAGIC_NO_CHECK_SOFT :: u32 where "MAGIC_NO_CHECK_SOFT \<equiv> 0x0004000"
abbreviation (input) MAGIC_NO_CHECK_APPTYPE :: u32 where "MAGIC_NO_CHECK_APPTYPE \<equiv> 0x0008000"
abbreviation (input) MAGIC_NO_CHECK_ELF :: u32 where "MAGIC_NO_CHECK_ELF \<equiv> 0x0010000"
abbreviation (input) MAGIC_NO_CHECK_TEXT :: u32 where "MAGIC_NO_CHECK_TEXT \<equiv> 0x0020000"
abbreviation (input) MAGIC_NO_CHECK_CDF :: u32 where "MAGIC_NO_CHECK_CDF \<equiv> 0x0040000"
abbreviation (input) MAGIC_NO_CHECK_CSV :: u32 where "MAGIC_NO_CHECK_CSV \<equiv> 0x0080000"
abbreviation (input) MAGIC_NO_CHECK_TOKENS :: u32 where "MAGIC_NO_CHECK_TOKENS \<equiv> 0x0100000"
abbreviation (input) MAGIC_NO_CHECK_ENCODING :: u32 where "MAGIC_NO_CHECK_ENCODING \<equiv> 0x0200000"
abbreviation (input) MAGIC_NO_CHECK_JSON :: u32 where "MAGIC_NO_CHECK_JSON \<equiv> 0x0400000"
abbreviation (input) MAGIC_NO_CHECK_SIMH :: u32 where "MAGIC_NO_CHECK_SIMH \<equiv> 0x0800000"

abbreviation (input) PSTRING_LEN :: u32 where
  "PSTRING_LEN \<equiv> PSTRING_1_BE OR PSTRING_2_LE OR PSTRING_2_BE OR PSTRING_4_LE OR PSTRING_4_BE"

abbreviation (input) STRING_IGNORE_CASE :: u32 where
  "STRING_IGNORE_CASE \<equiv> STRING_IGNORE_LOWERCASE OR STRING_IGNORE_UPPERCASE"

abbreviation (input) MAGIC_MIME :: u32 where "MAGIC_MIME \<equiv> MAGIC_MIME_TYPE OR MAGIC_MIME_ENCODING"

abbreviation (input) MAGIC_NODESC :: u32 where "MAGIC_NODESC \<equiv> MAGIC_EXTENSION OR MAGIC_MIME OR MAGIC_APPLE"

abbreviation (input) EVENT_HAD_ERR :: u32 where "EVENT_HAD_ERR \<equiv> 0x01"

abbreviation (input) MAXstring :: nat where "MAXstring \<equiv> 128"

definition IS_STRING :: "u8 \<Rightarrow> bool" where
  "IS_STRING t \<longleftrightarrow> t = FILE_STRING \<or> t = FILE_PSTRING \<or> t = FILE_BESTRING16 \<or> t = FILE_LESTRING16 \<or>
     t = FILE_REGEX \<or> t = FILE_SEARCH \<or> t = FILE_INDIRECT \<or> t = FILE_NAME \<or> t = FILE_USE \<or> t = FILE_OCTAL"

subsection \<open>Magic entries\<close>

record magic =
  m_flag :: u16
  m_cont_level :: u8
  m_factor :: u8
  m_reln :: u8
  m_vallen :: u8
  m_type :: u8
  m_in_type :: u8
  m_in_op :: u8
  m_mask_op :: u8
  m_cond :: u8
  m_factor_op :: u8
  m_offset :: u32
  m_in_offset :: u32
  m_lineno :: u32
  m_u :: u64
  m_value :: "u8 list"
  m_desc :: "u8 list"
  m_mimetype :: "u8 list"
  m_apple :: "u8 list"
  m_ext :: "u8 list"

abbreviation (input) num_mask :: "magic \<Rightarrow> u64" where "num_mask m \<equiv> m_u m"

definition str_range :: "magic \<Rightarrow> u32" where "str_range m = ucast (m_u m)"

definition str_flags :: "magic \<Rightarrow> u32" where "str_flags m = ucast (drop_bit 32 (m_u m))"

subsection \<open>The state of a query\<close>

record level_info =
  li_off :: u32
  li_got_match :: bool
  li_last_match :: bool
  li_last_cond :: u8

record magic_set =
  ms_mlist0 :: "magic list list"
  ms_mlist1 :: "magic list list"
  ms_li :: "level_info list"
  ms_buf :: "u8 list option"
  ms_blen :: nat
  ms_pbuf :: "u8 list option"
  ms_offset :: u32
  ms_eoffset :: u32
  ms_error :: int
  ms_flags :: u32
  ms_event_flags :: u32
  ms_line :: nat
  ms_mode :: u32
  ms_magwarn :: nat
  ms_search_s :: "u8 list option"
  ms_search_len :: nat
  ms_search_offset :: nat
  ms_rm_len :: nat
  ms_value :: "u8 list"
  ms_indir_max :: nat
  ms_name_max :: nat
  ms_regex_max :: nat
  ms_magwarn_max :: nat
  ms_encoding_max :: nat

text \<open>The buffer under test: its bytes, the descriptor or -1, whether \<^verbatim>\<open>st\<close> says a regular file, and what
  reading the whole file through the descriptor gives (\<open>None\<close> for a read that fails).\<close>

record buffer =
  b_fbuf :: "u8 list"
  b_fd :: int
  b_regular :: bool
  b_file :: "u8 list option"

text \<open>\<^verbatim>\<open>buffer_fill\<close> with the tail buffer it leaves in \<^verbatim>\<open>ebuf\<close>; \<open>None\<close> is the answer -1, after which \<^verbatim>\<open>elen\<close> is
  \<^verbatim>\<open>FILE_BADSIZE\<close>.  The source fills once and keeps the result; the model computes it when it is asked for.\<close>

definition buffer_fill :: "buffer \<Rightarrow> u8 list option" where
  "buffer_fill b =
     (if b_fd b = -1 then Some []
      else if \<not> b_regular b then None
      else case b_file b of
          None \<Rightarrow> None
        | Some file \<Rightarrow>
            (let elen = min (length file) (length (b_fbuf b)) in Some (drop (length file - elen) file)))"

definition has :: "'a::len word \<Rightarrow> 'a word \<Rightarrow> bool" where
  "has w f \<longleftrightarrow> w AND f \<noteq> 0"

end
