(* ===== verification/Funcs.thy ===== *)
theory Funcs
  imports Magic_Types
begin

text \<open>
  The output buffer and the helpers of \<^verbatim>\<open>src/funcs.c\<close>.  The accumulation buffer \<^verbatim>\<open>ms->o.buf\<close> is the bytes
  of its string, \<open>None\<close> for a null pointer; \<^verbatim>\<open>ms->o.blen\<close> is kept beside it as the source does.  A call
  \<^verbatim>\<open>file_printf(ms, "...", args)\<close> with a format of the source is \<open>file_printf ms txt\<close>, \<open>txt\<close> the bytes that
  \<^verbatim>\<open>vasprintf\<close> produces; a format that comes from a magic file goes through \<open>file_vprintf\<close>, which checks
  it, with the result of \<^verbatim>\<open>vasprintf\<close> (\<open>None\<close> for a negative return) as its argument.  Memory
  allocation succeeds.
\<close>

subsection \<open>Decimal numbers in messages\<close>

fun dec_digits :: "nat \<Rightarrow> nat \<Rightarrow> u8 list" where
  "dec_digits 0 n = []"
| "dec_digits (Suc k) n = (if n < 10 then [] else dec_digits k (n div 10)) @ [word_of_nat (0x30 + n mod 10)]"

text \<open>\<^verbatim>\<open>%zu\<close>, at most twenty digits for 64 bits.\<close>

definition show_nat :: "nat \<Rightarrow> u8 list" where
  "show_nat n = dec_digits 20 n"

lemma length_dec_digits: "length (dec_digits k n) \<le> k"
  by (induction k arbitrary: n) auto

lemma length_show_nat: "length (show_nat n) \<le> 20"
  by (simp add: show_nat_def length_dec_digits)

subsection \<open>Formats\<close>

text \<open>The digits of a width or precision: the value, which stops growing above 1024, and the rest.\<close>

fun checkfield_loop :: "nat \<Rightarrow> u8 list \<Rightarrow> nat \<times> u8 list" where
  "checkfield_loop fw [] = (fw, [])"
| "checkfield_loop fw (c # p) =
     (if isdigit c then
        let fw' = fw * 10 + (unat c - 0x30) in
        if fw' > 1024 then (fw', p) else checkfield_loop fw' p
      else (fw, c # p))"

text \<open>The answer is the field width when it is too large.\<close>

definition file_checkfield :: "u8 list \<Rightarrow> nat option \<times> u8 list" where
  "file_checkfield p = (case checkfield_loop 0 p of (fw, p') \<Rightarrow> (if fw < 1024 then None else Some fw, p'))"

datatype fmt_error = Incomplete | Star | Width nat | Precision nat | Bad_char u8

lemma checkfield_le: "length (snd (checkfield_loop fw p)) \<le> length p"
  by (induction fw p rule: checkfield_loop.induct) (auto simp: Let_def)

lemma file_checkfield_le: "length (snd (file_checkfield p)) \<le> length p"
  using checkfield_le [of 0 p] by (auto simp: file_checkfield_def split: prod.split)

text \<open>One conversion, the bytes after the percent sign: an error, or the rest after the conversion
  character.  The end of the list is the terminator.\<close>

definition check_conversion :: "u8 list \<Rightarrow> fmt_error + u8 list" where
  "check_conversion p0 =
     (let p = dropWhile (\<lambda>c. c \<in> set [0x23, 0x30, 0x2e, 0x27, 0x2b, 0x2d, 0x20]) p0 in
      if p \<noteq> [] \<and> hd p = 0x2a then Inl Star
      else case file_checkfield p of
          (Some fw, _) \<Rightarrow> Inl (Width fw)
        | (None, p) \<Rightarrow>
            (let final = (\<lambda>p. case p of [] \<Rightarrow> Inl (Bad_char 0)
                 | c # p' \<Rightarrow> if isalpha c then Inr p' else Inl (Bad_char c))
             in if p \<noteq> [] \<and> hd p = 0x2e
                then (case file_checkfield (tl p) of (Some fw, _) \<Rightarrow> Inl (Precision fw) | (None, p) \<Rightarrow> final p)
                else final p))"

lemma check_conversion_less: "check_conversion p = Inr p' \<Longrightarrow> length p' < length p"
proof -
  assume a: "check_conversion p = Inr p'"
  let ?p = "dropWhile (\<lambda>c. c \<in> set [0x23, 0x30, 0x2e, 0x27, 0x2b, 0x2d, 0x20]) p"
  obtain w p1 where 1: "file_checkfield ?p = (w, p1)" by fastforce
  obtain w2 p2 where 2: "file_checkfield (tl p1) = (w2, p2)" by fastforce
  have "length p1 \<le> length p" "length p2 \<le> length p"
    using file_checkfield_le [of ?p] file_checkfield_le [of "tl p1"] 1 2
      length_dropWhile_le [of "\<lambda>c. c \<in> set [0x23, 0x30, 0x2e, 0x27, 0x2b, 0x2d, 0x20]" p] by simp_all
  then show ?thesis
    using a 1 2 by (auto simp: check_conversion_def Let_def split: if_splits option.splits list.splits)
qed

text \<open>\<open>None\<close> is the answer 0, an error the answer -1 with its message.\<close>

function file_checkfmt :: "u8 list \<Rightarrow> fmt_error option" where
  "file_checkfmt [] = None"
| "file_checkfmt (c # p) =
     (if c \<noteq> 0x25 then file_checkfmt p
      else case p of
          [] \<Rightarrow> Some Incomplete
        | d # p' \<Rightarrow>
            if d = 0x25 then file_checkfmt p'
            else case check_conversion p of Inl e \<Rightarrow> Some e | Inr p'' \<Rightarrow> file_checkfmt p'')"
  by pat_completeness auto
termination
  by (relation "measure length") (auto dest!: check_conversion_less)

fun fmt_message :: "fmt_error \<Rightarrow> u8 list" where
  "fmt_message Incomplete = bytes_of ''incomplete % format''"
| "fmt_message Star = bytes_of ''* not allowed in format''"
| "fmt_message (Width fw) = bytes_of ''field width too large: '' @ show_nat fw"
| "fmt_message (Precision fw) = bytes_of ''field precision too large: '' @ show_nat fw"
| "fmt_message (Bad_char c) = bytes_of ''bad format char: '' @ [c]"

subsection \<open>The accumulation buffer\<close>

definition had_err :: "magic_set \<Rightarrow> bool" where
  "had_err ms \<longleftrightarrow> has (ms_event_flags ms) EVENT_HAD_ERR"

definition file_clearbuf :: "magic_set \<Rightarrow> magic_set" where
  "file_clearbuf ms = ms\<lparr>ms_buf := None, ms_blen := 0\<rparr>"

text \<open>The end of \<^verbatim>\<open>file_vprintf\<close>: the new text becomes the buffer, or is joined to it by \<^verbatim>\<open>asprintf\<close>, which stops
  at the first NUL.\<close>

definition append_out :: "magic_set \<Rightarrow> u8 list \<Rightarrow> magic_set" where
  "append_out ms txt = (case ms_buf ms of
     None \<Rightarrow> ms\<lparr>ms_buf := Some (cstr txt), ms_blen := length txt\<rparr>
   | Some old \<Rightarrow> ms\<lparr>ms_buf := Some (old @ cstr txt), ms_blen := length (old @ cstr txt)\<rparr>)"

definition too_long :: "magic_set \<Rightarrow> u8 list \<Rightarrow> bool" where
  "too_long ms txt \<longleftrightarrow> length txt > 1024 \<or> length txt + ms_blen ms > 1024 * 1024"

definition space_message :: "u8 list \<Rightarrow> nat \<Rightarrow> u8 list" where
  "space_message len blen = bytes_of ''Output buffer space exceeded '' @ len @ [0x2b] @ show_nat blen"

text \<open>\<^verbatim>\<open>file_clearbuf\<close> and \<^verbatim>\<open>file_error(ms, 0, "Output buffer space exceeded %d+%zu", len, blen)\<close>, unfolded: the buffer is
  empty and the message is short, so it is printed.\<close>

definition space_exceeded :: "magic_set \<Rightarrow> u8 list \<Rightarrow> magic_set" where
  "space_exceeded ms len =
     (let ms' = append_out (file_clearbuf ms) (space_message len (ms_blen ms)) in
      ms'\<lparr>ms_event_flags := ms_event_flags ms' OR EVENT_HAD_ERR, ms_error := 0\<rparr>)"

definition file_printf :: "magic_set \<Rightarrow> u8 list \<Rightarrow> int \<times> magic_set" where
  "file_printf ms txt =
     (if had_err ms then (0, ms)
      else if too_long ms txt then (-1, space_exceeded ms (show_nat (length txt)))
      else (0, append_out ms txt))"

text \<open>\<open>strerror\<close> is the C library's; \<open>msg\<close> is the formatted message.\<close>

definition file_error_core ::
  "(int \<Rightarrow> u8 list) \<Rightarrow> magic_set \<Rightarrow> int \<Rightarrow> u8 list \<Rightarrow> nat \<Rightarrow> magic_set" where
  "file_error_core strerror ms error msg lineno =
     (if had_err ms then ms
      else
        let ms = (if lineno \<noteq> 0
                  then snd (file_printf (file_clearbuf ms) (bytes_of ''line '' @ show_nat lineno @ [0x3a])) else ms);
            ms = (case ms_buf ms of Some (_ # _) \<Rightarrow> snd (file_printf ms [0x20]) | _ \<Rightarrow> ms);
            ms = snd (file_printf ms msg);
            ms = (if error > 0 then snd (file_printf ms (bytes_of '' ('' @ strerror error @ [0x29])) else ms)
        in ms\<lparr>ms_event_flags := ms_event_flags ms OR EVENT_HAD_ERR, ms_error := error\<rparr>)"

definition file_error :: "(int \<Rightarrow> u8 list) \<Rightarrow> magic_set \<Rightarrow> int \<Rightarrow> u8 list \<Rightarrow> magic_set" where
  "file_error strerror ms error msg = file_error_core strerror ms error msg 0"

text \<open>Errors without an error number never ask \<^verbatim>\<open>strerror\<close>.\<close>

definition file_error0 :: "magic_set \<Rightarrow> u8 list \<Rightarrow> magic_set" where
  "file_error0 ms msg = file_error (\<lambda>_. []) ms 0 msg"

definition file_magerror :: "magic_set \<Rightarrow> u8 list \<Rightarrow> magic_set" where
  "file_magerror ms msg = file_error_core (\<lambda>_. []) ms 0 msg (ms_line ms)"

definition file_vprintf :: "magic_set \<Rightarrow> u8 list \<Rightarrow> u8 list option \<Rightarrow> int \<times> magic_set" where
  "file_vprintf ms fmt out =
     (if had_err ms then (0, ms)
      else case file_checkfmt fmt of
          Some e \<Rightarrow>
            (-1, file_error0 (file_clearbuf ms)
                   (bytes_of ''Bad magic format `'' @ fmt @ [0x27] @ bytes_of '' ('' @ fmt_message e @ [0x29]))
        | None \<Rightarrow>
            (case out of
               None \<Rightarrow> (-1, space_exceeded ms (bytes_of ''-1''))
             | Some txt \<Rightarrow>
                 if too_long ms txt then (-1, space_exceeded ms (show_nat (length txt)))
                 else (0, append_out ms txt)))"

definition FILE_SEPARATOR :: "u8 list" where "FILE_SEPARATOR = [0x0a, 0x2d, 0x20]"

definition file_separator :: "magic_set \<Rightarrow> int \<times> magic_set" where
  "file_separator ms = file_printf ms FILE_SEPARATOR"

text \<open>\<^verbatim>\<open>sizeof(FILE_SEPARATOR)\<close> counts the terminator.\<close>

definition trim_separator :: "magic_set \<Rightarrow> magic_set" where
  "trim_separator ms = (case ms_buf ms of
     None \<Rightarrow> ms
   | Some b \<Rightarrow>
       if length b < length FILE_SEPARATOR + 1 then ms
       else let l = length b - length FILE_SEPARATOR in
         if drop l b \<noteq> FILE_SEPARATOR then ms else ms\<lparr>ms_buf := Some (take l b)\<rparr>)"

text \<open>The answer says whether to stop; the second component is \<^verbatim>\<open>*rv\<close>.\<close>

definition checkdone :: "magic_set \<Rightarrow> int \<Rightarrow> bool \<times> int \<times> magic_set" where
  "checkdone ms rv =
     (if \<not> has (ms_flags ms) MAGIC_CONTINUE then (True, rv, ms)
      else case file_separator ms of (r, ms') \<Rightarrow> (False, (if r = -1 then -1 else rv), ms'))"

text \<open>\<^verbatim>\<open>if (file_printf(ms, ...) == -1) return -1; return 1;\<close>\<close>

definition say :: "magic_set \<Rightarrow> u8 list \<Rightarrow> int \<times> magic_set" where
  "say ms msg = (case file_printf ms msg of (r, ms') \<Rightarrow> (if r = -1 then -1 else 1, ms'))"

definition file_default :: "magic_set \<Rightarrow> nat \<Rightarrow> int \<times> magic_set" where
  "file_default ms nb =
     (if has (ms_flags ms) MAGIC_MIME then
        (if has (ms_flags ms) MAGIC_MIME_TYPE
         then say ms (bytes_of ''application/'' @ (if nb \<noteq> 0 then bytes_of ''octet-stream'' else bytes_of ''x-empty''))
         else (1, ms))
      else if has (ms_flags ms) MAGIC_APPLE then say ms (bytes_of ''UNKNUNKN'')
      else if has (ms_flags ms) MAGIC_EXTENSION then say ms (bytes_of ''???'')
      else (0, ms))"

text \<open>\<open>loaded\<close> says whether \<^verbatim>\<open>ms->mlist[0]\<close> is not null.\<close>

definition file_reset :: "bool \<Rightarrow> magic_set \<Rightarrow> bool \<Rightarrow> int \<times> magic_set" where
  "file_reset loaded ms checkloaded =
     (if checkloaded \<and> \<not> loaded then (-1, file_error0 ms (bytes_of ''no magic files loaded''))
      else (0, (file_clearbuf ms)\<lparr>ms_pbuf := None,
                ms_event_flags := ms_event_flags ms AND NOT EVENT_HAD_ERR, ms_error := -1\<rparr>))"

text \<open>Growing the level stack: \<open>fresh\<close> is the content of the memory that \<^verbatim>\<open>realloc\<close> adds, which the source
  leaves uninitialised.\<close>

definition file_check_mem :: "level_info \<Rightarrow> magic_set \<Rightarrow> nat \<Rightarrow> int \<times> magic_set" where
  "file_check_mem fresh ms level =
     (let li = (if level \<ge> length (ms_li ms)
                then ms_li ms @ replicate (20 + level - length (ms_li ms)) fresh else ms_li ms)
      in (0, ms\<lparr>ms_li := li[level := (li ! level)\<lparr>li_got_match := False, li_last_match := False,
                li_last_cond := COND_NONE\<rparr>]\<rparr>))"

record pushbuf =
  pb_buf :: "u8 list option"
  pb_blen :: nat
  pb_offset :: u32

definition file_push_buffer :: "magic_set \<Rightarrow> (pushbuf \<times> magic_set) option" where
  "file_push_buffer ms =
     (if had_err ms then None
      else Some (\<lparr>pb_buf = ms_buf ms, pb_blen = ms_blen ms, pb_offset = ms_offset ms\<rparr>,
                 ms\<lparr>ms_buf := None, ms_blen := 0, ms_offset := 0\<rparr>))"

definition file_pop_buffer :: "magic_set \<Rightarrow> pushbuf \<Rightarrow> u8 list option \<times> magic_set" where
  "file_pop_buffer ms pb =
     (if had_err ms then (None, ms)
      else (ms_buf ms, ms\<lparr>ms_buf := pb_buf pb, ms_blen := pb_blen pb, ms_offset := pb_offset pb\<rparr>))"

subsection \<open>Printable text\<close>

text \<open>A byte as a backslash and three octal digits.\<close>

definition octalify :: "u8 \<Rightarrow> u8 list" where
  "octalify c = [0x5c, (drop_bit 6 c AND 7) + 0x30, (drop_bit 3 c AND 7) + 0x30, (c AND 7) + 0x30]"

text \<open>\<open>room\<close> is \<^verbatim>\<open>eptr - ptr\<close>.\<close>

fun printable_loop :: "bool \<Rightarrow> nat \<Rightarrow> u8 list \<Rightarrow> u8 list" where
  "printable_loop raw room [] = []"
| "printable_loop raw room (c # s) =
     (if room = 0 \<or> c = 0 then []
      else if raw \<or> isprint c then c # printable_loop raw (room - 1) s
      else if room \<le> 3 then []
      else octalify c @ printable_loop raw (room - 4) s)"

definition file_printable :: "magic_set \<Rightarrow> nat \<Rightarrow> u8 list \<Rightarrow> nat \<Rightarrow> u8 list" where
  "file_printable ms bufsiz str slen = printable_loop (has (ms_flags ms) MAGIC_RAW) (bufsiz - 1) (take slen str)"

text \<open>The multi-byte path: \<open>mb op\<close> is \<^verbatim>\<open>mbrtowc\<close> at \<open>op\<close>, \<open>None\<close> for an invalid or incomplete character, otherwise the
  number of bytes after the first and whether \<^verbatim>\<open>iswprint\<close> holds.\<close>

function getbuffer_mb :: "(u8 list \<Rightarrow> (nat \<times> bool) option) \<Rightarrow> u8 list \<Rightarrow> u8 list option" where
  "getbuffer_mb mb [] = Some []"
| "getbuffer_mb mb (c # op) =
     (case mb (c # op) of
        None \<Rightarrow> None
      | Some (k, pr) \<Rightarrow>
          map_option ((@) (let t = c # take k op in if pr then t else concat (map octalify t)))
            (getbuffer_mb mb (drop k op)))"
  by pat_completeness auto
termination
  by (relation "measure (\<lambda>(mb, op). length op)") auto

definition file_getbuffer :: "(u8 list \<Rightarrow> (nat \<times> bool) option) \<Rightarrow> magic_set \<Rightarrow> u8 list option \<times> magic_set" where
  "file_getbuffer mb ms =
     (if had_err ms then (None, ms)
      else if has (ms_flags ms) MAGIC_RAW then (ms_buf ms, ms)
      else case ms_buf ms of
          None \<Rightarrow> (None, ms)
        | Some b \<Rightarrow>
            (let p = (case getbuffer_mb mb b of
                 Some p \<Rightarrow> p
               | None \<Rightarrow> concat (map (\<lambda>c. if isprint c then [c] else octalify c) b))
             in (Some p, ms\<lparr>ms_pbuf := Some p\<rparr>)))"

definition file_strtrim :: "u8 list \<Rightarrow> u8 list" where
  "file_strtrim str = rev (dropWhile isspace (rev (dropWhile isspace str)))"

subsection \<open>GUIDs\<close>

record guid =
  data1 :: u32
  data2 :: u16
  data3 :: u16
  data4 :: "u8 list"

definition XDIGIT :: "u8 list" where "XDIGIT = bytes_of ''0123456789abcdef''"

fun index_of :: "u8 \<Rightarrow> u8 list \<Rightarrow> nat option" where
  "index_of c [] = None"
| "index_of c (x # xs) = (if c = x then Some 0 else map_option Suc (index_of c xs))"

definition atox :: "u8 \<Rightarrow> nat option" where
  "atox c = (let d = (if isupper c then tolower c else c) in if d = 0 then None else index_of d XDIGIT)"

text \<open>The value of the first \<open>n\<close> characters, \<open>None\<close> for the answer 0; the end of the list is the terminator, which
  is no digit.\<close>

fun getxvalue :: "u64 \<Rightarrow> nat \<Rightarrow> u8 list \<Rightarrow> u64 option" where
  "getxvalue v 0 s = Some v"
| "getxvalue v (Suc n) [] = None"
| "getxvalue v (Suc n) (c # s) =
     (case atox c of None \<Rightarrow> None | Some x \<Rightarrow> getxvalue (push_bit 4 v OR word_of_nat x) n s)"

definition dash_at :: "nat \<Rightarrow> u8 list \<Rightarrow> bool" where
  "dash_at i s \<longleftrightarrow> i < length s \<and> s ! i = 0x2d"

definition xbyte :: "u8 list \<Rightarrow> nat \<Rightarrow> u8 option" where
  "xbyte s i = map_option ucast (getxvalue 0 2 (drop i s))"

text \<open>On the modelled little-endian host \<^verbatim>\<open>file_bigendian()\<close> is 0.\<close>

definition file_parse_guid :: "u8 list \<Rightarrow> guid option" where
  "file_parse_guid s =
     (case (getxvalue 0 8 s, dash_at 8 s, getxvalue 0 4 (drop 9 s), dash_at 13 s,
            getxvalue 0 4 (drop 14 s), dash_at 18 s) of
        (Some d1, True, Some d2, True, Some d3, True) \<Rightarrow>
          (case (xbyte s 19, xbyte s 21, dash_at 23 s) of
             (Some a, Some b, True) \<Rightarrow>
               (case (xbyte s 24, xbyte s 26, xbyte s 28, xbyte s 30, xbyte s 32, xbyte s 34) of
                  (Some c, Some d, Some e, Some f, Some g, Some h) \<Rightarrow>
                    Some \<lparr>data1 = ucast d1, data2 = ucast d2, data3 = ucast d3, data4 = [a, b, c, d, e, f, g, h]\<rparr>
                | _ \<Rightarrow> None)
           | _ \<Rightarrow> None)
      | _ \<Rightarrow> None)"

text \<open>\<^verbatim>\<open>%.kX\<close> for a value of at most \<open>k\<close> hexadecimal digits.\<close>

definition xdigit_upper :: "nat \<Rightarrow> u8" where
  "xdigit_upper d = (if d < 10 then word_of_nat (0x30 + d) else word_of_nat (0x37 + d))"

fun hex_upper :: "nat \<Rightarrow> nat \<Rightarrow> u8 list" where
  "hex_upper 0 n = []"
| "hex_upper (Suc k) n = hex_upper k (n div 16) @ [xdigit_upper (n mod 16)]"

text \<open>The 36 characters; the buffers of the callers hold them and a terminator.\<close>

definition file_print_guid :: "guid \<Rightarrow> u8 list" where
  "file_print_guid g =
     (let b = (\<lambda>i. hex_upper 2 (unat (data4 g ! i))) in
      hex_upper 8 (unat (data1 g)) @ [0x2d] @ hex_upper 4 (unat (data2 g)) @ [0x2d] @
      hex_upper 4 (unat (data3 g)) @ [0x2d] @ b 0 @ b 1 @ [0x2d] @ b 2 @ b 3 @ b 4 @ b 5 @ b 6 @ b 7)"

subsection \<open>The contract of printing\<close>

text \<open>The output never exceeds one mebibyte, and its recorded length is at least that of the string.\<close>

definition out_ok :: "magic_set \<Rightarrow> bool" where
  "out_ok ms \<longleftrightarrow> ms_blen ms \<le> 1024 * 1024 \<and>
     (case ms_buf ms of None \<Rightarrow> ms_blen ms = 0 | Some b \<Rightarrow> length b \<le> ms_blen ms \<and> 0 \<notin> set b)"

locale printing_op =
  fixes op :: "magic_set \<Rightarrow> int \<times> magic_set"
  assumes keeps_ok: "out_ok ms \<Longrightarrow> out_ok (snd (op ms))"
    and sticky: "had_err ms \<Longrightarrow> snd (op ms) = ms"
    and fails: "\<not> had_err ms \<Longrightarrow> fst (op ms) = -1 \<Longrightarrow> had_err (snd (op ms))"
    and flags: "ms_flags (snd (op ms)) = ms_flags ms"
begin

lemma run: "op ms = (r, ms') \<Longrightarrow> out_ok ms \<Longrightarrow> out_ok ms'"
  using keeps_ok [of ms] by simp

lemma error_reported: "op ms = (-1, ms') \<Longrightarrow> had_err ms'"
  using fails [of ms] sticky [of ms] by (cases "had_err ms") auto

end

lemma had_err_simps [simp]:
  "had_err (ms\<lparr>ms_buf := b\<rparr>) = had_err ms" "had_err (ms\<lparr>ms_blen := n\<rparr>) = had_err ms"
  "had_err (ms\<lparr>ms_error := e\<rparr>) = had_err ms" "had_err (ms\<lparr>ms_pbuf := p\<rparr>) = had_err ms"
  "had_err (ms\<lparr>ms_offset := ofs\<rparr>) = had_err ms"
  by (simp_all add: had_err_def)

lemma had_err_set [simp]: "had_err (ms\<lparr>ms_event_flags := ev OR EVENT_HAD_ERR\<rparr>)"
proof -
  have "bit (ev OR 1) 0" by (simp add: bit_or_iff)
  then have "(ev OR 1) AND 1 \<noteq> 0" by (auto dest!: arg_cong [where f = "\<lambda>w. bit w 0"] simp: bit_and_iff)
  then show ?thesis by (simp add: had_err_def has_def)
qed

lemma out_ok_clear [simp]: "out_ok (file_clearbuf ms)"
  by (simp add: out_ok_def file_clearbuf_def)

lemma had_err_clear [simp]: "had_err (file_clearbuf ms) = had_err ms"
  by (simp add: file_clearbuf_def)

lemma out_ok_frame [simp]:
  "out_ok (ms\<lparr>ms_event_flags := e\<rparr>) = out_ok ms" "out_ok (ms\<lparr>ms_error := n\<rparr>) = out_ok ms"
  "out_ok (ms\<lparr>ms_pbuf := p\<rparr>) = out_ok ms" "out_ok (ms\<lparr>ms_offset := ofs\<rparr>) = out_ok ms"
  by (simp_all add: out_ok_def split: option.split)

lemma out_ok_append: "out_ok ms \<Longrightarrow> \<not> too_long ms tx \<Longrightarrow> out_ok (append_out ms tx)"
  using length_cstr_le [of tx] cstr_no_nul [of tx]
  by (auto simp: out_ok_def append_out_def too_long_def split: option.splits)

lemma had_err_append [simp]: "had_err (append_out ms tx) = had_err ms"
  by (simp add: append_out_def split: option.split)

lemma flags_append [simp]: "ms_flags (append_out ms tx) = ms_flags ms"
  by (simp add: append_out_def split: option.split)

lemma flags_clear [simp]: "ms_flags (file_clearbuf ms) = ms_flags ms"
  by (simp add: file_clearbuf_def)

lemma space_exceeded_props:
  assumes "length len \<le> 20"
  shows "out_ok (space_exceeded ms len)" "had_err (space_exceeded ms len)" "ms_flags (space_exceeded ms len) = ms_flags ms"
proof -
  have "\<not> too_long (file_clearbuf ms) (space_message len (ms_blen ms))"
    using assms length_show_nat [of "ms_blen ms"] by (simp add: too_long_def space_message_def file_clearbuf_def)
  then have "out_ok (append_out (file_clearbuf ms) (space_message len (ms_blen ms)))" by (rule out_ok_append [rotated]) simp
  then show "out_ok (space_exceeded ms len)" by (simp add: space_exceeded_def Let_def)
  show "had_err (space_exceeded ms len)" "ms_flags (space_exceeded ms len) = ms_flags ms"
    by (simp_all add: space_exceeded_def Let_def)
qed

lemma printf_op: "printing_op (\<lambda>ms. file_printf ms tx)"
  by unfold_locales (auto simp: file_printf_def out_ok_append space_exceeded_props length_show_nat split: if_splits)

interpretation printf: printing_op "\<lambda>ms. file_printf ms tx" for tx
  by (rule printf_op)

interpretation separator: printing_op file_separator
  unfolding file_separator_def by (rule printf_op)

lemma file_error_core_props:
  assumes "out_ok ms"
  shows "out_ok (file_error_core se ms e msg ln)" "had_err (file_error_core se ms e msg ln)"
    "ms_flags (file_error_core se ms e msg ln) = ms_flags ms"
proof -
  let ?ms1 = "if ln \<noteq> 0 then snd (file_printf (file_clearbuf ms) (bytes_of ''line '' @ show_nat ln @ [0x3a])) else ms"
  let ?ms2 = "case ms_buf ?ms1 of Some (_ # _) \<Rightarrow> snd (file_printf ?ms1 [0x20]) | _ \<Rightarrow> ?ms1"
  let ?ms3 = "snd (file_printf ?ms2 msg)"
  let ?ms4 = "if e > 0 then snd (file_printf ?ms3 (bytes_of '' ('' @ se e @ [0x29])) else ?ms3"
  have 1: "out_ok ?ms1" "ms_flags ?ms1 = ms_flags ms" using assms printf.keeps_ok printf.flags by auto
  then have 2: "out_ok ?ms2" "ms_flags ?ms2 = ms_flags ms" using printf.keeps_ok printf.flags by (auto split: option.split list.split)
  then have 3: "out_ok ?ms3" "ms_flags ?ms3 = ms_flags ms" using printf.keeps_ok printf.flags by auto
  then have "out_ok ?ms4" "ms_flags ?ms4 = ms_flags ms" using printf.keeps_ok printf.flags by auto
  then show "out_ok (file_error_core se ms e msg ln)" "ms_flags (file_error_core se ms e msg ln) = ms_flags ms"
    using assms unfolding file_error_core_def Let_def by auto
  show "had_err (file_error_core se ms e msg ln)" by (simp add: file_error_core_def Let_def)
qed

text \<open>The unfolded error of a full buffer is the call of the source.\<close>

lemma space_exceeded_error:
  assumes "length len \<le> 20" and "\<not> had_err ms"
  shows "space_exceeded ms len = file_error0 (file_clearbuf ms) (space_message len (ms_blen ms))"
proof -
  have "\<not> too_long (file_clearbuf ms) (space_message len (ms_blen ms))"
    using assms length_show_nat [of "ms_blen ms"] by (simp add: too_long_def space_message_def file_clearbuf_def)
  then show ?thesis using assms(2)
    by (simp add: space_exceeded_def file_error0_def file_error_def file_error_core_def file_printf_def Let_def)
       (simp add: file_clearbuf_def)
qed

interpretation vprintf: printing_op "\<lambda>ms. file_vprintf ms fmt out" for fmt out
proof unfold_locales
  fix ms
  show "out_ok ms \<Longrightarrow> out_ok (snd (file_vprintf ms fmt out))"
    by (auto simp: file_vprintf_def file_error0_def file_error_def out_ok_append space_exceeded_props length_show_nat
      file_error_core_props split: option.split)
  show "had_err ms \<Longrightarrow> snd (file_vprintf ms fmt out) = ms" by (simp add: file_vprintf_def)
  show "\<not> had_err ms \<Longrightarrow> fst (file_vprintf ms fmt out) = -1 \<Longrightarrow> had_err (snd (file_vprintf ms fmt out))"
    by (auto simp: file_vprintf_def file_error0_def file_error_def space_exceeded_props length_show_nat
      file_error_core_props split: option.splits if_splits)
  show "ms_flags (snd (file_vprintf ms fmt out)) = ms_flags ms"
    by (auto simp: file_vprintf_def file_error0_def file_error_def space_exceeded_props length_show_nat
      file_error_core_props split: option.split)
qed

interpretation say: printing_op "\<lambda>ms. say ms t" for t
proof -
  have snd: "snd (say ms t) = snd (file_printf ms t)" for ms by (simp add: say_def split: prod.split)
  have fst: "fst (say ms t) = -1 \<Longrightarrow> fst (file_printf ms t) = -1" for ms
    by (simp add: say_def split: prod.splits if_splits)
  show "printing_op (\<lambda>ms. say ms t)"
    by unfold_locales (simp_all add: snd fst printf.keeps_ok printf.sticky printf.fails printf.flags)
qed

interpretation default: printing_op "\<lambda>ms. file_default ms nb" for nb
  by unfold_locales
    (auto simp: file_default_def say.keeps_ok say.sticky say.fails say.flags split: if_splits)

subsection \<open>Properties\<close>

text \<open>An empty magic entry and a fresh query, as \<^verbatim>\<open>file_ms_alloc\<close> leaves it, for the witnesses.\<close>

definition m0 :: magic where
  "m0 = \<lparr>m_flag = 0, m_cont_level = 0, m_factor = 0, m_reln = 0, m_vallen = 0, m_type = 0, m_in_type = 0,
     m_in_op = 0, m_mask_op = 0, m_cond = 0, m_factor_op = 0, m_offset = 0, m_in_offset = 0, m_lineno = 0,
     m_u = 0, m_value = [], m_desc = [], m_mimetype = [], m_apple = [], m_ext = []\<rparr>"

definition ms0 :: magic_set where
  "ms0 = \<lparr>ms_mlist0 = [], ms_mlist1 = [], ms_li = [], ms_buf = None, ms_blen = 0, ms_pbuf = None, ms_offset = 0, ms_eoffset = 0, ms_error = -1,
     ms_flags = 0, ms_event_flags = 0, ms_line = 0, ms_mode = 0, ms_magwarn = 0, ms_search_s = None, ms_search_len = 0,
     ms_search_offset = 0, ms_rm_len = 0, ms_value = replicate 128 0, ms_indir_max = 50, ms_name_max = 150,
     ms_regex_max = 8192, ms_magwarn_max = 64, ms_encoding_max = 65536\<rparr>"

text \<open>C24.  The output buffer is safe: whatever format and text, a print keeps the output a NUL-free string of
  at most one mebibyte and its recorded length an upper bound; when it answers -1 the error is
  recorded; and after an error nothing more is printed.\<close>

theorem file_vprintf_safe:
  assumes "out_ok ms" and "file_vprintf ms fmt out = (r, ms')"
  shows "out_ok ms' \<and> (r = -1 \<longrightarrow> had_err ms') \<and> (had_err ms \<longrightarrow> ms' = ms)"
  using vprintf.run [OF assms(2,1)] vprintf.error_reported [of ms fmt out ms'] vprintf.sticky [of ms fmt out] assms(2)
  by auto

theorem file_vprintf_safe_witness: "out_ok (append_out ms0 (bytes_of ''x''))"
proof -
  have "out_ok ms0" by (simp add: out_ok_def ms0_def)
  moreover have "file_checkfmt (bytes_of ''%d'') = None" by code_simp
  then have "file_vprintf ms0 (bytes_of ''%d'') (Some (bytes_of ''x'')) = (0, append_out ms0 (bytes_of ''x''))"
    by (simp add: file_vprintf_def ms0_def had_err_def has_def too_long_def)
  ultimately show ?thesis using file_vprintf_safe by blast
qed

text \<open>A lone separator survives the final trim: the comparison with \<^verbatim>\<open>sizeof\<close>, which counts the terminator,
  leaves an output that consists of the separator only, although the source means to remove it.\<close>

theorem trim_separator_exact:
  "ms_buf (trim_separator (ms\<lparr>ms_buf := Some b\<rparr>)) =
    Some (if b \<noteq> FILE_SEPARATOR \<and> length FILE_SEPARATOR \<le> length b \<and>
             drop (length b - length FILE_SEPARATOR) b = FILE_SEPARATOR
          then take (length b - length FILE_SEPARATOR) b else b)"
proof (cases "length b < length FILE_SEPARATOR + 1")
  case True
  then show ?thesis
    by (cases "length b = length FILE_SEPARATOR") (auto simp: trim_separator_def)
next
  case False
  then have "b \<noteq> FILE_SEPARATOR" by auto
  with False show ?thesis by (simp add: trim_separator_def Let_def)
qed

lemma octalify_print: "\<forall>c. list_all (\<lambda>b. isprint b \<and> b \<noteq> 0) (octalify c)"
  unfolding all_u8 by code_simp

lemma printable_loop_length: "length (printable_loop raw room s) \<le> room"
  by (induction raw room s rule: printable_loop.induct) (auto simp: octalify_def)

lemma printable_loop_print: "list_all (\<lambda>b. isprint b) (printable_loop False room s)"
proof (induction "False" room s rule: printable_loop.induct)
  case (2 room c s)
  have "list_all isprint (octalify c)" using octalify_print by (auto simp: list_all_iff)
  with 2 show ?case by auto
qed simp

text \<open>\<open>file_printable\<close> writes at most \<open>bufsiz - 1\<close> bytes before the terminator, and unless raw output is asked
  for every one of them is printable.\<close>

theorem file_printable_safe:
  "length (file_printable ms bufsiz str slen) \<le> bufsiz - 1 \<and>
   (has (ms_flags ms) MAGIC_RAW \<or> list_all isprint (file_printable ms bufsiz str slen))"
  using printable_loop_length printable_loop_print
  by (cases "has (ms_flags ms) MAGIC_RAW") (simp_all add: file_printable_def)

subsection \<open>GUID round trip\<close>

lemma shift4_or: "x < 16 \<Longrightarrow> push_bit 4 v OR word_of_nat x = push_bit 4 v + (word_of_nat x :: u64)"
proof -
  assume x: "x < 16"
  have "list_all (\<lambda>x. (word_of_nat x :: u64) AND 15 = word_of_nat x) [0..<16]" by code_simp
  from list_all_uptD [OF this le0 x] have w: "(word_of_nat x :: u64) = word_of_nat x AND 15" by simp
  have m: "(15 :: u64) = mask 4" by code_simp
  have "push_bit 4 v AND (word_of_nat x AND mask 4) = (0 :: u64)"
    by (intro bit_word_eqI) (auto simp: bit_simps)
  then have "push_bit 4 v AND word_of_nat x = (0 :: u64)" using w m by metis
  then show ?thesis by (rule disjunctive_add_eq_or [symmetric])
qed

lemma xdigit_upper_atox: "d < 16 \<Longrightarrow> atox (xdigit_upper d) = Some d"
proof -
  have "list_all (\<lambda>d. atox (xdigit_upper d) = Some d) [0..<16]" by code_simp
  then show "d < 16 \<Longrightarrow> ?thesis" using list_all_uptD [OF _ le0] by blast
qed

lemma getxvalue_hex:
  "getxvalue (word_of_nat v) (k + j) (hex_upper k n @ rest) = getxvalue (word_of_nat (16 ^ k * v + n mod 16 ^ k)) j rest"
proof (induction k arbitrary: n j rest)
  case (Suc k)
  have "n mod 16 < 16" by simp
  note d = xdigit_upper_atox [OF this] shift4_or [OF this]
  let ?a = "16 ^ k * v + n div 16 mod 16 ^ k"
  have "getxvalue (word_of_nat v) (Suc k + j) (hex_upper (Suc k) n @ rest) =
      getxvalue (word_of_nat ?a) (Suc j) (xdigit_upper (n mod 16) # rest)"
    using Suc [of "Suc j" "n div 16" "xdigit_upper (n mod 16) # rest"] by simp
  also have "\<dots> = getxvalue (push_bit 4 (word_of_nat ?a) + word_of_nat (n mod 16)) j rest"
    by (simp add: d)
  also have "push_bit 4 (word_of_nat ?a) + word_of_nat (n mod 16) = (word_of_nat (16 * ?a + n mod 16) :: u64)"
    by (simp add: push_bit_of_nat push_bit_eq_mult mult.commute)
  also have "16 * ?a + n mod 16 = 16 ^ Suc k * v + n mod 16 ^ Suc k"
    using mod_mult2_eq [of n 16 "16 ^ k"] by (simp add: algebra_simps)
  finally show ?case .
qed simp

lemma length_hex_upper [simp]: "length (hex_upper k n) = k"
  by (induction k arbitrary: n) auto

lemma getx: "n < 16 ^ k \<Longrightarrow> getxvalue 0 k (hex_upper k n @ rest) = Some (word_of_nat n)"
  using getxvalue_hex [of 0 k 0 n rest] by simp

lemma getx_word: "LENGTH('a::len) = 4 * k \<Longrightarrow> k \<le> 16 \<Longrightarrow>
  map_option ucast (getxvalue 0 k (hex_upper k (unat (w :: 'a word)) @ rest)) = Some w"
proof -
  assume a: "LENGTH('a::len) = 4 * k" "k \<le> 16"
  have "unat w < 16 ^ k" using unsigned_less [of w] by (simp add: a power_mult)
  moreover have "(ucast (word_of_nat (unat w) :: u64) :: 'a word) = w"
  proof -
    have lt: "unat w < 2 ^ LENGTH('a)" by (rule unsigned_less)
    also have "\<dots> \<le> 2 ^ 64" using a by (intro power_increasing) auto
    finally have "unat (word_of_nat (unat w) :: u64) = unat w" by (simp only: unat_of_nat) simp
    with lt show ?thesis by (simp only: word_unat_eq_iff unsigned_ucast_eq take_bit_nat_eq_self_iff)
  qed
  ultimately show ?thesis by (simp add: getx)
qed


text \<open>C37.  A GUID that is printed parses back to itself.\<close>

theorem guid_roundtrip:
  assumes "length (data4 g) = 8"
  shows "file_parse_guid (file_print_guid g) = Some g"
proof -
  obtain b0 b1 b2 b3 b4 b5 b6 b7 where d4: "data4 g = [b0, b1, b2, b3, b4, b5, b6, b7]"
    using assms by (auto simp: numeral_eq_Suc length_Suc_conv)
  let ?s = "file_print_guid g"
  let ?x = "\<lambda>b::u8. hex_upper 2 (unat b)"
  have s: "?s = hex_upper 8 (unat (data1 g)) @ [0x2d] @ hex_upper 4 (unat (data2 g)) @ [0x2d] @
      hex_upper 4 (unat (data3 g)) @ [0x2d] @ ?x b0 @ ?x b1 @ [0x2d] @ ?x b2 @ ?x b3 @ ?x b4 @ ?x b5 @ ?x b6 @ ?x b7"
    by (simp add: file_print_guid_def Let_def d4 del: hex_upper.simps)
  have drops: "drop 9 ?s = hex_upper 4 (unat (data2 g)) @ drop 13 ?s" "drop 14 ?s = hex_upper 4 (unat (data3 g)) @ drop 18 ?s"
    by (simp_all add: s del: hex_upper.simps)
  have dash: "dash_at 8 ?s" "dash_at 13 ?s" "dash_at 18 ?s" "dash_at 23 ?s"
    by (simp_all add: dash_at_def s nth_append del: hex_upper.simps)
  have x: "xbyte ?s i = Some b" if "drop i ?s = ?x b @ r" for i b r
    using getx_word [where 'a = 8, of 2 b r] that by (simp add: xbyte_def del: hex_upper.simps)
  have bytes: "xbyte ?s 19 = Some b0" "xbyte ?s 21 = Some b1" "xbyte ?s 24 = Some b2" "xbyte ?s 26 = Some b3"
    "xbyte ?s 28 = Some b4" "xbyte ?s 30 = Some b5" "xbyte ?s 32 = Some b6" "xbyte ?s 34 = Some b7"
    by (rule x, simp add: s del: hex_upper.simps)+
  have "map_option ucast (getxvalue 0 8 ?s) = Some (data1 g)" "map_option ucast (getxvalue 0 4 (drop 9 ?s)) = Some (data2 g)"
    "map_option ucast (getxvalue 0 4 (drop 14 ?s)) = Some (data3 g)"
    unfolding drops using getx_word [where 'a = 32, of 8 "data1 g"] getx_word [where 'a = 16, of 4] s by simp_all
  then obtain d1 d2 d3 where "getxvalue 0 8 ?s = Some d1" "ucast d1 = data1 g" "getxvalue 0 4 (drop 9 ?s) = Some d2" "ucast d2 = data2 g"
    "getxvalue 0 4 (drop 14 ?s) = Some d3" "ucast d3 = data3 g" by auto
  then show ?thesis by (simp add: file_parse_guid_def dash bytes d4 flip: d4)
qed

theorem guid_roundtrip_witness:
  "file_parse_guid (file_print_guid \<lparr>data1 = 0xdeadbeef, data2 = 0x12, data3 = 0xffff, data4 = [1, 2, 3, 4, 5, 6, 7, 0xab]\<rparr>) =
    Some \<lparr>data1 = 0xdeadbeef, data2 = 0x12, data3 = 0xffff, data4 = [1, 2, 3, 4, 5, 6, 7, 0xab]\<rparr>"
  by (rule guid_roundtrip) simp

end
