(* ===== verification/Detectors.thy ===== *)
theory Detectors
  imports Funcs Json Csv Tar Simh Encoding
begin

text \<open>
  The built-in detectors as \<^verbatim>\<open>file_buffer\<close> calls them: \<^verbatim>\<open>file_is_tar\<close>, \<^verbatim>\<open>file_is_json\<close>, \<^verbatim>\<open>file_is_csv\<close> and
  \<^verbatim>\<open>file_is_simh\<close>, the contract they share, and \<^verbatim>\<open>file_buffer\<close> itself, which runs the tests in order.
\<close>

subsection \<open>The detectors\<close>

definition tartype :: "u8 list list" where
  "tartype = [bytes_of ''tar archive'', bytes_of ''POSIX tar archive'', bytes_of ''POSIX tar archive (GNU)'']"

definition file_is_tar :: "buffer \<Rightarrow> magic_set \<Rightarrow> int \<times> magic_set" where
  "file_is_tar b ms =
     (let mime = ms_flags ms AND MAGIC_MIME in
      if has (ms_flags ms) (MAGIC_APPLE OR MAGIC_EXTENSION) then (0, ms)
      else let tar = is_tar (b_fbuf b) in
        if tar < 1 \<or> tar > 3 then (0, ms)
        else if mime = MAGIC_MIME_ENCODING then (1, ms)
        else say ms (if mime \<noteq> 0 then bytes_of ''application/x-tar'' else tartype ! nat (tar - 1)))"

definition file_is_json :: "buffer \<Rightarrow> magic_set \<Rightarrow> int \<times> magic_set" where
  "file_is_json b ms =
     (let mime = ms_flags ms AND MAGIC_MIME in
      if has (ms_flags ms) (MAGIC_APPLE OR MAGIC_EXTENSION) then (0, ms)
      else let jt = fst (json_parse (b_fbuf b) (replicate JSON_MAX 0) 0) in
        if jt = 0 then (0, ms)
        else if mime = MAGIC_MIME_ENCODING then (1, ms)
        else if mime \<noteq> 0
        then say ms (bytes_of ''application/'' @ (if jt = 1 then bytes_of ''json'' else bytes_of ''x-ndjson''))
        else say ms ((if jt = 1 then [] else bytes_of ''New Line Delimited '') @ bytes_of ''JSON text data''))"

definition file_is_csv :: "bool \<Rightarrow> u8 list option \<Rightarrow> buffer \<Rightarrow> magic_set \<Rightarrow> int \<times> magic_set" where
  "file_is_csv looks_text code b ms =
     (let mime = ms_flags ms AND MAGIC_MIME in
      if \<not> looks_text then (0, ms)
      else if has (ms_flags ms) (MAGIC_APPLE OR MAGIC_EXTENSION) then (0, ms)
      else if \<not> csv_parse (b_fbuf b) then (0, ms)
      else if mime = MAGIC_MIME_ENCODING then (1, ms)
      else if mime \<noteq> 0 then say ms (bytes_of ''text/csv'')
      else say ms (bytes_of ''CSV '' @ (case code of None \<Rightarrow> [] | Some c \<Rightarrow> c @ [0x20]) @ bytes_of ''text''))"

definition file_is_simh :: "bool \<Rightarrow> buffer \<Rightarrow> magic_set \<Rightarrow> int \<times> magic_set" where
  "file_is_simh big b ms =
     (let mime = ms_flags ms AND MAGIC_MIME in
      if has (ms_flags ms) (MAGIC_APPLE OR MAGIC_EXTENSION) then (0, ms)
      else if \<not> simh_parse big (b_fbuf b) then (0, ms)
      else if mime = MAGIC_MIME_ENCODING then (1, ms)
      else if mime \<noteq> 0 then say ms (bytes_of ''application/SIMH-tape-data'')
      else say ms (bytes_of ''SIMH tape data''))"

subsection \<open>Their contract\<close>

text \<open>The answer is found, not found or error; a test that finds nothing leaves the query as it was; a
  test that finds something only appends to the output; and a query for the encoding alone prints
  nothing.\<close>

definition printed :: "magic_set \<Rightarrow> u8 list" where
  "printed ms = (case ms_buf ms of None \<Rightarrow> [] | Some b \<Rightarrow> b)"

locale detector = printing_op det
  for det :: "magic_set \<Rightarrow> int \<times> magic_set" +
  assumes answer: "fst (det ms) \<in> {-1, 0, 1}"
    and silent: "fst (det ms) = 0 \<Longrightarrow> snd (det ms) = ms"
    and appends: "fst (det ms) = 1 \<Longrightarrow> \<exists>t. printed (snd (det ms)) = printed ms @ t"
    and encoding_only: "ms_flags ms AND MAGIC_MIME = MAGIC_MIME_ENCODING \<Longrightarrow> snd (det ms) = ms"
    and not_asked: "has (ms_flags ms) (MAGIC_APPLE OR MAGIC_EXTENSION) \<Longrightarrow> det ms = (0, ms)"
begin

lemma keeps_output: "fst (det ms) \<noteq> -1 \<Longrightarrow> \<exists>t. printed (snd (det ms)) = printed ms @ t"
  using answer [of ms] silent [of ms] appends [of ms] by auto

lemma after_error: "had_err ms \<Longrightarrow> printed (snd (det ms)) = printed ms"
  by (simp add: sticky)

end

lemma printed_append: "printed (append_out ms t) = printed ms @ cstr t"
  by (simp add: printed_def append_out_def split: option.split)

lemma say_detector:
  "fst (say ms t) \<in> {-1, 0, 1}" "fst (say ms t) = 0 \<Longrightarrow> snd (say ms t) = ms"
  "fst (say ms t) = 1 \<Longrightarrow> \<exists>t'. printed (snd (say ms t)) = printed ms @ t'"
  by (auto simp: say_def file_printf_def printed_append)

lemmas say_facts = say.keeps_ok say.sticky say.fails say.flags

interpretation tar: detector "file_is_tar b" for b
  by unfold_locales
    (use say_detector in \<open>auto simp: file_is_tar_def Let_def say_facts split: if_splits\<close>)

interpretation json: detector "file_is_json b" for b
  by unfold_locales
    (use say_detector in \<open>auto simp: file_is_json_def Let_def say_facts split: if_splits\<close>)

interpretation csv: detector "file_is_csv lt code b" for lt code b
  by unfold_locales
    (use say_detector in \<open>auto simp: file_is_csv_def Let_def say_facts split: if_splits\<close>)

interpretation simh: detector "file_is_simh big b" for big b
  by unfold_locales
    (use say_detector in \<open>auto simp: file_is_simh_def Let_def say_facts split: if_splits\<close>)

text \<open>C23.  The shared contract of the built-in detectors: on every buffer and every query each of them answers
  -1, 0 or 1; answering 0 leaves the query untouched; answering 1 only appends to the output; -1 means
  an error was recorded; a query for the encoding alone is never printed to.\<close>

theorem builtin_detectors:
  assumes "det \<in> {file_is_tar b, file_is_json b, file_is_csv lt code b, file_is_simh big b}"
    and "det ms = (m, ms')"
  shows "m \<in> {-1, 0, 1} \<and> (m = 0 \<longrightarrow> ms' = ms) \<and> (m = 1 \<longrightarrow> (\<exists>t. printed ms' = printed ms @ t)) \<and>
    (m = -1 \<longrightarrow> had_err ms') \<and> (ms_flags ms AND MAGIC_MIME = MAGIC_MIME_ENCODING \<longrightarrow> ms' = ms) \<and>
    (out_ok ms \<longrightarrow> out_ok ms')"
proof -
  have d: "detector det"
    using assms(1) tar.detector_axioms json.detector_axioms csv.detector_axioms simh.detector_axioms by blast
  note facts = detector.answer [OF d, of ms] detector.silent [OF d, of ms] detector.appends [OF d, of ms]
    detector.encoding_only [OF d, of ms] printing_op.keeps_ok [OF detector.axioms(1) [OF d], of ms]
    printing_op.error_reported [OF detector.axioms(1) [OF d], of ms ms']
  from facts show ?thesis using assms(2) by auto
qed

theorem builtin_detectors_witness:
  "\<exists>t. printed (append_out ms0 (bytes_of ''JSON text data'')) = printed ms0 @ t"
proof -
  let ?b = "\<lparr>b_fbuf = [0x5b, 0x5d], b_fd = -1, b_regular = False, b_file = None\<rparr>"
  have "fst (json_parse [0x5b, 0x5d] (replicate JSON_MAX 0) 0) = 1" by code_simp
  then have "file_is_json ?b ms0 = (1, append_out ms0 (bytes_of ''JSON text data''))"
    by (simp add: file_is_json_def Let_def ms0_def has_def say_def file_printf_def had_err_def too_long_def)
  from builtin_detectors [of "file_is_json ?b" ?b True None False, OF _ this] show ?thesis by simp
qed

subsection \<open>The dispatcher\<close>

text \<open>The tests that live in other files: \<^verbatim>\<open>file_zmagic\<close>, \<^verbatim>\<open>file_trycdf\<close>, \<^verbatim>\<open>file_tryelf\<close>, \<^verbatim>\<open>file_softmagic\<close> in \<^verbatim>\<open>BINTEST\<close> mode and
  \<^verbatim>\<open>file_ascmagic\<close>, the last two with \<open>looks_text\<close>.\<close>

record engines =
  en_zmagic :: "buffer \<Rightarrow> magic_set \<Rightarrow> int \<times> magic_set"
  en_cdf :: "buffer \<Rightarrow> magic_set \<Rightarrow> int \<times> magic_set"
  en_elf :: "buffer \<Rightarrow> magic_set \<Rightarrow> int \<times> magic_set"
  en_soft :: "bool \<Rightarrow> buffer \<Rightarrow> magic_set \<Rightarrow> int \<times> magic_set"
  en_asc :: "bool \<Rightarrow> buffer \<Rightarrow> magic_set \<Rightarrow> int \<times> magic_set"

text \<open>The variables \<open>m\<close> and \<open>rv\<close> with the query.\<close>

type_synonym fb_state = "int \<times> int \<times> magic_set"

text \<open>One test of the chain, skipped when its flag is set: the flag of the result says \<^verbatim>\<open>goto done\<close>.\<close>

definition attempt :: "u32 \<Rightarrow> (magic_set \<Rightarrow> int \<times> magic_set) \<Rightarrow> fb_state \<Rightarrow> bool \<times> fb_state" where
  "attempt no_check det s = (case s of (m, rv, ms) \<Rightarrow>
     if has (ms_flags ms) no_check then (False, m, rv, ms)
     else case det ms of (m, ms) \<Rightarrow>
       if m \<noteq> 0 then (case checkdone ms rv of (stop, rv, ms) \<Rightarrow> (stop, m, rv, ms)) else (False, m, rv, ms))"

definition and_then :: "bool \<times> fb_state \<Rightarrow> (fb_state \<Rightarrow> bool \<times> fb_state) \<Rightarrow> bool \<times> fb_state" where
  "and_then r k = (case r of (stop, s) \<Rightarrow> if stop then (True, s) else k s)"

text \<open>The label \<^verbatim>\<open>simple\<close>: give up.\<close>

definition fb_simple :: "nat \<Rightarrow> u8 list \<Rightarrow> fb_state \<Rightarrow> fb_state" where
  "fb_simple nb def s = (case s of (m, rv, ms) \<Rightarrow>
     if m = 0 then
       (case file_default ms nb of (rv, ms) \<Rightarrow>
          if rv = 0 then (case file_printf ms def of (r, ms) \<Rightarrow> (1, (if r = -1 then -1 else rv), ms))
          else (1, rv, ms))
     else s)"

text \<open>The label \<^verbatim>\<open>done\<close>.\<close>

definition fb_done :: "u8 list \<Rightarrow> fb_state \<Rightarrow> int \<times> magic_set" where
  "fb_done code_mime s = (case s of (m, rv, ms) \<Rightarrow>
     let ms = trim_separator ms;
         (rv, ms) =
           (if has (ms_flags ms) MAGIC_MIME_ENCODING then
              let (rv, ms) = (if has (ms_flags ms) MAGIC_MIME_TYPE
                              then (case file_printf ms (bytes_of ''; charset='') of
                                      (r, ms) \<Rightarrow> (if r = -1 then -1 else rv, ms))
                              else (rv, ms))
              in (case file_printf ms code_mime of (r, ms) \<Rightarrow> (if r = -1 then -1 else rv, ms))
            else (rv, ms))
     in (if rv \<noteq> 0 then rv else m, ms))"

text \<open>The ELF test prints to a buffer of its own, which is kept for later; \<open>None\<close> is the early \<^verbatim>\<open>return -1\<close>.\<close>

definition fb_elf :: "engines \<Rightarrow> buffer \<Rightarrow> fb_state \<Rightarrow> (u8 list option \<times> fb_state) option" where
  "fb_elf en b s = (case s of (m, rv, ms) \<Rightarrow>
     if \<not> has (ms_flags ms) MAGIC_NO_CHECK_ELF \<and> length (b_fbuf b) > 5 \<and> b_fd b \<noteq> -1 then
       (case file_push_buffer ms of
          None \<Rightarrow> None
        | Some (pb, ms) \<Rightarrow>
            (case en_elf en b ms of (rv, ms) \<Rightarrow>
               (case file_pop_buffer ms pb of (rbuf, ms) \<Rightarrow> Some (if rv = -1 then None else rbuf, m, rv, ms))))
     else Some (None, s))"

definition fb_soft :: "engines \<Rightarrow> bool \<Rightarrow> buffer \<Rightarrow> u8 list option \<Rightarrow> fb_state \<Rightarrow> bool \<times> fb_state" where
  "fb_soft en looks_text b rbuf s = (case s of (m, rv, ms) \<Rightarrow>
     if has (ms_flags ms) MAGIC_NO_CHECK_SOFT then (False, s)
     else case en_soft en looks_text b ms of (m, ms) \<Rightarrow>
       let (r, ms) = (case rbuf of Some t \<Rightarrow> if m = 1 then file_printf ms t else (0, ms) | None \<Rightarrow> (0, ms)) in
       if r = -1 then (True, m, rv, ms)
       else if m \<noteq> 0 then (case checkdone ms rv of (stop, rv, ms) \<Rightarrow> (stop, m, rv, ms))
       else (False, m, rv, ms))"

definition fb_text :: "engines \<Rightarrow> bool \<Rightarrow> buffer \<Rightarrow> fb_state \<Rightarrow> bool \<times> fb_state" where
  "fb_text en looks_text b s = (case s of (m, rv, ms) \<Rightarrow>
     if has (ms_flags ms) MAGIC_NO_CHECK_TEXT then (False, s)
     else case en_asc en looks_text b ms of (m, ms) \<Rightarrow> (m \<noteq> 0, m, rv, ms))"

text \<open>The out-parameters of \<^verbatim>\<open>file_encoding\<close> before the call.\<close>

definition enc_unset :: enc where
  "enc_unset = \<lparr>e_rv = 0, e_ubuf = [], e_code = [], e_code_mime = ''binary'', e_type = []\<rparr>"

text \<open>\<open>big\<close> is the byte order of the host; the diagnostics of \<^verbatim>\<open>MAGIC_DEBUG\<close> are left out.\<close>

definition file_buffer :: "engines \<Rightarrow> bool \<Rightarrow> buffer \<Rightarrow> magic_set \<Rightarrow> int \<times> magic_set" where
  "file_buffer en big b ms =
     (let nb = length (b_fbuf b) in
      if nb = 0 then fb_done (bytes_of ''binary'') (fb_simple nb (bytes_of ''empty'') (0, 0, ms))
      else if nb = 1
      then fb_done (bytes_of ''binary'') (fb_simple nb (bytes_of ''very short file (no magic)'') (0, 0, ms))
      else
        let (looks_text, code, code_mime) =
              (if has (ms_flags ms) MAGIC_NO_CHECK_ENCODING then (False, None, bytes_of ''binary'')
               else let e = file_encoding (ms_encoding_max ms) (Some (b_fbuf b)) enc_unset in
                 (e_rv e \<noteq> 0, Some (bytes_of (e_code e)), bytes_of (e_code_mime e)));
            (zm, ms) = (if has (ms_flags ms) MAGIC_NO_CHECK_COMPRESS then (0, ms) else en_zmagic en b ms)
        in if zm \<noteq> 0 then (zm, ms)
           else
             let (stop, s) =
                   and_then (attempt MAGIC_NO_CHECK_TAR (file_is_tar b) (0, 0, ms))
                    (\<lambda>s. and_then (attempt MAGIC_NO_CHECK_JSON (file_is_json b) s)
                     (\<lambda>s. and_then (attempt MAGIC_NO_CHECK_CSV (file_is_csv looks_text code b) s)
                      (\<lambda>s. and_then (attempt MAGIC_NO_CHECK_SIMH (file_is_simh big b) s)
                       (attempt MAGIC_NO_CHECK_CDF (en_cdf en b)))))
             in if stop then fb_done code_mime s
                else case fb_elf en b s of
                    None \<Rightarrow> (-1, snd (snd s))
                  | Some (rbuf, s) \<Rightarrow>
                      (let (stop, s) = and_then (fb_soft en looks_text b rbuf s) (fb_text en looks_text b)
                       in fb_done code_mime (if stop then s else fb_simple nb (bytes_of ''data'') s)))"

subsection \<open>Properties of the dispatcher\<close>

text \<open>A query that has printed nothing and had no error.\<close>

definition fresh :: "magic_set \<Rightarrow> bool" where
  "fresh ms \<longleftrightarrow> \<not> had_err ms \<and> ms_buf ms = None \<and> ms_blen ms = 0"

lemma fresh_say:
  assumes "fresh ms" and "length t \<le> 1024"
  shows "say ms t = (1, append_out ms t)" and "file_printf ms t = (0, append_out ms t)"
  using assms by (auto simp: fresh_def say_def file_printf_def too_long_def)

lemma fresh_printed: "fresh ms \<Longrightarrow> printed (append_out ms t) = cstr t"
  by (simp add: fresh_def printed_def append_out_def)

lemma has_zero [simp]: "\<not> has 0 f"
  by (simp add: has_def)

lemma trim_other:
  assumes "ms_buf ms = Some b" and "b \<noteq> []" and "last b \<noteq> 0x20"
  shows "trim_separator ms = ms"
proof -
  have "drop l b \<noteq> FILE_SEPARATOR" for l
  proof
    assume d: "drop l b = FILE_SEPARATOR"
    then have "drop l b \<noteq> []" by (simp add: FILE_SEPARATOR_def)
    then have "last (drop l b) = last b" by (simp add: last_drop)
    with d assms(3) show False by (simp add: FILE_SEPARATOR_def)
  qed
  then show ?thesis using assms(1) by (simp add: trim_separator_def Let_def)
qed

text \<open>What the four built-in detectors report in a plain query, in the order of the dispatcher.\<close>

definition builtin_report :: "bool \<Rightarrow> bool \<Rightarrow> u8 list \<Rightarrow> u8 list \<Rightarrow> u8 list option" where
  "builtin_report big looks_text code buf =
     (if is_tar buf \<in> {1, 2, 3} then Some (tartype ! nat (is_tar buf - 1))
      else let jt = fst (json_parse buf (replicate JSON_MAX 0) 0) in
        if jt = 1 then Some (bytes_of ''JSON text data'')
        else if jt \<noteq> 0 then Some (bytes_of ''New Line Delimited JSON text data'')
        else if looks_text \<and> csv_parse buf then Some (bytes_of ''CSV '' @ code @ bytes_of '' text'')
        else if simh_parse big buf then Some (bytes_of ''SIMH tape data'')
        else None)"

lemma attempt_found:
  assumes "fresh ms" and "ms_flags ms = 0" and "det ms = say ms t" and "length t \<le> 1024"
  shows "attempt f det (m, rv, ms) = (True, 1, rv, append_out ms t)"
  using assms fresh_say [OF assms(1,4)] by (simp add: attempt_def checkdone_def)

lemma attempt_missed:
  assumes "ms_flags ms = 0" and "det ms = (0, ms)"
  shows "attempt f det (m, rv, ms) = (False, 0, rv, ms)"
  using assms by (simp add: attempt_def)

lemma tartype_short: "k \<in> {1, 2, 3} \<Longrightarrow> length (tartype ! nat (k - 1)) \<le> 1024 \<and>
    tartype ! nat (k - 1) \<noteq> [] \<and> 0 \<notin> set (tartype ! nat (k - 1)) \<and> last (tartype ! nat (k - 1)) \<noteq> 0x20"
proof -
  have "\<forall>t \<in> set tartype. length t \<le> 1024 \<and> t \<noteq> [] \<and> 0 \<notin> set t \<and> last t \<noteq> 0x20"
    by (simp add: tartype_def bytes_of_def)
  moreover assume "k \<in> {1, 2, 3}"
  then have "tartype ! nat (k - 1) \<in> set tartype" by (auto simp: tartype_def)
  ultimately show ?thesis by blast
qed


lemma if_e_code: "e_code x \<in> C \<Longrightarrow> e_code y \<in> C \<Longrightarrow> e_code (if c then x else y) \<in> C"
  by simp

lemma e_code_in:
  "e_code (file_encoding m (Some b) e) \<in>
    {''unknown'', ''ASCII'', ''Unicode text, UTF-7'', ''Unicode text, UTF-8 (with BOM)'', ''Unicode text, UTF-8'',
     ''Unicode text, UTF-32, little-endian'', ''Unicode text, UTF-32, big-endian'',
     ''Unicode text, UTF-16, little-endian'', ''Unicode text, UTF-16, big-endian'',
     ''ISO-8859'', ''Non-ISO extended-ASCII'', ''EBCDIC'', ''International EBCDIC''}" (is "_ \<in> ?C")
proof -
  have u: "''unknown'' \<in> ?C" and a: "''ASCII'' \<in> ?C" "''Unicode text, UTF-7'' \<in> ?C" "''Unicode text, UTF-8 (with BOM)'' \<in> ?C"
      "''Unicode text, UTF-8'' \<in> ?C" "''Unicode text, UTF-32, little-endian'' \<in> ?C" "''Unicode text, UTF-32, big-endian'' \<in> ?C"
      "''Unicode text, UTF-16, little-endian'' \<in> ?C" "''Unicode text, UTF-16, big-endian'' \<in> ?C" "''ISO-8859'' \<in> ?C"
      "''Non-ISO extended-ASCII'' \<in> ?C" "''EBCDIC'' \<in> ?C" "''International EBCDIC'' \<in> ?C"
    by (simp_all only: insert_iff simp_thms)
  define C where "C = ?C"
  note in_C = u [folded C_def] a [folded C_def]
  show ?thesis
    unfolding C_def [symmetric] file_encoding_def option.case Let_def case_prod_beta
    by (intro if_e_code; simp add: in_C)
qed

lemma e_code_bytes:
  "length (bytes_of (e_code (file_encoding m (Some b) e))) \<le> 1000 \<and> 0 \<notin> set (bytes_of (e_code (file_encoding m (Some b) e)))"
  using e_code_in [of m b e] by (auto simp: bytes_of_def)


lemma builtin_report_text:
  assumes "builtin_report big lt code buf = Some t" and "length code \<le> 1000" and "0 \<notin> set code"
  shows "length t \<le> 1024" "t \<noteq> []" "0 \<notin> set t" "last t \<noteq> 0x20"
proof -
  have "length t \<le> 1024 \<and> t \<noteq> [] \<and> 0 \<notin> set t \<and> last t \<noteq> 0x20"
    using assms tartype_short [of "is_tar buf"]
    unfolding builtin_report_def Let_def by (auto simp: bytes_of_def split: if_splits)
  then show "length t \<le> 1024" "t \<noteq> []" "0 \<notin> set t" "last t \<noteq> 0x20" by simp_all
qed

lemma detectors_plain:
  assumes "ms_flags ms = 0"
  shows "file_is_tar b ms = (if is_tar (b_fbuf b) \<in> {1, 2, 3} then say ms (tartype ! nat (is_tar (b_fbuf b) - 1)) else (0, ms))"
    and "file_is_json b ms = (let jt = fst (json_parse (b_fbuf b) (replicate JSON_MAX 0) 0) in
      if jt = 0 then (0, ms) else say ms ((if jt = 1 then [] else bytes_of ''New Line Delimited '') @ bytes_of ''JSON text data''))"
    and "file_is_csv lt (Some code) b ms = (if lt \<and> csv_parse (b_fbuf b) then say ms (bytes_of ''CSV '' @ code @ bytes_of '' text'') else (0, ms))"
    and "file_is_simh big b ms = (if simh_parse big (b_fbuf b) then say ms (bytes_of ''SIMH tape data'') else (0, ms))"
proof -
  have k: "is_tar (b_fbuf b) \<in> {1, 2, 3} \<longleftrightarrow> \<not> (is_tar (b_fbuf b) < 1 \<or> is_tar (b_fbuf b) > 3)" by auto
  show "file_is_tar b ms = (if is_tar (b_fbuf b) \<in> {1, 2, 3} then say ms (tartype ! nat (is_tar (b_fbuf b) - 1)) else (0, ms))"
    unfolding k using assms by (simp add: file_is_tar_def Let_def)
  show "file_is_json b ms = (let jt = fst (json_parse (b_fbuf b) (replicate JSON_MAX 0) 0) in
      if jt = 0 then (0, ms) else say ms ((if jt = 1 then [] else bytes_of ''New Line Delimited '') @ bytes_of ''JSON text data''))"
    using assms by (simp add: file_is_json_def Let_def)
  show "file_is_csv lt (Some code) b ms = (if lt \<and> csv_parse (b_fbuf b) then say ms (bytes_of ''CSV '' @ code @ bytes_of '' text'') else (0, ms))"
    using assms by (simp add: file_is_csv_def Let_def bytes_of_def)
  show "file_is_simh big b ms = (if simh_parse big (b_fbuf b) then say ms (bytes_of ''SIMH tape data'') else (0, ms))"
    using assms by (simp add: file_is_simh_def Let_def)
qed

lemma builtin_chain:
  assumes "fresh ms" and "ms_flags ms = 0" and "builtin_report big lt code (b_fbuf b) = Some t"
    and "length code \<le> 1000" and "0 \<notin> set code"
  shows "and_then (attempt MAGIC_NO_CHECK_TAR (file_is_tar b) (0, 0, ms))
      (\<lambda>s. and_then (attempt MAGIC_NO_CHECK_JSON (file_is_json b) s)
       (\<lambda>s. and_then (attempt MAGIC_NO_CHECK_CSV (file_is_csv lt (Some code) b) s)
        (\<lambda>s. and_then (attempt MAGIC_NO_CHECK_SIMH (file_is_simh big b) s) rest))) =
    (True, 1, 0, append_out ms t)"
proof -
  note t = builtin_report_text [OF assms(3-5)]
  note found = attempt_found [OF assms(1,2)] and missed = attempt_missed [OF assms(2)]
  note d = detectors_plain [OF assms(2)]
  let ?jt = "fst (json_parse (b_fbuf b) (replicate JSON_MAX 0) 0)"
  consider (tar) "is_tar (b_fbuf b) \<in> {1, 2, 3}" | (json) "is_tar (b_fbuf b) \<notin> {1, 2, 3}" "?jt \<noteq> 0"
    | (csv) "is_tar (b_fbuf b) \<notin> {1, 2, 3}" "?jt = 0" "lt \<and> csv_parse (b_fbuf b)"
    | (simh) "is_tar (b_fbuf b) \<notin> {1, 2, 3}" "?jt = 0" "\<not> (lt \<and> csv_parse (b_fbuf b))"
    by blast
  then show ?thesis
  proof cases
    case tar
    then have "file_is_tar b ms = say ms t" using assms(3) d(1) by (simp add: builtin_report_def)
    from found [of "file_is_tar b", OF this t(1)] show ?thesis by (simp add: and_then_def)
  next
    case json
    have "file_is_json b ms = say ms t"
      using assms(3) d(2) json by (auto simp: builtin_report_def Let_def bytes_of_def split: if_splits)
    with json d(1) show ?thesis
      by (simp add: missed found [of "file_is_json b", OF _ t(1)] and_then_def)
  next
    case csv
    have "file_is_csv lt (Some code) b ms = say ms t" using assms(3) d(3) csv by (simp add: builtin_report_def)
    note found [of "file_is_csv lt (Some code) b", OF this t(1)]
    moreover have "file_is_tar b ms = (0, ms)" "file_is_json b ms = (0, ms)" using csv(1,2) d(1,2) by simp_all
    ultimately show ?thesis by (simp add: missed and_then_def)
  next
    case simh
    have "file_is_simh big b ms = say ms t" using assms(3) d(4) simh by (auto simp: builtin_report_def split: if_splits)
    note found [of "file_is_simh big b", OF this t(1)]
    moreover have "file_is_tar b ms = (0, ms)" "file_is_json b ms = (0, ms)" "file_is_csv lt (Some code) b ms = (0, ms)"
      using simh d(1-3) by auto
    ultimately show ?thesis by (simp add: missed and_then_def)
  qed
qed


text \<open>Engines that find nothing, for the witnesses.\<close>

definition en0 :: engines where
  "en0 = \<lparr>en_zmagic = (\<lambda>b ms. (0, ms)), en_cdf = (\<lambda>b ms. (0, ms)), en_elf = (\<lambda>b ms. (0, ms)),
     en_soft = (\<lambda>l b ms. (0, ms)), en_asc = (\<lambda>l b ms. (0, ms))\<rparr>"

text \<open>C16.  The dispatcher reports the first built-in test that matches.  For a plain query on a file of at least
  two bytes that is not compressed, if one of the tar, JSON, CSV and SIMH tests matches, the answer is 1
  and the output is exactly the description of the first one that does, whatever the later tests would say.\<close>

theorem file_buffer_builtin:
  assumes "fresh ms" and "ms_flags ms = 0" and "2 \<le> length (b_fbuf b)" and "en_zmagic en b ms = (0, ms)"
    and "e = file_encoding (ms_encoding_max ms) (Some (b_fbuf b)) enc_unset"
    and "builtin_report big (e_rv e \<noteq> 0) (bytes_of (e_code e)) (b_fbuf b) = Some t"
  shows "fst (file_buffer en big b ms) = 1 \<and> printed (snd (file_buffer en big b ms)) = t"
proof -
  have c: "length (bytes_of (e_code e)) \<le> 1000" "0 \<notin> set (bytes_of (e_code e))"
    using e_code_bytes unfolding assms(5) by blast+
  note t = builtin_report_text [OF assms(6) c]
  have ct: "cstr t = t" using t(3) by (auto simp: cstr_def takeWhile_eq_all_conv)
  have "ms_buf (append_out ms t) = Some t" using assms(1) by (simp add: append_out_def fresh_def ct)
  then have tr: "trim_separator (append_out ms t) = append_out ms t" using t by (intro trim_other)
  have "b_fbuf b \<noteq> []" "length (b_fbuf b) \<noteq> 1" using assms(3) by auto
  then show ?thesis
    using assms(4) tr fresh_printed [OF assms(1)] ct
    unfolding file_buffer_def Let_def assms(5) [symmetric]
    by (simp add: assms(2) builtin_chain [OF assms(1,2,6) c] fb_done_def Let_def)
qed

theorem file_buffer_builtin_witness:
  "fst (file_buffer en0 False \<lparr>b_fbuf = [0x5b, 0x5d], b_fd = -1, b_regular = False, b_file = None\<rparr> ms0) = 1 \<and>
    printed (snd (file_buffer en0 False \<lparr>b_fbuf = [0x5b, 0x5d], b_fd = -1, b_regular = False, b_file = None\<rparr> ms0)) = bytes_of ''JSON text data''"
proof (rule file_buffer_builtin [OF _ _ _ _ refl])
  have "fst (json_parse [0x5b, 0x5d] (replicate JSON_MAX 0) 0) = 1" by code_simp
  then show "builtin_report False
     (e_rv (file_encoding (ms_encoding_max ms0) (Some (b_fbuf \<lparr>b_fbuf = [0x5b, 0x5d], b_fd = -1, b_regular = False, b_file = None\<rparr>)) enc_unset) \<noteq> 0)
     (bytes_of (e_code (file_encoding (ms_encoding_max ms0) (Some (b_fbuf \<lparr>b_fbuf = [0x5b, 0x5d], b_fd = -1, b_regular = False, b_file = None\<rparr>)) enc_unset)))
     (b_fbuf \<lparr>b_fbuf = [0x5b, 0x5d], b_fd = -1, b_regular = False, b_file = None\<rparr>) = Some (bytes_of ''JSON text data'')"
    by (simp add: builtin_report_def is_tar_def RECORDSIZE_def)
qed (simp_all add: fresh_def ms0_def had_err_def en0_def)

text \<open>An empty file is described without consulting any test: \<open>empty\<close> in a plain query, and the type and
  encoding of an empty file in a MIME query.\<close>

theorem file_buffer_empty:
  assumes "fresh ms" and "b_fbuf b = []"
  shows "(ms_flags ms = 0 \<longrightarrow> fst (file_buffer en big b ms) = 1 \<and> printed (snd (file_buffer en big b ms)) = bytes_of ''empty'') \<and>
    (ms_flags ms = MAGIC_MIME \<longrightarrow> fst (file_buffer en big b ms) = 1 \<and>
      printed (snd (file_buffer en big b ms)) = bytes_of ''application/x-empty; charset=binary'')"
proof (intro conjI impI)
  have pr: "file_printf ms' u = (0, append_out ms' u)" if "\<not> had_err ms'" "ms_blen ms' \<le> 100" "length u \<le> 100" for ms' u
    using that by (simp add: file_printf_def too_long_def)
  note ms = assms(1) [unfolded fresh_def]
  assume "ms_flags ms = 0"
  then have "file_buffer en big b ms = (1, append_out ms (bytes_of ''empty''))"
    using ms by (simp add: file_buffer_def assms(2) fb_simple_def file_default_def pr fb_done_def Let_def
      append_out_def trim_separator_def FILE_SEPARATOR_def bytes_of_def cstr_def)
  then show "fst (file_buffer en big b ms) = 1" "printed (snd (file_buffer en big b ms)) = bytes_of ''empty''"
    using fresh_printed [OF assms(1)] by (simp_all add: cstr_def bytes_of_def)
next
  have pr: "file_printf ms' u = (0, append_out ms' u)" if "\<not> had_err ms'" "ms_blen ms' \<le> 100" "length u \<le> 100" for ms' u
    using that by (simp add: file_printf_def too_long_def)
  note ms = assms(1) [unfolded fresh_def]
  assume fl: "ms_flags ms = MAGIC_MIME"
  have "has (MAGIC_MIME) MAGIC_MIME" "has (MAGIC_MIME) MAGIC_MIME_TYPE" "has (MAGIC_MIME) MAGIC_MIME_ENCODING" by code_simp+
  with fl have "file_buffer en big b ms =
      (1, append_out (append_out (append_out ms (bytes_of ''application/x-empty'')) (bytes_of ''; charset='')) (bytes_of ''binary''))"
    using ms by (simp add: file_buffer_def assms(2) fb_simple_def file_default_def say_def pr fb_done_def Let_def
      append_out_def trim_separator_def FILE_SEPARATOR_def bytes_of_def cstr_def)
  then show "fst (file_buffer en big b ms) = 1"
    "printed (snd (file_buffer en big b ms)) = bytes_of ''application/x-empty; charset=binary''"
    using ms by (simp_all add: printed_append) (simp add: printed_def cstr_def bytes_of_def)
qed

theorem file_buffer_empty_witness:
  "fst (file_buffer en0 False \<lparr>b_fbuf = [], b_fd = -1, b_regular = False, b_file = None\<rparr> ms0) = 1 \<and>
    printed (snd (file_buffer en0 False \<lparr>b_fbuf = [], b_fd = -1, b_regular = False, b_file = None\<rparr> ms0)) = bytes_of ''empty''"
proof -
  have "fresh ms0" "ms_flags ms0 = 0" by (simp_all add: fresh_def ms0_def had_err_def)
  with file_buffer_empty [of ms0 "\<lparr>b_fbuf = [], b_fd = -1, b_regular = False, b_file = None\<rparr>" en0 False] show ?thesis by simp
qed

end
