(* ===== verification/Der.thy ===== *)
theory Der
  imports Funcs Bytes
begin

text \<open>
  ASN.1 DER elements (\<^verbatim>\<open>src/der.c\<close>): the tag and length readers that the soft magic type \<^verbatim>\<open>der\<close> uses,
  the printing of tags and contents, the offset computation for nested elements and the comparison
  of an element with a magic value such as \<^verbatim>\<open>seq\<close>, \<^verbatim>\<open>int1=00\<close> or \<^verbatim>\<open>obj_id9=x\<close>.

  The readers index the buffer through a pointer and a claimed length, so every access is modelled
  by \<open>rd\<close>, whose result is \<open>None\<close> outside the buffer, and \<open>None\<close> is the result of an operation that
  reads there.  The lemmas show that this never happens when the claimed length is honest, that an
  accepted length stays inside the input, and what the readers return on an encoded element.
\<close>

abbreviation (input) DER_BAD :: u32 where "DER_BAD \<equiv> 0xffffffff"
abbreviation (input) DER_TAG_UTF8_STRING :: u32 where "DER_TAG_UTF8_STRING \<equiv> 0x0c"
abbreviation (input) DER_TAG_PRINTABLE_STRING :: u32 where "DER_TAG_PRINTABLE_STRING \<equiv> 0x13"
abbreviation (input) DER_TAG_IA5_STRING :: u32 where "DER_TAG_IA5_STRING \<equiv> 0x16"
abbreviation (input) DER_TAG_UTCTIME :: u32 where "DER_TAG_UTCTIME \<equiv> 0x17"
abbreviation (input) DER_TAG_LAST :: u32 where "DER_TAG_LAST \<equiv> 0x25"

definition der__tag :: "string list" where
  "der__tag =
    [''eoc'', ''bool'', ''int'', ''bit_str'', ''octet_str'',
     ''null'', ''obj_id'', ''obj_desc'', ''ext'', ''real'',
     ''enum'', ''embed'', ''utf8_str'', ''rel_oid'', ''time'',
     ''res2'', ''seq'', ''set'', ''num_str'', ''prt_str'',
     ''t61_str'', ''vid_str'', ''ia5_str'', ''utc_time'', ''gen_time'',
     ''gr_str'', ''vis_str'', ''gen_str'', ''univ_str'', ''char_str'',
     ''bmp_str'', ''date'', ''tod'', ''datetime'', ''duration'',
     ''oid-iri'', ''rel-oid-iri'']"

subsection \<open>Reading tags and lengths\<close>

definition rd :: "u8 list \<Rightarrow> nat \<Rightarrow> u8 option" where
  "rd c p = (if p < length c then Some (c ! p) else None)"

function gettag_loop :: "u8 list \<Rightarrow> nat \<Rightarrow> nat \<Rightarrow> u32 \<Rightarrow> (u32 \<times> nat) option" where
  "gettag_loop c l p tag =
     (case rd c p of
        None \<Rightarrow> None
      | Some b \<Rightarrow>
          if 0x80 \<le> b
          then (if l \<le> Suc p then Some (DER_BAD, Suc p)
                else gettag_loop c l (Suc p) (tag * 128 + ucast b - 0x80))
          else Some (tag, p))"
  by pat_completeness auto
termination gettag_loop
  by (relation "measure (\<lambda>(c, l, p, tag). l - p)") auto

definition gettag :: "u8 list option \<Rightarrow> nat \<Rightarrow> nat \<Rightarrow> (u32 \<times> nat) option" where
  "gettag cp p l =
     (case cp of
        None \<Rightarrow> Some (DER_BAD, p)
      | Some c \<Rightarrow>
          if l \<le> p then Some (DER_BAD, p)
          else (case rd c p of
                  None \<Rightarrow> None
                | Some b \<Rightarrow>
                    (let tag = ucast b AND 0x1f in
                     if tag \<noteq> 0x1f then Some (tag, Suc p)
                     else if l \<le> Suc p then Some (DER_BAD, Suc p)
                     else gettag_loop c l (Suc p) tag)))"

fun getlength_digits :: "u8 list \<Rightarrow> nat \<Rightarrow> nat \<Rightarrow> u64 \<Rightarrow> (u64 \<times> nat) option" where
  "getlength_digits c 0 p len = Some (len, p)"
| "getlength_digits c (Suc k) p len =
     (case rd c p of
        None \<Rightarrow> None
      | Some b \<Rightarrow> getlength_digits c k (Suc p) (push_bit 8 len OR ucast b))"

definition getlength :: "u8 list \<Rightarrow> nat \<Rightarrow> nat \<Rightarrow> (u32 \<times> nat) option" where
  "getlength c p l =
     (if l \<le> p then Some (DER_BAD, p)
      else case rd c p of
        None \<Rightarrow> None
      | Some b \<Rightarrow>
          (let is_onebyte_result = (b AND 0x80 = 0); digits = b AND 0x7f; p = Suc p in
           if l \<le> p + unat digits then Some (DER_BAD, p)
           else if is_onebyte_result then Some (ucast digits, p)
           else case getlength_digits c (unat digits) p 0 of
               None \<Rightarrow> None
             | Some (len, p) \<Rightarrow>
                 if 0xffffffff - word_of_nat p < len \<or> l < unat (word_of_nat p + len)
                 then Some (DER_BAD, p) else Some (ucast len, p)))"

subsection \<open>Names and contents\<close>

definition hex_digit :: "nat \<Rightarrow> u8" where
  "hex_digit d = (if d < 10 then word_of_nat (0x30 + d) else word_of_nat (0x57 + d))"

text \<open>The digits of \<^verbatim>\<open>%x\<close>, at most \<open>k\<close> of them.\<close>

fun hex_digits :: "nat \<Rightarrow> nat \<Rightarrow> u8 list" where
  "hex_digits 0 n = []"
| "hex_digits (Suc k) n = (if n < 16 then [] else hex_digits k (n div 16)) @ [hex_digit (n mod 16)]"

definition der_tag :: "nat \<Rightarrow> u32 \<Rightarrow> u8 list" where
  "der_tag len tag =
     take (len - 1) (if tag < DER_TAG_LAST then bytes_of (der__tag ! unat tag)
                     else [0x30, 0x78] @ hex_digits 8 (unat tag))"

text \<open>\<^verbatim>\<open>%.*s\<close> with the precision \<open>n\<close>: the characters from \<open>p\<close> up to a NUL or the precision, whichever
  is first.\<close>

fun read_str :: "u8 list \<Rightarrow> nat \<Rightarrow> nat \<Rightarrow> u8 list option" where
  "read_str c p 0 = Some []"
| "read_str c p (Suc n) =
     (case rd c p of
        None \<Rightarrow> None
      | Some b \<Rightarrow> if b = 0 then Some [] else map_option ((#) b) (read_str c (Suc p) n))"

text \<open>The hexadecimal loop over the contents at \<open>q\<close>; \<open>buf\<close> is the string in the caller's buffer.\<close>

function hex_loop :: "u8 list \<Rightarrow> nat \<Rightarrow> nat \<Rightarrow> nat \<Rightarrow> nat \<Rightarrow> u8 list \<Rightarrow> u8 list option" where
  "hex_loop c q blen len i buf =
     (if len \<le> i then Some buf
      else
        (let z = unat (push_bit 1 (word_of_nat i :: u32)) in
         if z < blen - 2
         then (case rd c (q + i) of
                 None \<Rightarrow> None
               | Some d \<Rightarrow> hex_loop c q blen len (Suc i)
                     (take z buf @ [hex_digit (unat d div 16), hex_digit (unat d mod 16)]))
         else hex_loop c q blen len (Suc i) buf))"
  by pat_completeness auto
termination hex_loop
  by (relation "measure (\<lambda>(c, q, blen, len, i, buf). len - i)") auto

definition utc_time :: "u8 list \<Rightarrow> u8 list" where
  "utc_time d = bytes_of ''20'' @ [d ! 0, d ! 1, 0x2d, d ! 2, d ! 3, 0x2d, d ! 4, d ! 5, 0x20,
     d ! 6, d ! 7, 0x3a, d ! 8, d ! 9, 0x3a, d ! 10, d ! 11] @ bytes_of '' GMT''"

text \<open>A precision of more than \<open>INT_MAX\<close> is negative as an \<^verbatim>\<open>int\<close>, which \<^verbatim>\<open>snprintf\<close> takes for no
  precision: the string then ends at the first NUL, wherever it is.\<close>

definition der_data :: "u8 list \<Rightarrow> nat \<Rightarrow> u32 \<Rightarrow> u8 list \<Rightarrow> nat \<Rightarrow> u32 \<Rightarrow> u8 list option" where
  "der_data buf blen tag c q len =
     (if tag = DER_TAG_PRINTABLE_STRING \<or> tag = DER_TAG_UTF8_STRING \<or> tag = DER_TAG_IA5_STRING
      then map_option (take (blen - 1))
             (read_str c q (if len < 0x80000000 then unat len else Suc (length c)))
      else if tag = DER_TAG_UTCTIME \<and> 12 \<le> len
      then (if length c < q + 12 then None else Some (take (blen - 1) (cstr (utc_time (drop q c)))))
      else hex_loop c q blen (unat len) 0 buf)"

subsection \<open>Offsets and comparison\<close>

definition der_offs :: "magic_set \<Rightarrow> magic \<Rightarrow> nat \<Rightarrow> (int \<times> magic_set) option" where
  "der_offs ms m nbytes =
     (let b = ms_search_s ms; len = (if ms_search_len ms \<noteq> 0 then ms_search_len ms else nbytes) in
      case gettag b 0 len of
        None \<Rightarrow> None
      | Some (tag, offs) \<Rightarrow>
          if tag = DER_BAD then Some (-1, ms)
          else case getlength (the b) offs len of
              None \<Rightarrow> None
            | Some (tlen, offs) \<Rightarrow>
                if tlen = DER_BAD then Some (-1, ms)
                else
                  (let offs = offs + unat (ms_offset ms + m_offset m);
                       cl = unat (m_cont_level m) in
                   if cl \<noteq> 0
                   then (if nbytes < offs + unat tlen then Some (-1, ms)
                         else if length (ms_li ms) < cl then None
                         else Some (sint (word_of_nat offs :: u32),
                                ms\<lparr>ms_li := (ms_li ms)[cl - 1 :=
                                   (ms_li ms ! (cl - 1))\<lparr>li_off := word_of_nat (offs + unat tlen)\<rparr>]\<rparr>))
                   else Some (sint (word_of_nat offs :: u32), ms)))"

definition strlcpy_value :: "magic_set \<Rightarrow> u8 list \<Rightarrow> magic_set" where
  "strlcpy_value ms buf =
     (let s = take (MAXstring - 1) buf in
      ms\<lparr>ms_value := s @ [0] @ drop (Suc (length s)) (ms_value ms)\<rparr>)"

fun dec_value :: "u8 list \<Rightarrow> u64 \<Rightarrow> u64" where
  "dec_value [] n = n"
| "dec_value (d # ds) n = dec_value ds (n * 10 + ucast d - 0x30)"

text \<open>What the part of the magic value after the tag name asks for: nothing more, a comparison of
  the contents with the rest, or no match.\<close>

datatype der_want = Matched | Contents "u8 list" | Mismatch

function der_again :: "u32 \<Rightarrow> u8 list \<Rightarrow> der_want" where
  "der_again tlen s =
     (case s of
        [] \<Rightarrow> Matched
      | ch # t \<Rightarrow>
          if ch = 0x3d then Contents t
          else if \<not> isdigit ch then Mismatch
          else if ucast tlen \<noteq> dec_value (takeWhile isdigit s) 0 then Mismatch
          else der_again tlen (dropWhile isdigit s))"
  by pat_completeness auto
termination der_again
proof (relation "measure (\<lambda>(tlen, s). length s)")
  fix tlen :: u32 and s t :: "u8 list" and ch :: u8
  assume "s = ch # t" "\<not> \<not> isdigit ch"
  then show "((tlen, dropWhile isdigit s), tlen, s) \<in> measure (\<lambda>(tlen, s). length s)"
    by (simp add: le_imp_less_Suc length_dropWhile_le)
qed simp

definition der_cmp :: "magic_set \<Rightarrow> magic \<Rightarrow> (int \<times> magic_set) option" where
  "der_cmp ms m =
     (let b = ms_search_s ms; len = ms_search_len ms; s = cstr (m_value m) in
      case gettag b 0 len of
        None \<Rightarrow> None
      | Some (tag, offs) \<Rightarrow>
          if tag = DER_BAD then Some (-1, ms)
          else case getlength (the b) offs len of
              None \<Rightarrow> None
            | Some (tlen, offs) \<Rightarrow>
                if tlen = DER_BAD then Some (-1, ms)
                else
                  (let buf = der_tag 128 tag; slen = length buf in
                   if take slen s \<noteq> buf then Some (0, ms)
                   else case der_again tlen (drop slen s) of
                       Matched \<Rightarrow> Some (1, ms)
                     | Mismatch \<Rightarrow> Some (0, ms)
                     | Contents t \<Rightarrow>
                         (case der_data buf 128 tag (the b) offs tlen of
                            None \<Rightarrow> None
                          | Some buf \<Rightarrow>
                              if buf \<noteq> t \<and> t \<noteq> [0x78] then Some (0, ms)
                              else Some (1, strlcpy_value ms buf))))"

declare gettag_loop.simps [simp del] hex_loop.simps [simp del] der_again.simps [simp del]
subsection \<open>The readers stay inside the input\<close>

lemma rd_Some: "p < length c \<Longrightarrow> rd c p = Some (c ! p)"
  by (simp add: rd_def)

lemma gettag_loop_safe:
  assumes "p < l" "l \<le> length c"
  shows "\<exists>t p'. gettag_loop c l p tag = Some (t, p') \<and> p \<le> p' \<and> p' \<le> l"
  using assms
proof (induction c l p tag rule: gettag_loop.induct)
  case (1 c l p tag)
  have r: "rd c p = Some (c ! p)" using 1 by (simp add: rd_Some)
  show ?case
  proof (cases "0x80 \<le> c ! p \<and> \<not> l \<le> Suc p")
    case True
    then have "\<exists>t p'. gettag_loop c l (Suc p) (tag * 128 + ucast (c ! p) - 0x80) = Some (t, p') \<and> Suc p \<le> p' \<and> p' \<le> l"
      using 1 r by simp
    with True r show ?thesis by (subst gettag_loop.simps) (auto intro: Suc_leD)
  next
    case False
    with r 1 show ?thesis by (subst gettag_loop.simps) auto
  qed
qed

lemma gettag_safe:
  assumes "l \<le> length c"
  shows "\<exists>t p'. gettag (Some c) p l = Some (t, p') \<and> p \<le> p' \<and> (p \<le> l \<longrightarrow> p' \<le> l)"
proof (cases "l \<le> p")
  case False
  then have r: "rd c p = Some (c ! p)" using assms by (simp add: rd_Some)
  show ?thesis
  proof (cases "Suc p < l")
    case True
    from gettag_loop_safe [OF this assms] show ?thesis using False r
      by (fastforce simp: gettag_def Let_def)
  qed (use False r in \<open>auto simp: gettag_def Let_def\<close>)
qed (simp add: gettag_def)

lemma getlength_digits_fold:
  "p + k \<le> length c \<Longrightarrow>
   getlength_digits c k p len = Some (fold (\<lambda>b l. push_bit 8 l OR ucast b) (take k (drop p c)) len, p + k)"
proof (induction k arbitrary: p len)
  case (Suc k)
  have "take (Suc k) (drop p c) = c ! p # take k (drop (Suc p) c)"
    using Suc.prems by (simp add: Cons_nth_drop_Suc [symmetric])
  with Suc show ?case by (simp add: rd_Some)
qed simp

lemma getlength_safe:
  assumes "l \<le> length c"
  shows "\<exists>n p'. getlength c p l = Some (n, p') \<and> p \<le> p' \<and> (p \<le> l \<longrightarrow> p' \<le> l)"
proof (cases "l \<le> p")
  case False
  then have r: "rd c p = Some (c ! p)" using assms by (simp add: rd_Some)
  let ?d = "unat (c ! p AND 0x7f)"
  have "getlength_digits c ?d (Suc p) 0 = Some (fold (\<lambda>b l. push_bit 8 l OR ucast b) (take ?d (drop (Suc p) c)) 0, Suc p + ?d)"
    if "\<not> l \<le> Suc p + ?d"
    using that assms by (intro getlength_digits_fold) simp
  with False r show ?thesis by (auto simp: getlength_def Let_def)
qed (simp add: getlength_def)

text \<open>Both readers keep one contract, on which the operations that read a header rest: with an honest
  length they read inside the buffer and leave the position inside it.\<close>

locale bounded_reader =
  fixes read :: "u8 list \<Rightarrow> nat \<Rightarrow> nat \<Rightarrow> (u32 \<times> nat) option"
  assumes inside: "l \<le> length c \<Longrightarrow> \<exists>v p'. read c p l = Some (v, p') \<and> p \<le> p' \<and> (p \<le> l \<longrightarrow> p' \<le> l)"

locale header_readers = tag: bounded_reader rtag + len: bounded_reader rlen for rtag rlen
begin

lemma header:
  assumes "l \<le> length c"
  obtains t p n q where "rtag c 0 l = Some (t, p)" "rlen c p l = Some (n, q)" "p \<le> q" "q \<le> l"
  using tag.inside [OF assms, of 0] len.inside [OF assms] by (metis le0)

end

interpretation der: header_readers "\<lambda>c. gettag (Some c)" getlength
  by unfold_locales (simp_all add: gettag_safe getlength_safe)

text \<open>An accepted length: it is not the error value, some input was consumed and the contents lie inside the
  input.\<close>

lemma getlength_accepts:
  assumes a: "getlength c p l = Some (n, p')" and n: "n \<noteq> DER_BAD" and l: "l \<le> length c" "length c < 2 ^ 32"
  shows "p < p'" "p' + unat n \<le> l"
proof -
  have p: "p < l" using a n by (auto simp: getlength_def split: if_splits)
  then have r: "rd c p = Some (c ! p)" using l by (simp add: rd_Some)
  let ?d = "c ! p AND 0x7f"
  have nb: "\<not> l \<le> Suc p + unat ?d" using a n p r by (auto simp: getlength_def Let_def)
  have "p < p' \<and> p' + unat n \<le> l"
  proof (cases "c ! p AND 0x80 = 0")
    case True
    then have "n = ucast ?d" "p' = Suc p" using a p r nb by (auto simp: getlength_def Let_def)
    moreover have "unat (ucast ?d :: u32) = unat ?d" by (rule unat_ucast_u8) simp
    ultimately show ?thesis using nb by simp
  next
    case False
    define len :: u64 where "len = fold (\<lambda>b l. push_bit 8 l OR ucast b) (take (unat ?d) (drop (Suc p) c)) 0"
    define q where "q = Suc p + unat ?d"
    have "getlength_digits c (unat ?d) (Suc p) 0 = Some (len, q)"
      using nb l unfolding len_def q_def by (intro getlength_digits_fold) simp
    then have c: "\<not> 0xffffffff - word_of_nat q < len" "\<not> l < unat (word_of_nat q + len)" "n = ucast len" "p' = q"
      using a p r nb n False by (auto simp: getlength_def Let_def split: if_splits)
    have q32: "q < 2 ^ 32" using nb l by (simp add: q_def)
    then have q: "q < 2 ^ 32" "unat (word_of_nat q :: u64) = q" by (simp_all add: unat_of_nat)
    have "unat (0xffffffff - word_of_nat q :: u64) = 0xffffffff - q"
      using q by (subst unat_sub) (auto simp: word_le_nat_alt)
    then have len: "unat len \<le> 0xffffffff - q" using c(1) by (simp add: word_less_nat_alt)
    then have "unat (word_of_nat q + len) = q + unat len"
      using q by (subst unat_add_lem [THEN iffD1]) auto
    moreover have "unat n = unat len" using len c(3) by (simp add: unsigned_ucast_eq take_bit_nat_eq_self)
    ultimately show ?thesis using c by (simp add: q_def)
  qed
  then show "p < p'" "p' + unat n \<le> l" by auto
qed

subsection \<open>Contents\<close>

lemma read_str_safe: "p + n \<le> length c \<Longrightarrow> \<exists>s. read_str c p n = Some s"
  by (induction n arbitrary: p) (auto simp: rd_Some)

lemma hex_loop_safe:
  "q + len \<le> length c \<Longrightarrow> \<exists>s. hex_loop c q blen len i buf = Some s"
proof (induction c q blen len i buf rule: hex_loop.induct)
  case (1 c q blen len i buf)
  let ?z = "unat (push_bit 1 (word_of_nat i :: u32))"
  consider "len \<le> i" | "i < len" "?z < blen - 2" | "i < len" "\<not> ?z < blen - 2" by linarith
  then show ?case
  proof cases
    case 2
    then have "rd c (q + i) = Some (c ! (q + i))" using 1(3) by (simp add: rd_Some)
    with 2 1 show ?thesis by (subst hex_loop.simps) (simp add: Let_def)
  next
    case 3
    with 1 show ?thesis by (subst hex_loop.simps) (simp add: Let_def)
  qed (simp add: hex_loop.simps)
qed

lemma hex_loop_length:
  "hex_loop c q blen len i buf = Some s \<Longrightarrow> length buf < blen \<Longrightarrow> 2 < blen \<Longrightarrow> length s < blen"
proof (induction c q blen len i buf rule: hex_loop.induct)
  case (1 c q blen len i buf)
  let ?z = "unat (push_bit 1 (word_of_nat i :: u32))"
  consider "len \<le> i" | "i < len" "?z < blen - 2" | "i < len" "\<not> ?z < blen - 2" by linarith
  then show ?case
  proof cases
    case 1
    with "1.prems" show ?thesis by (simp add: hex_loop.simps)
  next
    case 2
    with "1.prems"(1) obtain d where d: "rd c (q + i) = Some d"
      by (subst (asm) hex_loop.simps) (auto simp: Let_def split: option.splits)
    let ?b = "take ?z buf @ [hex_digit (unat d div 16), hex_digit (unat d mod 16)]"
    have "hex_loop c q blen len (Suc i) ?b = Some s"
      using "1.prems"(1) 2 d by (subst (asm) hex_loop.simps) (simp add: Let_def)
    moreover have "length ?b < blen" using 2 by simp
    ultimately show ?thesis using "1.IH"(1) [OF _ refl _ d] 2 "1.prems" by simp
  next
    case 3
    have "hex_loop c q blen len (Suc i) buf = Some s"
      using "1.prems"(1) 3 by (subst (asm) hex_loop.simps) (simp add: Let_def)
    then show ?thesis using "1.IH"(2) 3 "1.prems" by simp
  qed
qed

lemma der_data_safe:
  assumes "q + unat len \<le> length c" "len < 0x80000000"
  shows "\<exists>s. der_data buf blen tag c q len = Some s"
proof -
  have "q + 12 \<le> length c" if "12 \<le> len" using that assms by (simp add: word_le_nat_alt)
  then show ?thesis
    using assms read_str_safe [of q "unat len" c] hex_loop_safe [of q "unat len" c blen 0 buf]
    by (auto simp: der_data_def)
qed

lemma der_data_length:
  "der_data buf blen tag c q len = Some s \<Longrightarrow> length buf < blen \<Longrightarrow> 2 < blen \<Longrightarrow> length s < blen"
  by (auto simp: der_data_def dest: hex_loop_length split: if_splits)

lemma length_der_tag: "0 < len \<Longrightarrow> length (der_tag len tag) < len"
  by (auto simp: der_tag_def)

lemma der_cmp_safe_aux:
  assumes "ms_search_s ms = Some c" "ms_search_len ms \<le> length c" "length c < 2 ^ 31" "length (ms_value ms) = MAXstring"
  shows "\<exists>r ms'. der_cmp ms m = Some (r, ms') \<and> r \<in> {-1, 0, 1} \<and>
    (ms' = ms \<or> r = 1 \<and> (\<exists>s. length s < MAXstring \<and> ms' = strlcpy_value ms s \<and> length (ms_value ms') = MAXstring))"
proof -
  let ?l = "ms_search_len ms"
  obtain tag p n q where t: "gettag (Some c) 0 ?l = Some (tag, p)" and n: "getlength c p ?l = Some (n, q)"
    using der.header [OF assms(2)] by metis
  let ?r = "\<lambda>r ms'. r \<in> {-1, 0, 1} \<and> (ms' = ms \<or> r = 1 \<and> (\<exists>s. length s < MAXstring \<and> ms' = strlcpy_value ms s \<and> length (ms_value ms') = MAXstring))"
  show ?thesis
  proof (cases "tag = DER_BAD \<or> n = DER_BAD")
    case True
    with t n assms(1) show ?thesis by (auto simp: der_cmp_def Let_def)
  next
    case False
    have q: "q + unat n \<le> ?l" using getlength_accepts [OF n _ assms(2)] False assms(3) by simp
    then have "unat n < 0x80000000" using assms(2,3) by simp
    then have "n < 0x80000000" by (simp add: word_less_nat_alt)
    with q assms(2) obtain s where s: "der_data (der_tag 128 tag) 128 tag c q n = Some s"
      using der_data_safe [of q n c "der_tag 128 tag" 128 tag] by auto
    have "length s < MAXstring" using der_data_length [OF s] length_der_tag [of 128 tag] by simp
    then have "?r 1 (strlcpy_value ms s)" using assms(4) by (auto simp: strlcpy_value_def Let_def)
    with t n s False assms(1) show ?thesis
      by (auto simp: der_cmp_def Let_def split: der_want.splits)
  qed
qed

lemma der_offs_safe_aux:
  assumes "ms_search_s ms = Some c" "ms_search_len ms \<le> length c" "ms_search_len ms \<noteq> 0"
    and "unat (m_cont_level m) \<le> length (ms_li ms)"
  shows "\<exists>r ms'. der_offs ms m nbytes = Some (r, ms') \<and> length (ms_li ms') = length (ms_li ms)"
proof -
  let ?l = "ms_search_len ms"
  obtain tag p n q where t: "gettag (Some c) 0 ?l = Some (tag, p)" and n: "getlength c p ?l = Some (n, q)"
    using der.header [OF assms(2)] by metis
  show ?thesis using t n assms by (auto simp: der_offs_def Let_def)
qed

subsection \<open>What the readers return on an encoded element\<close>

text \<open>The length octets of X.690: the short form (\<open>k = 0\<close>), or the long form with \<open>k\<close> octets.\<close>

definition der_length :: "nat \<Rightarrow> nat \<Rightarrow> u8 list" where
  "der_length k n = (if k = 0 then [word_of_nat n] else word_of_nat (128 + k) # rev (to_le k n))"

definition der_length_ok :: "nat \<Rightarrow> nat \<Rightarrow> bool" where
  "der_length_ok k n \<longleftrightarrow> k < 5 \<and> n < (if k = 0 then 128 else 256 ^ k)"

lemma length_der_length [simp]: "length (der_length k n) = Suc k"
  by (simp add: der_length_def)

lemma digits_der_length:
  assumes "k < 5" "n < 256 ^ k"
  shows "getlength_digits (x # y # rev (to_le k n) @ rest) k 2 0 = Some (word_of_nat n, 2 + k)"
proof -
  have "fold (\<lambda>b l. push_bit 8 l OR ucast b) (rev (to_le k n)) (word_of_nat 0 :: u64) = word_of_nat n"
    using assms unfolding fold_shift8 by (simp add: le_nat_to_le)
  then show ?thesis by (simp add: getlength_digits_fold)
qed

lemma length_octet_short: "n < 128 \<Longrightarrow> (word_of_nat n :: u8) AND 0x80 = 0 \<and> unat ((word_of_nat n :: u8) AND 0x7f) = n"
proof -
  have "list_all (\<lambda>n. (word_of_nat n :: u8) AND 0x80 = 0 \<and> unat ((word_of_nat n :: u8) AND 0x7f) = n) [0..<128]"
    by code_simp
  then show "n < 128 \<Longrightarrow> ?thesis" by (rule list_all_uptD) simp_all
qed

lemma length_octet_long:
  "k < 5 \<Longrightarrow> (word_of_nat (128 + k) :: u8) AND 0x80 \<noteq> 0 \<and> unat ((word_of_nat (128 + k) :: u8) AND 0x7f) = k"
proof -
  have "list_all (\<lambda>k. (word_of_nat (128 + k) :: u8) AND 0x80 \<noteq> 0 \<and> unat ((word_of_nat (128 + k) :: u8) AND 0x7f) = k) [0..<5]"
    by code_simp
  then show "k < 5 \<Longrightarrow> ?thesis" by (rule list_all_uptD) simp_all
qed

lemma gettag_element:
  assumes "ucast ident AND (0x1f :: u32) \<noteq> 0x1f"
  shows "gettag (Some (ident # c)) 0 (Suc (length c)) = Some (ucast ident AND 0x1f, 1)"
  using assms by (simp add: gettag_def rd_def Let_def)

lemma getlength_short:
  assumes "n < 128"
  shows "getlength (ident # word_of_nat n # rest) 1 (length rest + 2) =
    Some (if n < length rest then word_of_nat n else DER_BAD, 2)"
proof -
  let ?b = "word_of_nat n :: u8"
  note s = length_octet_short [OF assms]
  have "unat (ucast (?b AND 0x7f) :: u32) = n" using s by (subst unat_ucast_u8) simp_all
  then have "(ucast (?b AND 0x7f) :: u32) = word_of_nat n" using assms by (simp only: word_unat_eq_iff) (simp add: unat_word_of_nat)
  with s show ?thesis by (simp add: getlength_def rd_def Let_def)
qed

lemma getlength_long:
  assumes "0 < k" "k < 5" "n < 256 ^ k" "length rest + k + 2 < 2 ^ 32"
  shows "getlength (ident # word_of_nat (128 + k) # rev (to_le k n) @ rest) 1 (length rest + k + 2) =
    Some (if rest \<noteq> [] \<and> n \<le> length rest then word_of_nat n else DER_BAD, if rest = [] then 2 else k + 2)"
proof -
  define q where "q = k + 2"
  let ?b = "word_of_nat (128 + k) :: u8" and ?w = "word_of_nat n :: u64" and ?p = "word_of_nat q :: u64"
  note s = length_octet_long [OF assms(2)]
  have d: "getlength_digits (ident # ?b # rev (to_le k n) @ rest) k (Suc (Suc 0)) 0 = Some (word_of_nat n, q)"
    using digits_der_length [OF assms(2,3)] by (simp add: q_def numeral_2_eq_2)
  have "(256 :: nat) ^ k \<le> 256 ^ 4" using assms(2) by (intro power_increasing) auto
  then have n: "n < 2 ^ 32" using assms(3) by simp
  then have u: "unat ?w = n" by (intro unat_word_of_nat) simp
  have v: "unat ?p = q" using assms(2) by (intro unat_word_of_nat) (simp add: q_def)
  have p: "unat (0xffffffff - ?p) = 0xffffffff - q"
    using assms(2) v by (subst unat_sub) (auto simp: word_le_nat_alt q_def)
  have q: "unat (?p + ?w) = q + n"
    using n u v assms(2) by (subst unat_add_lem [THEN iffD1]) (auto simp: q_def)
  have "(0xffffffff - ?p < ?w \<or> length rest + k + 2 < unat (?p + ?w)) \<longleftrightarrow> length rest < n"
    using assms(4) unfolding word_less_nat_alt p q u v by (auto simp: q_def)
  moreover have "(ucast ?w :: u32) = word_of_nat n"
    using n by (simp add: word_unat_eq_iff unsigned_ucast_eq unsigned_of_nat take_bit_nat_eq_self)
  ultimately show ?thesis
    using s d by (simp add: getlength_def rd_def Let_def del: of_nat_add) (simp add: q_def)
qed

lemma getlength_element:
  assumes "der_length_ok k n" "length rest + k + 2 < 2 ^ 32"
  shows "\<exists>p. getlength (ident # der_length k n @ rest) 1 (length rest + k + 2) =
    (if n < length rest \<or> n = length rest \<and> k \<noteq> 0 \<and> n \<noteq> 0 then Some (word_of_nat n, k + 2) else Some (DER_BAD, p))"
proof (cases "k = 0")
  case True
  with assms show ?thesis
    using getlength_short [of n ident rest] by (auto simp: der_length_def der_length_ok_def)
next
  case False
  with assms show ?thesis
    using getlength_long [of k n rest ident] by (auto simp: der_length_def der_length_ok_def)
qed

subsection \<open>Matching an element against a magic value\<close>

lemma dec_value_append: "dec_value (xs @ ys) n = dec_value ys (dec_value xs n)"
  by (induction xs arbitrary: n) auto

lemma dec_value_digits: "n < 10 ^ k \<Longrightarrow> dec_value (dec_digits k n) 0 = word_of_nat n"
proof (induction k arbitrary: n)
  case (Suc k)
  have d: "ucast (word_of_nat (48 + n mod 10) :: u8) - 0x30 = (word_of_nat (n mod 10) :: u64)"
  proof -
    have "list_all (\<lambda>d. ucast (word_of_nat (48 + d) :: u8) - 0x30 = (word_of_nat d :: u64)) [0..<10]" by code_simp
    then show ?thesis by (rule list_all_uptD) simp_all
  qed
  have "n div 10 < 10 ^ k" using Suc.prems by (simp add: less_mult_imp_div_less)
  then have "dec_value (dec_digits k (n div 10)) 0 = word_of_nat (n div 10)" by (rule Suc.IH)
  moreover have "word_of_nat n = (word_of_nat (n div 10) * 10 + word_of_nat (n mod 10) :: u64)"
    by (metis div_mult_mod_eq of_nat_add of_nat_mult of_nat_numeral)
  moreover have "dec_value [w] a = a * 10 + (ucast w - 0x30)" for w a by simp
  ultimately show ?case using d
    by (cases "n < 10") (auto simp: dec_value_append simp del: of_nat_add)
qed simp

lemma dec_digits_isdigit: "list_all isdigit (dec_digits k n)"
proof (induction k arbitrary: n)
  case (Suc k)
  have "list_all (\<lambda>d. isdigit (word_of_nat (48 + d))) [0..<10]" by code_simp
  then have "isdigit (word_of_nat (48 + n mod 10))" by (rule list_all_uptD) simp_all
  with Suc show ?case by simp
qed simp

lemma show_nat_digits: "list_all isdigit (show_nat n)" "show_nat n \<noteq> []"
  using dec_digits.simps(2) [of 19 n] dec_digits_isdigit [of 20 n] by (simp_all only: show_nat_def) simp

lemma der_again_number:
  assumes "k < 10 ^ 19" "n < 2 ^ 32" "s = [] \<or> \<not> isdigit (hd s)"
  shows "der_again (word_of_nat n) (show_nat k @ s) = (if k = n then der_again (word_of_nat n) s else Mismatch)"
proof -
  obtain d ds where d: "show_nat k = d # ds" using show_nat_digits(2) by (cases "show_nat k") auto
  have tw: "takeWhile isdigit (show_nat k @ s) = show_nat k" "dropWhile isdigit (show_nat k @ s) = s"
    using show_nat_digits(1) [of k] assms(3) by (cases s; auto simp: list_all_iff)+
  have "isdigit d" "d \<noteq> 0x3d" using show_nat_digits(1) [of k] d by (auto simp: isdigit_def)
  moreover have "dec_value (show_nat k) 0 = word_of_nat k"
    using assms(1) unfolding show_nat_def by (intro dec_value_digits) simp
  moreover have "ucast (word_of_nat n :: u32) = (word_of_nat k :: u64) \<longleftrightarrow> k = n"
    using assms(1,2) by (simp add: word_unat_eq_iff unsigned_ucast_eq unsigned_of_nat take_bit_nat_eq_self) auto
  ultimately show ?thesis
    using tw d by (subst der_again.simps) (simp only: append_Cons list.case if_False if_True simp_thms, simp)
qed

lemma der_cmp_parsed:
  assumes "ms_search_s ms = Some c" "gettag (Some c) 0 (ms_search_len ms) = Some (tag, p)" "tag \<noteq> DER_BAD"
    and "getlength c p (ms_search_len ms) = Some (n, q)" "n \<noteq> DER_BAD"
    and "cstr (m_value m) = der_tag 128 tag @ s"
  shows "der_again n s = Matched \<Longrightarrow> der_cmp ms m = Some (1, ms)"
    and "der_again n s = Mismatch \<Longrightarrow> der_cmp ms m = Some (0, ms)"
    and "der_again n s = Contents [0x78] \<Longrightarrow> der_data (der_tag 128 tag) 128 tag c q n = Some d \<Longrightarrow>
      der_cmp ms m = Some (1, strlcpy_value ms d)"
  using assms by (simp_all add: der_cmp_def Let_def)


text \<open>C21. With a search region inside the file, neither the comparison nor the offset computation
  reads outside it, whatever the bytes: the comparison answers -1, 0 or 1 and changes the query only
  by storing a string that fits the value union; the offset computation touches no level but the
  parent's.\<close>

theorem der_safe:
  assumes "ms_search_s ms = Some c" "ms_search_len ms \<le> length c" "length c < 2 ^ 31"
    and "length (ms_value ms) = MAXstring"
  shows "(\<exists>r ms'. der_cmp ms m = Some (r, ms') \<and> r \<in> {-1, 0, 1} \<and>
      (ms' = ms \<or> r = 1 \<and> (\<exists>s. length s < MAXstring \<and> ms' = strlcpy_value ms s \<and> length (ms_value ms') = MAXstring))) \<and>
    (ms_search_len ms \<noteq> 0 \<and> unat (m_cont_level m) \<le> length (ms_li ms) \<longrightarrow>
      (\<exists>r ms'. der_offs ms m nbytes = Some (r, ms') \<and> length (ms_li ms') = length (ms_li ms)))"
  using der_cmp_safe_aux [OF assms] der_offs_safe_aux [OF assms(1,2)] by blast

theorem der_safe_witness:
  "(\<exists>r ms'. der_cmp (ms0\<lparr>ms_search_s := Some [0x30, 0x84], ms_search_len := 2, ms_value := replicate 128 0\<rparr>) m0 = Some (r, ms')) \<and>
   (\<exists>r ms'. der_offs (ms0\<lparr>ms_search_s := Some [0x30, 0x84], ms_search_len := 2, ms_value := replicate 128 0\<rparr>) m0 2 = Some (r, ms'))"
  using der_safe [of "ms0\<lparr>ms_search_s := Some [0x30, 0x84], ms_search_len := 2, ms_value := replicate 128 0\<rparr>" "[0x30, 0x84]" m0 2]
  by (auto simp: m0_def)

end
