(* ===== verification/Cdf_Time.thy ===== *)
theory Cdf_Time
  imports Prelude "HOL-Library.Signed_Division"
begin

text \<open>
  Windows timestamps (\<^verbatim>\<open>src/cdf_time.c\<close>): a count of 100-nanosecond units since 1601-01-01, broken down into
  a calendar date for \<^verbatim>\<open>mktime\<close>, which is a parameter.  \<^verbatim>\<open>cdf_timestamp_t\<close> is a signed 64-bit number whose
  quotients and remainders truncate towards zero (\<open>sdiv\<close>, \<open>smod\<close>).

  The year is guessed as one per 365 days, so it may be ahead of the date; the day in the year is then
  not positive and \<^verbatim>\<open>mktime\<close> normalises it.  The theorem gives the day that the broken-down date denotes: it
  is the day of the timestamp except on the last day of a month.
\<close>

abbreviation (input) CDF_BASE_YEAR :: int where "CDF_BASE_YEAR \<equiv> 1601"
abbreviation (input) CDF_TIME_PREC :: int where "CDF_TIME_PREC \<equiv> 10000000"

definition isleap :: "int \<Rightarrow> bool" where
  "isleap y \<longleftrightarrow> y smod 4 = 0 \<and> (y smod 100 \<noteq> 0 \<or> y smod 400 = 0)"

definition mdays :: "int list" where
  "mdays = [31, 28, 31, 30, 31, 30, 31, 31, 30, 31, 30, 31]"

fun getdays_loop :: "nat \<Rightarrow> int \<Rightarrow> int \<Rightarrow> int" where
  "getdays_loop 0 y days = days"
| "getdays_loop (Suc n) y days = getdays_loop n (y + 1) (days + ((if isleap y then 1 else 0) + 365))"

definition cdf_getdays :: "int \<Rightarrow> int" where
  "cdf_getdays year = getdays_loop (nat (year - CDF_BASE_YEAR)) CDF_BASE_YEAR 0"

text \<open>The loops over the months: \<open>m\<close> is the index, \<open>ms\<close> the rest of the table.\<close>

fun getday_loop :: "int \<Rightarrow> nat \<Rightarrow> int list \<Rightarrow> int \<Rightarrow> int" where
  "getday_loop year m [] days = days"
| "getday_loop year m (d # ms) days =
     (let sub = d + (if m = 1 \<and> isleap year then 1 else 0) in
      if days < sub then days else getday_loop year (Suc m) ms (days - sub))"

definition cdf_getday :: "int \<Rightarrow> int \<Rightarrow> int" where
  "cdf_getday year days = getday_loop year 0 mdays days"

fun getmonth_loop :: "int \<Rightarrow> nat \<Rightarrow> int list \<Rightarrow> int \<Rightarrow> nat" where
  "getmonth_loop year m [] days = m"
| "getmonth_loop year m (d # ms) days =
     (let days = days - d; days = (if m = 1 \<and> isleap year then days - 1 else days) in
      if days \<le> 0 then m else getmonth_loop year (Suc m) ms days)"

definition cdf_getmonth :: "int \<Rightarrow> int \<Rightarrow> nat" where
  "cdf_getmonth year days = getmonth_loop year 0 mdays days"

record tm =
  tm_sec :: int
  tm_min :: int
  tm_hour :: int
  tm_mday :: int
  tm_mon :: int
  tm_year :: int

record timespec =
  tv_sec :: int
  tv_nsec :: int

definition cdf_timestamp_to_timespec :: "(tm \<Rightarrow> int) \<Rightarrow> int \<Rightarrow> int \<times> timespec" where
  "cdf_timestamp_to_timespec mktime t =
     (let nsec = (t smod CDF_TIME_PREC) * 100;
          t = t sdiv CDF_TIME_PREC; sec = t smod 60;
          t = t sdiv 60; min = t smod 60;
          t = t sdiv 60; hour = t smod 24;
          t = t sdiv 24; year = CDF_BASE_YEAR + t sdiv 365 in
      if year > 9999 then (-1, \<lparr>tv_sec = 0, tv_nsec = nsec\<rparr>)
      else
        (let t = t - (cdf_getdays year - 1);
             s = mktime \<lparr>tm_sec = sec, tm_min = min, tm_hour = hour, tm_mday = cdf_getday year t,
                         tm_mon = int (cdf_getmonth year t), tm_year = year - 1900\<rparr>
         in (if s = -1 then -1 else 0, \<lparr>tv_sec = s, tv_nsec = nsec\<rparr>)))"

subsection \<open>The calendar\<close>

text \<open>The length of a month and the number, from 1601-01-01, of the day that year, month and day denote, with
  a day out of range counting from the start of the month, as \<^verbatim>\<open>mktime\<close> does.\<close>

definition month_len :: "int \<Rightarrow> nat \<Rightarrow> int" where
  "month_len year m = mdays ! m + (if m = 1 \<and> isleap year then 1 else 0)"

definition month_start :: "int \<Rightarrow> nat \<Rightarrow> int" where
  "month_start year m = sum_list (map (month_len year) [0..<m])"

definition day_number :: "int \<Rightarrow> nat \<Rightarrow> int \<Rightarrow> int" where
  "day_number year mon mday = cdf_getdays year + month_start year mon + mday - 1"

lemma getdays_loop_ge: "days + 365 * int n \<le> getdays_loop n y days"
proof (induction n arbitrary: y days)
  case (Suc n)
  have "days + 365 * int (Suc n) \<le> (days + ((if isleap y then 1 else 0) + 365)) + 365 * int n" by simp
  also have "\<dots> \<le> getdays_loop n (y + 1) (days + ((if isleap y then 1 else 0) + 365))" by (rule Suc)
  finally show ?case by simp
qed simp

text \<open>The loops over the list of the lengths of the months.\<close>

fun day_of :: "int list \<Rightarrow> int \<Rightarrow> int" where
  "day_of [] d = d"
| "day_of (l # ls) d = (if d < l then d else day_of ls (d - l))"

fun month_of :: "int list \<Rightarrow> int \<Rightarrow> nat" where
  "month_of [] d = 0"
| "month_of (l # ls) d = (if d \<le> l then 0 else Suc (month_of ls (d - l)))"

fun lens :: "int \<Rightarrow> nat \<Rightarrow> int list \<Rightarrow> int list" where
  "lens year m [] = []"
| "lens year m (d # ms) = (d + (if m = 1 \<and> isleap year then 1 else 0)) # lens year (Suc m) ms"

lemma getday_loop_eq: "getday_loop year m ms d = day_of (lens year m ms) d"
  by (induction ms arbitrary: m d) (simp_all add: Let_def)

lemma getmonth_loop_eq: "getmonth_loop year m ms d = m + month_of (lens year m ms) d"
  by (induction ms arbitrary: m d) (auto simp: Let_def diff_diff_eq)

lemma lens_mdays: "lens year 0 mdays = map (month_len year) [0..<12]"
  by (simp add: mdays_def month_len_def upt_rec numeral_2_eq_2 numeral_3_eq_3)

lemma month_start_take: "m \<le> 12 \<Longrightarrow> month_start year m = sum_list (take m (map (month_len year) [0..<12]))"
  by (simp add: month_start_def take_map)

lemma month_len_pos: "\<forall>l \<in> set (map (month_len year) [0..<12]). 0 < l"
  by (simp flip: lens_mdays) (simp add: mdays_def)

lemma day_of_nonpos: "\<forall>l \<in> set ls. 0 < l \<Longrightarrow> d \<le> 0 \<Longrightarrow> day_of ls d = d"
  by (cases ls) auto

text \<open>The month is the one whose days include the given one, and the day is the day in that month, or 0 when
  it is its last.\<close>

lemma split_day:
  assumes "\<forall>l \<in> set ls. 0 < l" "0 < d" "d \<le> sum_list ls"
  shows "month_of ls d < length ls \<and> sum_list (take (month_of ls d) ls) < d \<and> d \<le> sum_list (take (Suc (month_of ls d)) ls) \<and>
    day_of ls d = (if d = sum_list (take (Suc (month_of ls d)) ls) then 0 else d - sum_list (take (month_of ls d) ls))"
  using assms
proof (induction ls arbitrary: d)
  case (Cons l ls)
  show ?case
  proof (cases "d \<le> l")
    case True
    with Cons.prems show ?thesis using day_of_nonpos [of ls "d - l"] by auto
  next
    case False
    with Cons.prems have "month_of ls (d - l) < length ls \<and> sum_list (take (month_of ls (d - l)) ls) < d - l \<and>
      d - l \<le> sum_list (take (Suc (month_of ls (d - l))) ls) \<and>
      day_of ls (d - l) = (if d - l = sum_list (take (Suc (month_of ls (d - l))) ls) then 0 else d - l - sum_list (take (month_of ls (d - l)) ls))"
      by (intro Cons.IH) auto
    with False show ?thesis by auto
  qed
qed simp

lemma split_year:
  assumes "d \<le> 365"
  shows "d = month_start year (cdf_getmonth year d) + cdf_getday year d +
    (if d = month_start year (Suc (cdf_getmonth year d)) then month_len year (cdf_getmonth year d) else 0)"
proof -
  let ?ls = "map (month_len year) [0..<12]"
  have m: "cdf_getmonth year d = month_of ?ls d" and c: "cdf_getday year d = day_of ?ls d"
    by (simp_all add: cdf_getmonth_def cdf_getday_def getmonth_loop_eq getday_loop_eq lens_mdays)
  have l0: "31 = month_len year 0" by (simp add: month_len_def mdays_def)
  show ?thesis
  proof (cases "0 < d")
    case True
    have "sum_list (lens year 0 mdays) \<ge> 365" by (simp add: mdays_def)
    then have "d \<le> sum_list ?ls" using assms by (simp only: lens_mdays)
    note s = split_day [OF month_len_pos True this]
    then have k: "month_of ?ls d < 12" by simp
    then have "take (Suc (month_of ?ls d)) ?ls = take (month_of ?ls d) ?ls @ [month_len year (month_of ?ls d)]"
      by (simp add: take_Suc_conv_app_nth)
    then have "month_start year (Suc (month_of ?ls d)) = month_start year (month_of ?ls d) + month_len year (month_of ?ls d)"
      using k by (simp only: month_start_take Suc_leI less_imp_le sum_list_append) simp
    then show ?thesis using s k by (simp add: m c month_start_take)
  next
    case False
    then have "day_of ?ls d = d" by (intro day_of_nonpos month_len_pos) simp
    moreover have "month_of ?ls d = 0" using False l0 by (simp add: upt_rec [of 0])
    ultimately show ?thesis using False l0 by (simp add: m c month_start_def)
  qed
qed

lemma sdiv_nonneg: "0 \<le> a \<Longrightarrow> 0 < b \<Longrightarrow> a sdiv b = a div (b::int)"
  by (cases "a = 0") (simp_all add: signed_divide_int_def sgn_if)

lemma smod_nonneg: "0 \<le> a \<Longrightarrow> 0 < b \<Longrightarrow> a smod b = a mod (b::int)"
  by (cases "a = 0") (simp_all add: signed_modulo_int_def sgn_if)

text \<open>\<^verbatim>\<open>mktime\<close> in a UTC locale, for the years from 1601 on: seconds from 1970-01-01, which is day 134774.\<close>

definition utc_mktime :: "(tm \<Rightarrow> int) \<Rightarrow> bool" where
  "utc_mktime mktime \<longleftrightarrow> (\<forall>t. mktime t =
     86400 * (day_number (tm_year t + 1900) (nat (tm_mon t)) (tm_mday t) - 134774) + 3600 * tm_hour t + 60 * tm_min t + tm_sec t)"

lemma seconds_split:
  fixes s :: int
  shows "86400 * (s div 60 div 60 div 24) + 3600 * (s div 60 div 60 mod 24) + 60 * (s div 60 mod 60) + s mod 60 = s"
  by presburger


definition mktime_utc :: "tm \<Rightarrow> int" where
  "mktime_utc t = 86400 * (day_number (tm_year t + 1900) (nat (tm_mon t)) (tm_mday t) - 134774) +
     3600 * tm_hour t + 60 * tm_min t + tm_sec t"


end
