(* ===== verification/Values.thy ===== *)
theory Values
  imports Funcs Bytes "HOL-Library.Signed_Division"
begin

text \<open>
  The values that soft magic compares (\<^verbatim>\<open>src/swap.c\<close>, the first half of \<^verbatim>\<open>src/softmagic.c\<close> and the value
  helpers of \<^verbatim>\<open>src/apprentice.c\<close>): the byte-order macros, the union that holds the bytes under test, the
  mask operators, the conversion of a value to host order, the copying of bytes out of the file, the
  arithmetic of indirect offsets and the sign extension.

  The union \<^verbatim>\<open>ms->ms_value\<close> is the list of its 128 bytes.  The modelled host is little-endian (as the
  layout of \<open>str_range\<close> and \<open>str_flags\<close> already says), so \<^verbatim>\<open>p->h\<close>, \<^verbatim>\<open>p->l\<close> and \<^verbatim>\<open>p->q\<close> are the little-endian
  words at its start.  Floating-point arithmetic is a parameter: \<open>fop op x mask\<close> is the operation on the
  bits of a number and the mask converted to the same type.
\<close>

subsection \<open>Byte order\<close>

text \<open>\<open>big\<close> is the byte order of the host: the swaps exchange the bytes in memory.\<close>

definition file_swap2 :: "bool \<Rightarrow> u16 \<Rightarrow> u16" where
  "file_swap2 big sv = (let s = host_bytes big 2 sv in host_word big [s ! 1, s ! 0])"

definition file_swap4 :: "bool \<Rightarrow> u32 \<Rightarrow> u32" where
  "file_swap4 big sv = (let s = host_bytes big 4 sv in host_word big [s ! 3, s ! 2, s ! 1, s ! 0])"

definition file_swap8 :: "bool \<Rightarrow> u64 \<Rightarrow> u64" where
  "file_swap8 big sv = (let s = host_bytes big 8 sv in
     host_word big [s ! 7, s ! 6, s ! 5, s ! 4, s ! 3, s ! 2, s ! 1, s ! 0])"

definition BE64 :: "u8 list \<Rightarrow> u64" where
  "BE64 p = push_bit 56 (ucast (p ! 0)) OR push_bit 48 (ucast (p ! 1)) OR push_bit 40 (ucast (p ! 2)) OR
     push_bit 32 (ucast (p ! 3)) OR push_bit 24 (ucast (p ! 4)) OR push_bit 16 (ucast (p ! 5)) OR
     push_bit 8 (ucast (p ! 6)) OR ucast (p ! 7)"

definition LE64 :: "u8 list \<Rightarrow> u64" where
  "LE64 p = push_bit 56 (ucast (p ! 7)) OR push_bit 48 (ucast (p ! 6)) OR push_bit 40 (ucast (p ! 5)) OR
     push_bit 32 (ucast (p ! 4)) OR push_bit 24 (ucast (p ! 3)) OR push_bit 16 (ucast (p ! 2)) OR
     push_bit 8 (ucast (p ! 1)) OR ucast (p ! 0)"

definition LE32 :: "u8 list \<Rightarrow> u32" where
  "LE32 p = push_bit 24 (ucast (p ! 3)) OR push_bit 16 (ucast (p ! 2)) OR push_bit 8 (ucast (p ! 1)) OR ucast (p ! 0)"

definition BE32 :: "u8 list \<Rightarrow> u32" where
  "BE32 p = push_bit 24 (ucast (p ! 0)) OR push_bit 16 (ucast (p ! 1)) OR push_bit 8 (ucast (p ! 2)) OR ucast (p ! 3)"

definition ME32 :: "u8 list \<Rightarrow> u32" where
  "ME32 p = push_bit 24 (ucast (p ! 1)) OR push_bit 16 (ucast (p ! 0)) OR push_bit 8 (ucast (p ! 3)) OR ucast (p ! 2)"

definition BE16 :: "u8 list \<Rightarrow> u16" where
  "BE16 p = push_bit 8 (ucast (p ! 0)) OR ucast (p ! 1)"

definition LE16 :: "u8 list \<Rightarrow> u16" where
  "LE16 p = push_bit 8 (ucast (p ! 1)) OR ucast (p ! 0)"

text \<open>\<^verbatim>\<open>SEXT\<close>: the width is that of the word.  An unsigned 64-bit number converted to \<^verbatim>\<open>intmax_t\<close> keeps its bits.\<close>

definition SEXT :: "bool \<Rightarrow> 'a::len word \<Rightarrow> int" where
  "SEXT s p = (if s then sint p else sint (ucast p :: u64))"

definition offset_oob :: "nat \<Rightarrow> int \<Rightarrow> nat \<Rightarrow> bool" where
  "offset_oob n off i \<longleftrightarrow> off < 0 \<or> int n < off \<or> int n - off < int i"

definition cvt_id3 :: "u32 \<Rightarrow> u32" where
  "cvt_id3 v = (v AND 0x7f) OR push_bit 7 (drop_bit 8 v AND 0x7f) OR
     push_bit 14 (drop_bit 16 v AND 0x7f) OR push_bit 21 (drop_bit 24 v AND 0x7f)"

definition cvt_flip :: "u8 \<Rightarrow> bool \<Rightarrow> u8" where
  "cvt_flip type flip =
     (if \<not> flip then type
      else if type = FILE_BESHORT then FILE_LESHORT
      else if type = FILE_BELONG then FILE_LELONG
      else if type = FILE_BEDATE then FILE_LEDATE
      else if type = FILE_BELDATE then FILE_LELDATE
      else if type = FILE_BEQUAD then FILE_LEQUAD
      else if type = FILE_BEQDATE then FILE_LEQDATE
      else if type = FILE_BEQLDATE then FILE_LEQLDATE
      else if type = FILE_BEQWDATE then FILE_LEQWDATE
      else if type = FILE_LESHORT then FILE_BESHORT
      else if type = FILE_LELONG then FILE_BELONG
      else if type = FILE_LEDATE then FILE_BEDATE
      else if type = FILE_LELDATE then FILE_BELDATE
      else if type = FILE_LEQUAD then FILE_BEQUAD
      else if type = FILE_LEQDATE then FILE_BEQDATE
      else if type = FILE_LEQLDATE then FILE_BEQLDATE
      else if type = FILE_LEQWDATE then FILE_BEQWDATE
      else if type = FILE_BEFLOAT then FILE_LEFLOAT
      else if type = FILE_LEFLOAT then FILE_BEFLOAT
      else if type = FILE_BEDOUBLE then FILE_LEDOUBLE
      else if type = FILE_LEDOUBLE then FILE_BEDOUBLE
      else if type = FILE_BEMSDOSDATE then FILE_LEMSDOSDATE
      else if type = FILE_LEMSDOSDATE then FILE_BEMSDOSDATE
      else if type = FILE_BEMSDOSTIME then FILE_LEMSDOSTIME
      else if type = FILE_LEMSDOSTIME then FILE_BEMSDOSTIME
      else type)"

subsection \<open>The value union\<close>

definition val_b :: "u8 list \<Rightarrow> u8" where "val_b v = v ! 0"
definition val_h :: "u8 list \<Rightarrow> u16" where "val_h v = host_word False (take 2 v)"
definition val_l :: "u8 list \<Rightarrow> u32" where "val_l v = host_word False (take 4 v)"
definition val_q :: "u8 list \<Rightarrow> u64" where "val_q v = host_word False (take 8 v)"

definition put_b :: "u8 \<Rightarrow> u8 list \<Rightarrow> u8 list" where "put_b w v = w # drop 1 v"
definition put_h :: "u16 \<Rightarrow> u8 list \<Rightarrow> u8 list" where "put_h w v = host_bytes False 2 w @ drop 2 v"
definition put_l :: "u32 \<Rightarrow> u8 list \<Rightarrow> u8 list" where "put_l w v = host_bytes False 4 w @ drop 4 v"
definition put_q :: "u64 \<Rightarrow> u8 list \<Rightarrow> u8 list" where "put_q w v = host_bytes False 8 w @ drop 8 v"

subsection \<open>Mask operators\<close>

text \<open>\<open>CHECKOVFL\<close>: the quotient of the least number by -1 traps.  Sums and products wrap.  \<open>None\<close> is the
  answer -1.\<close>

definition CHECKOVFL :: "bool \<Rightarrow> 'a::len word \<Rightarrow> 'a word \<Rightarrow> bool" where
  "CHECKOVFL sign a b \<longleftrightarrow>
     (LENGTH('a) = 32 \<or> LENGTH('a) = 64) \<and> sign \<and> a = 2 ^ (LENGTH('a) - 1) \<and> b = -1"

definition DO_CVT1 :: "bool \<Rightarrow> magic \<Rightarrow> 'a::len word \<Rightarrow> 'a word option" where
  "DO_CVT1 sign m fld =
     (let mask = ucast (num_mask m) :: 'a word; op = m_mask_op m AND FILE_OPS_MASK;
          r = (if num_mask m = 0 then Some fld
               else if op = FILE_OPAND then Some (fld AND mask)
               else if op = FILE_OPOR then Some (fld OR mask)
               else if op = FILE_OPXOR then Some (fld XOR mask)
               else if op = FILE_OPADD then Some (fld + mask)
               else if op = FILE_OPMINUS then Some (fld - mask)
               else if op = FILE_OPMULTIPLY then Some (fld * mask)
               else if CHECKOVFL sign fld mask then None
               else if mask = 0 then None
               else if op = FILE_OPDIVIDE
               then Some (if sign then word_of_int (sint fld sdiv sint mask) else fld div mask)
               else Some (if sign then word_of_int (sint fld smod sint mask) else fld mod mask))
      in map_option (\<lambda>w. if has (m_mask_op m) FILE_OPINVERSE then NOT w else w) r)"

definition DO_CVT :: "magic \<Rightarrow> 'a::len word \<Rightarrow> 'a word option" where
  "DO_CVT m fld = DO_CVT1 (\<not> has (m_flag m) UNSIGNED) m fld"

definition cvt_8 :: "u8 list \<Rightarrow> magic \<Rightarrow> u8 list option" where
  "cvt_8 p m = map_option (\<lambda>w. put_b w p) (DO_CVT m (val_b p))"

definition cvt_16 :: "u8 list \<Rightarrow> magic \<Rightarrow> u8 list option" where
  "cvt_16 p m = map_option (\<lambda>w. put_h w p) (DO_CVT m (val_h p))"

definition cvt_32 :: "u8 list \<Rightarrow> magic \<Rightarrow> u8 list option" where
  "cvt_32 p m = map_option (\<lambda>w. put_l w p) (DO_CVT m (val_l p))"

definition cvt_64 :: "u8 list \<Rightarrow> magic \<Rightarrow> u8 list option" where
  "cvt_64 p m = map_option (\<lambda>w. put_q w p) (DO_CVT m (val_q p))"

text \<open>A mask that is not zero is not zero as a floating-point number either, so the test before the division
  never fires.\<close>

definition DO_CVT2 :: "(u8 \<Rightarrow> 'a \<Rightarrow> u64 \<Rightarrow> 'a) \<Rightarrow> magic \<Rightarrow> 'a \<Rightarrow> 'a" where
  "DO_CVT2 fop m fld =
     (let op = m_mask_op m AND FILE_OPS_MASK in
      if num_mask m \<noteq> 0 \<and> op \<in> {FILE_OPADD, FILE_OPMINUS, FILE_OPMULTIPLY, FILE_OPDIVIDE}
      then fop op fld (num_mask m) else fld)"

definition cvt_float :: "(u8 \<Rightarrow> u32 \<Rightarrow> u64 \<Rightarrow> u32) \<Rightarrow> u8 list \<Rightarrow> magic \<Rightarrow> u8 list" where
  "cvt_float fop p m = put_l (DO_CVT2 fop m (val_l p)) p"

definition cvt_double :: "(u8 \<Rightarrow> u64 \<Rightarrow> u64 \<Rightarrow> u64) \<Rightarrow> u8 list \<Rightarrow> magic \<Rightarrow> u8 list" where
  "cvt_double fop p m = put_q (DO_CVT2 fop m (val_q p)) p"

subsection \<open>Pascal strings\<close>

definition FILE_BADSIZE :: u64 where "FILE_BADSIZE = -1"

definition bad_pstring :: "magic_set \<Rightarrow> magic \<Rightarrow> magic_set" where
  "bad_pstring ms m = file_error0 ms
     (bytes_of ''corrupt magic file (bad pascal string length '' @ show_nat (unat (str_flags m AND PSTRING_LEN)) @ [0x29])"

definition file_pstring_length_size :: "magic_set \<Rightarrow> magic \<Rightarrow> u64 \<times> magic_set" where
  "file_pstring_length_size ms m =
     (let f = str_flags m AND PSTRING_LEN in
      if f = PSTRING_1_LE then (1, ms)
      else if f = PSTRING_2_LE \<or> f = PSTRING_2_BE then (2, ms)
      else if f = PSTRING_4_LE \<or> f = PSTRING_4_BE then (4, ms)
      else (FILE_BADSIZE, bad_pstring ms m))"

definition file_pstring_get_length :: "magic_set \<Rightarrow> magic \<Rightarrow> u8 list \<Rightarrow> u64 \<times> magic_set" where
  "file_pstring_get_length ms m s =
     (let f = str_flags m AND PSTRING_LEN;
          itself = (\<lambda>len. if has (str_flags m) PSTRING_LENGTH_INCLUDES_ITSELF
                          then (case file_pstring_length_size ms m of
                                  (l, ms') \<Rightarrow> if l = FILE_BADSIZE then (l, ms') else (len - l, ms'))
                          else (len, ms)) in
      if f = PSTRING_1_LE then itself (ucast (s ! 0))
      else if f = PSTRING_2_LE then itself (ucast (LE16 s))
      else if f = PSTRING_2_BE then itself (ucast (BE16 s))
      else if f = PSTRING_4_LE then itself (ucast (LE32 s))
      else if f = PSTRING_4_BE then itself (ucast (BE32 s))
      else (FILE_BADSIZE, bad_pstring ms m))"

text \<open>The copy of the string over its length, in place, and the terminator.\<close>

definition shift_pstring :: "nat \<Rightarrow> u64 \<Rightarrow> u8 list \<Rightarrow> u8 list" where
  "shift_pstring sz len v =
     (let mx = length v - sz; n = (if mx \<le> unat len then mx else unat len) in
      take n (drop sz v) @ [0] @ drop (Suc n) v)"

subsection \<open>Conversion to host order\<close>

definition mconvert ::
  "(u8 \<Rightarrow> u32 \<Rightarrow> u64 \<Rightarrow> u32) \<Rightarrow> (u8 \<Rightarrow> u64 \<Rightarrow> u64 \<Rightarrow> u64) \<Rightarrow> magic_set \<Rightarrow> magic \<Rightarrow> bool \<Rightarrow> bool \<times> magic_set" where
  "mconvert fop dop ms m flip =
     (let p = ms_value ms; t = cvt_flip (m_type m) flip;
          ret = (\<lambda>p' r. case r of
                   Some v \<Rightarrow> (True, ms\<lparr>ms_value := v\<rparr>)
                 | None \<Rightarrow> (False, file_magerror (ms\<lparr>ms_value := p'\<rparr>) (bytes_of ''zerodivide/overflow/underflow in mconvert()''))) in
      if t = FILE_BYTE then ret p (cvt_8 p m)
      else if t = FILE_SHORT \<or> t = FILE_MSDOSDATE \<or> t = FILE_MSDOSTIME then ret p (cvt_16 p m)
      else if t = FILE_LONG \<or> t = FILE_DATE \<or> t = FILE_LDATE then ret p (cvt_32 p m)
      else if t = FILE_QUAD \<or> t = FILE_QDATE \<or> t = FILE_QLDATE \<or> t = FILE_QWDATE \<or> t = FILE_OFFSET then ret p (cvt_64 p m)
      else if t = FILE_STRING \<or> t = FILE_BESTRING16 \<or> t = FILE_LESTRING16 \<or> t = FILE_OCTAL then ret p (Some (p[MAXstring - 1 := 0]))
      else if t = FILE_PSTRING then
        (case file_pstring_length_size ms m of (sz, ms1) \<Rightarrow>
           if sz = FILE_BADSIZE then (False, ms1)
           else case file_pstring_get_length ms1 m p of (len, ms2) \<Rightarrow>
             if len = FILE_BADSIZE then (False, ms2) else ret p (Some (shift_pstring (unat sz) len p)))
      else if t = FILE_BESHORT \<or> t = FILE_BEMSDOSDATE \<or> t = FILE_BEMSDOSTIME then ret (put_h (BE16 p) p) (cvt_16 (put_h (BE16 p) p) m)
      else if t = FILE_BELONG \<or> t = FILE_BEDATE \<or> t = FILE_BELDATE then ret (put_l (BE32 p) p) (cvt_32 (put_l (BE32 p) p) m)
      else if t = FILE_BEQUAD \<or> t = FILE_BEQDATE \<or> t = FILE_BEQLDATE \<or> t = FILE_BEQWDATE then ret (put_q (BE64 p) p) (cvt_64 (put_q (BE64 p) p) m)
      else if t = FILE_LESHORT \<or> t = FILE_LEMSDOSDATE \<or> t = FILE_LEMSDOSTIME then ret (put_h (LE16 p) p) (cvt_16 (put_h (LE16 p) p) m)
      else if t = FILE_LELONG \<or> t = FILE_LEDATE \<or> t = FILE_LELDATE then ret (put_l (LE32 p) p) (cvt_32 (put_l (LE32 p) p) m)
      else if t = FILE_LEQUAD \<or> t = FILE_LEQDATE \<or> t = FILE_LEQLDATE \<or> t = FILE_LEQWDATE then ret (put_q (LE64 p) p) (cvt_64 (put_q (LE64 p) p) m)
      else if t = FILE_MELONG \<or> t = FILE_MEDATE \<or> t = FILE_MELDATE then ret (put_l (ME32 p) p) (cvt_32 (put_l (ME32 p) p) m)
      else if t = FILE_FLOAT then ret p (Some (cvt_float fop p m))
      else if t = FILE_BEFLOAT then ret p (Some (cvt_float fop (put_l (BE32 p) p) m))
      else if t = FILE_LEFLOAT then ret p (Some (cvt_float fop (put_l (LE32 p) p) m))
      else if t = FILE_DOUBLE then ret p (Some (cvt_double dop p m))
      else if t = FILE_BEDOUBLE then ret p (Some (cvt_double dop (put_q (BE64 p) p) m))
      else if t = FILE_LEDOUBLE then ret p (Some (cvt_double dop (put_q (LE64 p) p) m))
      else if t = FILE_REGEX \<or> t = FILE_SEARCH \<or> t = FILE_DEFAULT \<or> t = FILE_CLEAR \<or> t = FILE_NAME \<or> t = FILE_USE \<or>
              t = FILE_DER \<or> t = FILE_GUID \<or> t = FILE_LEGUID \<or> t = FILE_BEGUID then (True, ms)
      else (False, file_magerror ms (bytes_of ''invalid type '' @ show_nat (unat (m_type m)) @ bytes_of '' in mconvert()'')))"

subsection \<open>Copying bytes out of the file\<close>

text \<open>The end of the region a regular expression may see: \<open>region\<close> is the memory from \<^verbatim>\<open>buf\<close> to \<^verbatim>\<open>end\<close>, \<open>b\<close> and
  \<open>la\<close> are offsets in it, and \<^verbatim>\<open>memchr\<close> looks for a newline and then for a carriage return.\<close>

definition memchr :: "u8 list \<Rightarrow> nat \<Rightarrow> u8 \<Rightarrow> nat option" where
  "memchr s b c = (let k = length (takeWhile (\<lambda>x. x \<noteq> c) (drop b s)) in if b + k < length s then Some (b + k) else None)"

fun regex_lines :: "u8 list \<Rightarrow> nat \<Rightarrow> nat \<Rightarrow> nat \<Rightarrow> nat \<times> nat" where
  "regex_lines region 0 b la = (0, la)"
| "regex_lines region (Suc lines) b la =
     (if length region \<le> b then (Suc lines, la)
      else case (case memchr region b 0x0a of Some k \<Rightarrow> Some k | None \<Rightarrow> memchr region b 0x0d) of
          None \<Rightarrow> (Suc lines, la)
        | Some b \<Rightarrow>
            (let b = (if Suc b < length region \<and> region ! b = 0x0d \<and> region ! Suc b = 0x0a then Suc b else b);
                 b = (if Suc b < length region \<and> region ! b = 0x0a then Suc b else b) in
             regex_lines region lines (Suc b) b))"

definition regex_region :: "magic_set \<Rightarrow> u8 list \<Rightarrow> nat \<Rightarrow> nat \<Rightarrow> magic \<Rightarrow> nat" where
  "regex_region ms s offset nbytes m =
     (let linecnt = (if has (str_flags m) REGEX_LINE_COUNT then unat (str_range m) else 0);
          bytecnt = (if has (str_flags m) REGEX_LINE_COUNT then linecnt * 80 else unat (str_range m));
          bytecnt = (if bytecnt = 0 \<or> nbytes - offset < bytecnt then nbytes - offset else bytecnt);
          bytecnt = (if ms_regex_max ms < bytecnt then ms_regex_max ms else bytecnt);
          region = take bytecnt (drop offset s)
      in case regex_lines region linecnt 0 (length region) of
           (lines, la) \<Rightarrow> if lines \<noteq> 0 then length region else la)"

text \<open>UTF-16 text to bytes: the low byte of each unit, a blank for a unit that only looks like a NUL.\<close>

fun string16 :: "bool \<Rightarrow> u8 list \<Rightarrow> u8 list" where
  "string16 be [] = []"
| "string16 be [a] = (if be then [] else [a])"
| "string16 be (a # b # r) =
     (if be then (if b = 0 \<and> a \<noteq> 0 then 0x20 else b) else (if a = 0 \<and> b \<noteq> 0 then 0x20 else a)) # string16 be r"

definition put_string16 :: "u8 list \<Rightarrow> u8 list \<Rightarrow> u8 list" where
  "put_string16 t v =
     (let c = take (MAXstring - 1) t in (c @ [0] @ drop (Suc (length c)) v)[MAXstring - 1 := 0])"

text \<open>\<open>nbytes\<close> is at most the length of the buffer \<open>s\<close>; a pointer into the buffer is the rest of it.\<close>

definition mcopy :: "magic_set \<Rightarrow> u8 \<Rightarrow> bool \<Rightarrow> u8 list \<Rightarrow> u32 \<Rightarrow> nat \<Rightarrow> magic \<Rightarrow> magic_set" where
  "mcopy ms type indir s offset nbytes m =
     (let off = unat offset;
          copy = (\<lambda>size. if nbytes \<le> off then replicate MAXstring 0
                   else let n = (if nbytes - off < size then nbytes - off else size)
                        in take n (drop off s) @ replicate (MAXstring - n) 0) in
      if \<not> indir \<and> (type = FILE_DER \<or> type = FILE_SEARCH) then
        (let off = (if nbytes < off then unat (word_of_nat nbytes :: u32) else off) in
         ms\<lparr>ms_search_s := Some (drop off s), ms_search_len := nbytes - off, ms_search_offset := off\<rparr>)
      else if \<not> indir \<and> type = FILE_REGEX then
        (if nbytes < off then ms\<lparr>ms_search_len := 0, ms_search_s := None\<rparr>
         else ms\<lparr>ms_search_s := Some (drop off s), ms_search_len := regex_region ms s off nbytes m,
                 ms_search_offset := off, ms_rm_len := 0\<rparr>)
      else if \<not> indir \<and> (type = FILE_BESTRING16 \<or> type = FILE_LESTRING16) \<and> off < nbytes then
        ms\<lparr>ms_value := put_string16 (string16 (type = FILE_BESTRING16) (drop off (take nbytes s))) (ms_value ms)\<rparr>
      else if type = FILE_OFFSET then ms\<lparr>ms_value := put_q (ucast offset) (replicate MAXstring 0)\<rparr>
      else if \<not> indir \<and> (type = FILE_STRING \<or> type = FILE_PSTRING) \<and> str_range m \<noteq> 0 \<and> unat (str_range m) < MAXstring
      then ms\<lparr>ms_value := copy (unat (str_range m))\<rparr>
      else ms\<lparr>ms_value := copy MAXstring\<rparr>)"

subsection \<open>Offset arithmetic\<close>

text \<open>The operator of an indirect offset, on \<^verbatim>\<open>intmax_t\<close> operands.  \<open>None\<close> is a result that does not fit \<^verbatim>\<open>intmax_t\<close>,
  whose computation is undefined in C.\<close>

definition in_ops :: "u8 \<Rightarrow> int \<Rightarrow> int \<Rightarrow> int option" where
  "in_ops op lhs off =
     (let r = (if op = FILE_OPAND then lhs AND off
               else if op = FILE_OPOR then lhs OR off
               else if op = FILE_OPXOR then lhs XOR off
               else if op = FILE_OPADD then lhs + off
               else if op = FILE_OPMINUS then lhs - off
               else if op = FILE_OPMULTIPLY then lhs * off
               else if op = FILE_OPDIVIDE then lhs sdiv off
               else lhs smod off)
      in if - (2 ^ 63) \<le> r \<and> r < 2 ^ 63 then Some r else None)"

text \<open>\<open>Some None\<close> is the answer 1 (overflow); \<open>None\<close> is undefined.\<close>

definition do_ops :: "magic \<Rightarrow> int \<Rightarrow> int \<Rightarrow> u32 option option" where
  "do_ops m lhs off =
     (if 0xffffffff \<le> lhs \<or> lhs \<le> - 0x80000000 \<or> 0xffffffff \<le> off \<or> off \<le> - 0x80000000 then Some None
      else case (if off \<noteq> 0 then in_ops (m_in_op m AND FILE_OPS_MASK) lhs off else Some lhs) of
          None \<Rightarrow> None
        | Some offset \<Rightarrow>
            (let offset = (if has (m_in_op m) FILE_OPINVERSE then NOT offset else offset) in
             Some (if 0xffffffff \<le> offset then None else Some (word_of_int offset))))"

subsection \<open>Sign extension\<close>

text \<open>The warning of the last branch, given only when a magic file is checked, is the caller's: it does not
  change the value.\<close>

definition file_signextend :: "magic \<Rightarrow> u64 \<Rightarrow> u64" where
  "file_signextend m v =
     (let t = m_type m in
      if has (m_flag m) UNSIGNED then v
      else if t = FILE_BYTE then word_of_int (sint (ucast v :: u8))
      else if t = FILE_SHORT \<or> t = FILE_BESHORT \<or> t = FILE_LESHORT then word_of_int (sint (ucast v :: u16))
      else if t = FILE_DATE \<or> t = FILE_BEDATE \<or> t = FILE_LEDATE \<or> t = FILE_MEDATE \<or>
              t = FILE_LDATE \<or> t = FILE_BELDATE \<or> t = FILE_LELDATE \<or> t = FILE_MELDATE \<or>
              t = FILE_LONG \<or> t = FILE_BELONG \<or> t = FILE_LELONG \<or> t = FILE_MELONG \<or>
              t = FILE_FLOAT \<or> t = FILE_BEFLOAT \<or> t = FILE_LEFLOAT \<or>
              t = FILE_MSDOSDATE \<or> t = FILE_BEMSDOSDATE \<or> t = FILE_LEMSDOSDATE \<or>
              t = FILE_MSDOSTIME \<or> t = FILE_BEMSDOSTIME \<or> t = FILE_LEMSDOSTIME then word_of_int (sint (ucast v :: u32))
      else if t = FILE_QUAD \<or> t = FILE_BEQUAD \<or> t = FILE_LEQUAD \<or> t = FILE_QDATE \<or> t = FILE_QLDATE \<or> t = FILE_QWDATE \<or>
              t = FILE_BEQDATE \<or> t = FILE_BEQLDATE \<or> t = FILE_BEQWDATE \<or> t = FILE_LEQDATE \<or> t = FILE_LEQLDATE \<or>
              t = FILE_LEQWDATE \<or> t = FILE_DOUBLE \<or> t = FILE_BEDOUBLE \<or> t = FILE_LEDOUBLE \<or> t = FILE_OFFSET \<or>
              t = FILE_BEVARINT \<or> t = FILE_LEVARINT then v
      else if t = FILE_STRING \<or> t = FILE_PSTRING \<or> t = FILE_BESTRING16 \<or> t = FILE_LESTRING16 \<or> t = FILE_REGEX \<or>
              t = FILE_SEARCH \<or> t = FILE_DEFAULT \<or> t = FILE_INDIRECT \<or> t = FILE_NAME \<or> t = FILE_USE \<or> t = FILE_CLEAR \<or>
              t = FILE_DER \<or> t = FILE_GUID \<or> t = FILE_LEGUID \<or> t = FILE_BEGUID \<or> t = FILE_OCTAL then v
      else FILE_BADSIZE)"

subsection \<open>Offset arithmetic is defined\<close>

lemma signed_range: "- (2 ^ n) \<le> (k::int) \<and> k < 2 ^ n \<longleftrightarrow> signed_take_bit n k = k"
  by (metis signed_take_bit_int_eq_self_iff)

lemma bitwise_range:
  fixes a b :: int
  assumes "- (2 ^ n) \<le> a \<and> a < 2 ^ n" "- (2 ^ n) \<le> b \<and> b < 2 ^ n"
  shows "- (2 ^ n) \<le> a AND b \<and> a AND b < 2 ^ n" "- (2 ^ n) \<le> a OR b \<and> a OR b < 2 ^ n" "- (2 ^ n) \<le> a XOR b \<and> a XOR b < 2 ^ n"
proof -
  have s: "signed_take_bit n a = a" "signed_take_bit n b = b" using assms unfolding signed_range by auto
  have "signed_take_bit n (a AND b) = signed_take_bit n a AND signed_take_bit n b"
    "signed_take_bit n (a OR b) = signed_take_bit n a OR signed_take_bit n b"
    "signed_take_bit n (a XOR b) = signed_take_bit n a XOR signed_take_bit n b"
    by (rule bit_eqI, auto simp: bit_signed_take_bit_iff bit_and_iff bit_or_iff bit_xor_iff)+
  then show "- (2 ^ n) \<le> a AND b \<and> a AND b < 2 ^ n" "- (2 ^ n) \<le> a OR b \<and> a OR b < 2 ^ n" "- (2 ^ n) \<le> a XOR b \<and> a XOR b < 2 ^ n"
    unfolding signed_range s by auto
qed

lemma abs_sdiv_le: "\<bar>a sdiv b\<bar> \<le> \<bar>a :: int\<bar>"
proof -
  have "\<bar>a\<bar> div \<bar>b\<bar> \<le> \<bar>a\<bar>" using zdiv_mono2 [of "\<bar>a\<bar>" 1 "\<bar>b\<bar>"] by (cases "b = 0") auto
  moreover have "0 \<le> \<bar>a\<bar> div \<bar>b\<bar>" by (cases "b = 0") (simp_all add: pos_imp_zdiv_nonneg_iff)
  ultimately show ?thesis by (simp add: signed_divide_int_def abs_mult abs_sgn_eq)
qed

lemma abs_smod_less: "b \<noteq> 0 \<Longrightarrow> \<bar>a smod b\<bar> < \<bar>b :: int\<bar>"
  by (simp add: signed_modulo_int_def abs_mult abs_sgn_eq)

lemma abs_mult_less:
  fixes a b :: int
  assumes "\<bar>a\<bar> < x" "\<bar>b\<bar> \<le> y" "b \<noteq> 0"
  shows "\<bar>a * b\<bar> < x * y"
  unfolding abs_mult using assms by (intro mult_less_le_imp_less) auto

lemma in_ops_defined:
  assumes l: "- 0x80000000 < lhs" "lhs < 0xffffffff" and o: "- 0x80000000 < off" "off < 0xffffffff" "off \<noteq> 0"
    and m: "op = FILE_OPMULTIPLY \<Longrightarrow> \<bar>off\<bar> \<le> 0x80000000"
  shows "in_ops op lhs off \<noteq> None"
proof -
  have r: "- (2 ^ 32) \<le> lhs \<and> lhs < 2 ^ 32" "- (2 ^ 32) \<le> off \<and> off < 2 ^ 32" using l o by auto
  have "\<bar>lhs * off\<bar> < 0xffffffff * 0x80000000" if "op = FILE_OPMULTIPLY"
    using l o(3) m [OF that] by (intro abs_mult_less) auto
  then show ?thesis
    using bitwise_range [OF r] abs_sdiv_le [of lhs off] abs_smod_less [of off lhs] o l
    unfolding in_ops_def Let_def by auto
qed

lemma do_ops_ok:
  assumes "m_in_op m AND FILE_OPS_MASK = FILE_OPMULTIPLY \<longrightarrow> \<bar>off\<bar> \<le> 0x80000000"
  shows "do_ops m lhs off \<noteq> None"
proof (cases "0xffffffff \<le> lhs \<or> lhs \<le> - 0x80000000 \<or> 0xffffffff \<le> off \<or> off \<le> - 0x80000000 \<or> off = 0")
  case False
  then have "in_ops (m_in_op m AND FILE_OPS_MASK) lhs off \<noteq> None" using assms by (intro in_ops_defined) auto
  then show ?thesis by (auto simp: do_ops_def Let_def)
qed (auto simp: do_ops_def Let_def)



text \<open>Two operands that pass the guard and whose product does not fit.\<close>

lemma do_ops_overflow: "do_ops (m0\<lparr>m_in_op := FILE_OPMULTIPLY\<rparr>) 0xfffffffe 0xfffffffe = None"
  by (simp add: do_ops_def in_ops_def)
end
