(* ===== verification/Magiccheck.thy ===== *)
theory Magiccheck
  imports Values Der Cdf_Time
begin

text \<open>
  Comparing the value under test with a magic entry: \<^verbatim>\<open>file_strncmp\<close>, the search and the regular
  expression tests, and \<^verbatim>\<open>magiccheck\<close> of \<^verbatim>\<open>src/softmagic.c\<close>, with the regular-expression wrappers of
  \<^verbatim>\<open>src/funcs.c\<close>.

  What the code takes from the C library is the record \<open>env\<close>: whether \<^verbatim>\<open>memmem\<close> exists, floating-point
  arithmetic and comparison (\<open>None\<close> for unordered numbers), \<^verbatim>\<open>regcomp\<close> and \<^verbatim>\<open>regexec\<close>, the formatting of
  \<^verbatim>\<open>printf\<close>, the time functions, and the uninitialised memory that \<^verbatim>\<open>realloc\<close> hands out.

  Every operation that follows a pointer has an option for a result, where \<open>None\<close> stands for a read
  outside the memory it may touch (or, for offsets, an overflow that C leaves undefined).
\<close>

datatype rx_result = Rx_match int int | Rx_nomatch | Rx_error

datatype farg = Fstr "u8 list" | Fint int | Ffloat u32 | Fdouble u64

record env =
  e_memmem :: bool
  e_fop :: "u8 \<Rightarrow> u32 \<Rightarrow> u64 \<Rightarrow> u32"
  e_dop :: "u8 \<Rightarrow> u64 \<Rightarrow> u64 \<Rightarrow> u64"
  e_fcmp :: "u32 \<Rightarrow> u32 \<Rightarrow> int option"
  e_dcmp :: "u64 \<Rightarrow> u64 \<Rightarrow> int option"
  e_regcomp :: "u8 list \<Rightarrow> bool \<Rightarrow> int"
  e_regerror :: "u8 list \<Rightarrow> int \<Rightarrow> u8 list"
  e_regexec :: "u8 list \<Rightarrow> bool \<Rightarrow> u8 list \<Rightarrow> rx_result"
  e_fmtcheck :: "u8 list \<Rightarrow> u8 list \<Rightarrow> bool"
  e_format :: "u8 list \<Rightarrow> farg \<Rightarrow> u8 list option"
  e_asctime :: "bool \<Rightarrow> int \<Rightarrow> u8 list option"
  e_mktime :: "tm \<Rightarrow> int"
  e_strftime :: "u8 list \<Rightarrow> tm \<Rightarrow> u8 list option"
  e_fresh :: level_info

subsection \<open>String comparison\<close>

text \<open>The difference of two bytes, an \<^verbatim>\<open>int\<close> converted to \<^verbatim>\<open>uint64_t\<close>.\<close>

definition byte_diff :: "u8 \<Rightarrow> u8 \<Rightarrow> u64" where
  "byte_diff b a = word_of_int (uint b - uint a)"

fun strncmp_fast :: "nat \<Rightarrow> u8 list \<Rightarrow> u8 list \<Rightarrow> u64 option" where
  "strncmp_fast 0 a b = Some 0"
| "strncmp_fast (Suc len) (x # a) (y # b) =
     (if byte_diff y x \<noteq> 0 then Some (byte_diff y x) else strncmp_fast len a b)"
| "strncmp_fast (Suc len) a b = None"

text \<open>\<^verbatim>\<open>while (b < eb && isspace(*b)) b++\<close>; \<open>room\<close> is \<^verbatim>\<open>eb - b\<close>.\<close>

fun skip_space :: "nat \<Rightarrow> u8 list \<Rightarrow> (nat \<times> u8 list) option" where
  "skip_space 0 b = Some (0, b)"
| "skip_space (Suc room) [] = None"
| "skip_space (Suc room) (y # b) = (if isspace y then skip_space room b else Some (Suc room, y # b))"

text \<open>The loop for strings with modifiers; it returns \<open>v\<close> and the position in the text.\<close>

fun strncmp_loop :: "u32 \<Rightarrow> nat \<Rightarrow> nat \<Rightarrow> u8 list \<Rightarrow> u8 list \<Rightarrow> (u64 \<times> u8 list) option" where
  "strncmp_loop flags 0 room a b = Some (0, b)"
| "strncmp_loop flags (Suc len) 0 a b = Some (1, b)"
| "strncmp_loop flags (Suc len) (Suc room) (x # a) (y # b) =
     (let next = (\<lambda>v. if v \<noteq> 0 then Some (v, b) else strncmp_loop flags len room a b) in
      if has flags STRING_IGNORE_LOWERCASE \<and> islower x then next (byte_diff (tolower y) x)
      else if has flags STRING_IGNORE_UPPERCASE \<and> isupper x then next (byte_diff (toupper y) x)
      else if has flags STRING_COMPACT_WHITESPACE \<and> isspace x then
        (if isspace y
         then (case a of
                 [] \<Rightarrow> None
               | x' # _ \<Rightarrow>
                   if isspace x' then strncmp_loop flags len room a b
                   else case skip_space room b of
                       None \<Rightarrow> None
                     | Some (room, b) \<Rightarrow> strncmp_loop flags len room a b)
         else Some (1, y # b))
      else if has flags STRING_COMPACT_OPTIONAL_WHITESPACE \<and> isspace x then
        (case skip_space (Suc room) (y # b) of
           None \<Rightarrow> None
         | Some (room, b) \<Rightarrow> strncmp_loop flags len room a b)
      else next (byte_diff y x))"
| "strncmp_loop flags (Suc len) (Suc room) a b = None"

definition file_strncmp :: "u8 list \<Rightarrow> u8 list \<Rightarrow> nat \<Rightarrow> nat \<Rightarrow> u32 \<Rightarrow> u64 option" where
  "file_strncmp s1 s2 len maxlen flags =
     (let ws = flags AND (STRING_COMPACT_WHITESPACE OR STRING_COMPACT_OPTIONAL_WHITESPACE) in
      if flags = 0 then strncmp_fast len s1 s2
      else case strncmp_loop flags len (if ws \<noteq> 0 then maxlen else len) s1 s2 of
          None \<Rightarrow> None
        | Some (v, b) \<Rightarrow>
            if v = 0 \<and> has flags STRING_FULL_WORD
            then (case b of [] \<Rightarrow> None | y # _ \<Rightarrow> Some (if y \<noteq> 0 \<and> \<not> isspace y then 1 else 0))
            else Some v)"

definition file_strncmp16 :: "u8 list \<Rightarrow> u8 list \<Rightarrow> nat \<Rightarrow> nat \<Rightarrow> u32 \<Rightarrow> u64 option" where
  "file_strncmp16 a b len maxlen flags = file_strncmp a b len maxlen 0"

subsection \<open>Searching\<close>

text \<open>\<^verbatim>\<open>memmem\<close>: the least offset of an occurrence.\<close>

fun memmem :: "u8 list \<Rightarrow> u8 list \<Rightarrow> nat option" where
  "memmem [] needle = (if needle = [] then Some 0 else None)"
| "memmem (x # s) needle =
     (if take (length needle) (x # s) = needle then Some 0 else map_option Suc (memmem s needle))"

text \<open>The search loop from offset \<open>idx\<close>: the values of \<open>v\<close> and \<open>idx\<close> on leaving it.\<close>

function search_loop :: "u8 list \<Rightarrow> nat \<Rightarrow> u8 list \<Rightarrow> nat \<Rightarrow> nat \<Rightarrow> u32 \<Rightarrow> nat \<Rightarrow> u64 \<Rightarrow> (u64 \<times> nat) option" where
  "search_loop s s_len value slen rng flags idx v =
     (if rng = 0 \<or> idx < rng
      then (if s_len < slen + idx then Some (1, idx)
            else case file_strncmp value (drop idx s) slen (s_len - idx) flags of
                None \<Rightarrow> None
              | Some v \<Rightarrow>
                  if v = 0 then Some (0, idx) else search_loop s s_len value slen rng flags (Suc idx) v)
      else Some (v, idx))"
  by pat_completeness auto
termination search_loop
  by (relation "measure (\<lambda>(s, s_len, value, slen, rng, flags, idx, v). Suc s_len - idx)") auto

declare search_loop.simps [simp del]

text \<open>The result is \<open>v\<close> and, when it is 0, the offset of the match.\<close>

definition search_value :: "bool \<Rightarrow> u8 list \<Rightarrow> nat \<Rightarrow> magic \<Rightarrow> (u64 \<times> nat) option" where
  "search_value have_memmem s s_len m =
     (let slen = min (unat (m_vallen m)) MAXstring; rng = unat (str_range m) in
      if have_memmem \<and> slen > 0 \<and> str_flags m = 0
      then (let idx = (if rng = 0 \<or> s_len < rng + slen then s_len else rng + slen) in
            case memmem (take idx s) (take slen (m_value m)) of
              None \<Rightarrow> Some (1, 0)
            | Some k \<Rightarrow> Some (0, k))
      else search_loop s s_len (m_value m) slen rng (str_flags m) 0 0)"

subsection \<open>Regular expressions\<close>

text \<open>\<open>strtoul\<close> in base 10 at the given characters: the value (saturated) and the rest; with no digits the rest
  is the whole.  Blanks and a sign are accepted as the library does.\<close>

definition strtoul10 :: "u8 list \<Rightarrow> nat \<times> u8 list" where
  "strtoul10 s =
     (let t = dropWhile isspace s;
          neg = (t \<noteq> [] \<and> hd t = 0x2d);
          u = (case t of c # r \<Rightarrow> if c = 0x2b \<or> c = 0x2d then r else t | [] \<Rightarrow> []);
          ds = takeWhile isdigit u;
          n = foldl (\<lambda>v d. v * 10 + (unat d - 0x30)) 0 ds;
          n = (if n < 2 ^ 64 then (if neg then (2 ^ 64 - n) mod 2 ^ 64 else n) else 2 ^ 64 - 1)
      in if ds = [] then (0, s) else (n, dropWhile isdigit u))"

definition wild :: "u8 list" where "wild = bytes_of ''?*+{''"

text \<open>\<^verbatim>\<open>strchr(wild, c) != NULL\<close>: the terminator counts as an element.\<close>

definition in_wild :: "u8 \<Rightarrow> bool" where "in_wild c \<longleftrightarrow> c = 0 \<or> c \<in> set wild"

definition brace_bounds_ok :: "u8 list \<Rightarrow> bool" where
  "brace_bounds_ok p =
     (case strtoul10 p of (l, ep) \<Rightarrow>
        \<not> (ep \<noteq> p \<and> l > 1000) \<and>
        (case ep of
           c # r \<Rightarrow> c = 0x2c \<longrightarrow> (case strtoul10 r of (l, eep) \<Rightarrow> \<not> (eep \<noteq> r \<and> l > 1000))
         | [] \<Rightarrow> True))"

fun check_regex_loop :: "u8 \<Rightarrow> u8 list \<Rightarrow> bool" where
  "check_regex_loop oc [] = True"
| "check_regex_loop oc (c # p) =
     (if in_wild oc \<and> in_wild c then False
      else if c = 0x7b \<and> (oc = 0x7d \<or> \<not> brace_bounds_ok p) then False
      else if isprint c \<or> isspace c \<or> c = 0x08 \<or> c = 0x8a then check_regex_loop c p
      else False)"

definition file_magwarn :: "magic_set \<Rightarrow> magic_set" where
  "file_magwarn ms = ms\<lparr>ms_magwarn := Suc (ms_magwarn ms) mod 2 ^ 16\<rparr>"

text \<open>The warnings go to standard error; what stays is their count.\<close>

definition check_regex :: "magic_set \<Rightarrow> u8 list \<Rightarrow> bool \<times> magic_set" where
  "check_regex ms pat = (if check_regex_loop 0 pat then (True, ms) else (False, file_magwarn ms))"

definition file_regcomp :: "env \<Rightarrow> magic_set \<Rightarrow> u8 list \<Rightarrow> bool \<Rightarrow> int \<times> magic_set" where
  "file_regcomp env ms pat icase =
     (case check_regex ms pat of (ok, ms) \<Rightarrow>
        if \<not> ok then (-1, ms)
        else
          (let rc = e_regcomp env pat icase in
           (rc, if rc > 0 \<and> has (ms_flags ms) MAGIC_CHECK
                then file_magerror ms (bytes_of ''regex error '' @ show_nat (nat rc) @ bytes_of '' for `'' @
                       file_printable ms 512 pat (length pat) @ [0x27] @ bytes_of '', ('' @ e_regerror env pat rc @ [0x29])
                else ms)))"

definition regex_icase :: "magic \<Rightarrow> bool" where
  "regex_icase m \<longleftrightarrow> has (str_flags m) STRING_IGNORE_CASE"

text \<open>The compiled expressions are a cache in the source; compiling again gives the same expression.\<close>

definition alloc_regex :: "env \<Rightarrow> magic_set \<Rightarrow> magic \<Rightarrow> bool \<times> magic_set" where
  "alloc_regex env ms m = (case file_regcomp env ms (cstr (m_value m)) (regex_icase m) of (rc, ms) \<Rightarrow> (rc = 0, ms))"

text \<open>The regular expression test on the search region; \<open>v\<close> as in the source, or \<open>Inl\<close> for a return.\<close>

definition regex_check :: "env \<Rightarrow> magic_set \<Rightarrow> magic \<Rightarrow> ((int + u64) \<times> magic_set) option" where
  "regex_check env ms m =
     (case ms_search_s ms of
        None \<Rightarrow> Some (Inl 0, ms)
      | Some s \<Rightarrow>
          (case alloc_regex env ms m of (ok, ms) \<Rightarrow>
             if \<not> ok then Some (Inl (-1), ms)
             else if length s < ms_search_len ms then None
             else
               (let slen = ms_search_len ms - 1; copy = cstr (take slen s) in
                case e_regexec env (cstr (m_value m)) (regex_icase m) copy of
                  Rx_match so eo \<Rightarrow>
                    if so < 0 \<or> eo < 0 \<or> eo < so \<or> int slen < eo then Some (Inr 1, ms)
                    else Some (Inr 0, ms\<lparr>ms_search_s := Some (drop (nat so) s),
                           ms_search_offset := ms_search_offset ms + nat so, ms_rm_len := nat (eo - so)\<rparr>)
                | Rx_nomatch \<Rightarrow> Some (Inr 1, ms)
                | Rx_error \<Rightarrow> Some (Inl (-1), ms))))"

subsection \<open>The comparison\<close>

definition float_reln :: "magic_set \<Rightarrow> u8 \<Rightarrow> u8 list \<Rightarrow> int option \<Rightarrow> int \<times> magic_set" where
  "float_reln ms reln what cmp =
     (let ret = (\<lambda>b. (if b then 1 else 0, ms)) in
      if reln = 0x78 then ret True
      else if reln = 0x21 then ret (cmp \<noteq> Some 0)
      else if reln = 0x3d then ret (cmp = Some 0)
      else if reln = 0x3e then ret (case cmp of Some c \<Rightarrow> c > 0 | None \<Rightarrow> False)
      else if reln = 0x3c then ret (case cmp of Some c \<Rightarrow> c < 0 | None \<Rightarrow> False)
      else (-1, file_magerror ms (bytes_of ''cannot happen with '' @ what @ bytes_of '': invalid relation `'' @ [reln, 0x27])))"

definition int_reln :: "magic_set \<Rightarrow> magic \<Rightarrow> u64 \<Rightarrow> u64 \<Rightarrow> int \<times> magic_set" where
  "int_reln ms m v l =
     (let reln = m_reln m; uns = has (m_flag m) UNSIGNED; ret = (\<lambda>b. (if b then 1 else 0, ms)) in
      if reln = 0x78 then ret True
      else if reln = 0x21 then ret (v \<noteq> l)
      else if reln = 0x3d then ret (v = l)
      else if reln = 0x3e then ret (if uns then v > l else sint v > sint l)
      else if reln = 0x3c then ret (if uns then v < l else sint v < sint l)
      else if reln = 0x26 then ret (v AND l = l)
      else if reln = 0x5e then ret (v AND l \<noteq> l)
      else (-1, file_magerror ms (bytes_of ''cannot happen: invalid relation `'' @ [reln, 0x27])))"

text \<open>\<^verbatim>\<open>memcmp\<close>; only the sign of its answer is specified, and only the sign is used.\<close>

fun memcmp :: "u8 list \<Rightarrow> u8 list \<Rightarrow> int" where
  "memcmp (a # as) (b # bs) = (if a < b then -1 else if b < a then 1 else memcmp as bs)"
| "memcmp _ _ = 0"

definition magiccheck :: "env \<Rightarrow> magic_set \<Rightarrow> magic \<Rightarrow> (int \<times> magic_set) option" where
  "magiccheck env ms m =
     (let p = ms_value ms; t = m_type m; l = val_q (m_value m);
          cmp = (\<lambda>v l. Some (int_reln ms m (file_signextend m v) l));
          str = (\<lambda>r. case r of None \<Rightarrow> None | Some v \<Rightarrow> cmp v 0) in
      if t = FILE_BYTE then cmp (ucast (val_b p)) l
      else if t = FILE_SHORT \<or> t = FILE_BESHORT \<or> t = FILE_LESHORT \<or> t = FILE_MSDOSDATE \<or> t = FILE_LEMSDOSDATE \<or>
              t = FILE_BEMSDOSDATE \<or> t = FILE_MSDOSTIME \<or> t = FILE_LEMSDOSTIME \<or> t = FILE_BEMSDOSTIME then cmp (ucast (val_h p)) l
      else if t = FILE_LONG \<or> t = FILE_BELONG \<or> t = FILE_LELONG \<or> t = FILE_MELONG \<or>
              t = FILE_DATE \<or> t = FILE_BEDATE \<or> t = FILE_LEDATE \<or> t = FILE_MEDATE \<or>
              t = FILE_LDATE \<or> t = FILE_BELDATE \<or> t = FILE_LELDATE \<or> t = FILE_MELDATE then cmp (ucast (val_l p)) l
      else if t = FILE_QUAD \<or> t = FILE_LEQUAD \<or> t = FILE_BEQUAD \<or> t = FILE_QDATE \<or> t = FILE_BEQDATE \<or> t = FILE_LEQDATE \<or>
              t = FILE_QLDATE \<or> t = FILE_BEQLDATE \<or> t = FILE_LEQLDATE \<or> t = FILE_QWDATE \<or> t = FILE_BEQWDATE \<or>
              t = FILE_LEQWDATE \<or> t = FILE_OFFSET then cmp (val_q p) l
      else if t = FILE_FLOAT \<or> t = FILE_BEFLOAT \<or> t = FILE_LEFLOAT then
        Some (float_reln ms (m_reln m) (bytes_of ''float'') (e_fcmp env (val_l p) (val_l (m_value m))))
      else if t = FILE_DOUBLE \<or> t = FILE_BEDOUBLE \<or> t = FILE_LEDOUBLE then
        Some (float_reln ms (m_reln m) (bytes_of ''double'') (e_dcmp env (val_q p) (val_q (m_value m))))
      else if t = FILE_DEFAULT \<or> t = FILE_CLEAR then cmp 0 0
      else if t = FILE_STRING \<or> t = FILE_PSTRING \<or> t = FILE_OCTAL then
        str (file_strncmp (m_value m) p (unat (m_vallen m)) MAXstring (str_flags m))
      else if t = FILE_BESTRING16 \<or> t = FILE_LESTRING16 then
        str (file_strncmp16 (m_value m) p (unat (m_vallen m)) MAXstring (str_flags m))
      else if t = FILE_SEARCH then
        (case ms_search_s ms of
           None \<Rightarrow> Some (0, ms)
         | Some s \<Rightarrow>
             if length s < ms_search_len ms then None
             else case search_value (e_memmem env) s (ms_search_len ms) m of
                 None \<Rightarrow> None
               | Some (v, idx) \<Rightarrow>
                   (let ms = (if v = 0 then ms\<lparr>ms_search_offset := ms_search_offset ms + idx,
                                              ms_rm_len := ms_search_len ms - idx\<rparr> else ms) in
                    Some (int_reln ms m (file_signextend m v) 0)))
      else if t = FILE_REGEX then
        (case regex_check env ms m of
           None \<Rightarrow> None
         | Some (Inl r, ms) \<Rightarrow> Some (r, ms)
         | Some (Inr v, ms) \<Rightarrow> Some (int_reln ms m (file_signextend m v) 0))
      else if t = FILE_USE then Some (if val_q p \<noteq> 0 then 1 else 0, ms)
      else if t = FILE_NAME \<or> t = FILE_INDIRECT then Some (1, ms)
      else if t = FILE_DER then map_option (\<lambda>(r, ms). (if r = -1 then 0 else r, ms)) (der_cmp ms m)
      else if t = FILE_BEGUID \<or> t = FILE_LEGUID \<or> t = FILE_GUID then
        cmp (word_of_int (memcmp (take 16 (m_value m)) (take 16 p))) 0
      else Some (-1, file_magerror ms (bytes_of ''invalid type '' @ show_nat (unat t) @ bytes_of '' in magiccheck()'')))"

end
