(* ===== verification/Softprint.thy ===== *)
theory Softprint
  imports Magiccheck
begin

text \<open>
  What a matching entry prints and where its continuations start: \<^verbatim>\<open>varexpand\<close>, \<^verbatim>\<open>check_fmt\<close>, \<^verbatim>\<open>mprint\<close>,
  \<^verbatim>\<open>moffset\<close>, \<^verbatim>\<open>print_sep\<close> and \<^verbatim>\<open>handle_annotation\<close> of \<^verbatim>\<open>src/softmagic.c\<close>, with the date and number formatting
  of \<^verbatim>\<open>src/print.c\<close> and the GUID printers of \<^verbatim>\<open>src/funcs.c\<close>.
\<close>

subsection \<open>Expansion of descriptions\<close>

text \<open>\<^verbatim>\<open>strstr(s, "${")\<close>: what comes before it and after it.\<close>

fun split_var :: "u8 list \<Rightarrow> (u8 list \<times> u8 list) option" where
  "split_var (a # b # s) =
     (if a = 0x24 \<and> b = 0x7b then Some ([], s)
      else map_option (\<lambda>(x, y). (a # x, y)) (split_var (b # s)))"
| "split_var _ = None"

text \<open>The characters up to \<open>c\<close>, and those after it.\<close>

definition upto_char :: "u8 \<Rightarrow> u8 list \<Rightarrow> (u8 list \<times> u8 list) option" where
  "upto_char c s = (case dropWhile (\<lambda>x. x \<noteq> c) s of [] \<Rightarrow> None | _ # r \<Rightarrow> Some (takeWhile (\<lambda>x. x \<noteq> c) s, r))"

lemma split_var_length: "split_var s = Some (x, y) \<Longrightarrow> length y < length s"
  by (induction s arbitrary: x rule: split_var.induct) (auto split: if_splits)

lemma upto_char_length: "upto_char c s = Some (x, y) \<Longrightarrow> length y < length s"
  using length_dropWhile_le [of "\<lambda>x. x \<noteq> c" s] by (auto simp: upto_char_def split: list.splits)

text \<open>\<open>len\<close> is the room in the buffer, \<open>mode\<close> the file mode of the file under test; \<open>None\<close> is -1.\<close>

function varexpand :: "u32 \<Rightarrow> nat \<Rightarrow> u8 list \<Rightarrow> u8 list option" where
  "varexpand mode len s =
     (case split_var s of
        None \<Rightarrow> if len \<le> length s then None else Some s
      | Some (pre, ptr) \<Rightarrow>
          if len \<le> length pre then None
          else (case ptr of
                  c # q # t \<Rightarrow>
                    if q \<noteq> 0x3f then None
                    else (case upto_char 0x3a t of
                            None \<Rightarrow> None
                          | Some (yes, e) \<Rightarrow>
                              (case upto_char 0x7d e of
                                 None \<Rightarrow> None
                               | Some (no, rest) \<Rightarrow>
                                   if c \<noteq> 0x78 then None
                                   else
                                     (let len = len - length pre; w = (if has mode 0x49 then yes else no) in
                                      if len \<le> length w then None
                                      else map_option (\<lambda>r. pre @ w @ r) (varexpand mode (len - length w) rest))))
                | _ \<Rightarrow> None))"
  by pat_completeness auto
termination varexpand
  by (relation "measure (\<lambda>(mode, len, s). length s)") (auto dest!: split_var_length upto_char_length)

declare varexpand.simps [simp del]

subsection \<open>Checked formats\<close>

definition check_fmt :: "env \<Rightarrow> magic_set \<Rightarrow> u8 list \<Rightarrow> int \<times> magic_set" where
  "check_fmt env ms fmt =
     (if 0x25 \<notin> set fmt then (0, ms)
      else
        (let pat = bytes_of ''%[-0-9'' @ [0x5c] @ bytes_of ''.]*s'' in
         case file_regcomp env ms pat False of (rc, ms) \<Rightarrow>
           if rc \<noteq> 0 then (-1, ms)
           else (case e_regexec env pat False fmt of Rx_match _ _ \<Rightarrow> (1, ms) | _ \<Rightarrow> (0, ms))))"

text \<open>The message names the place in the source by file only.\<close>

definition file_fmtcheck :: "env \<Rightarrow> magic_set \<Rightarrow> u8 list \<Rightarrow> u8 list \<Rightarrow> u8 list \<times> magic_set" where
  "file_fmtcheck env ms desc def =
     (if 0x25 \<notin> set desc then (desc, ms)
      else if e_fmtcheck env desc def then (desc, ms)
      else (def, file_magerror ms (bytes_of ''softmagic.c: format `'' @ desc @ [0x27] @ bytes_of '' does not match with `'' @ def @ [0x27])))"

text \<open>\<^verbatim>\<open>file_printf(ms, F(ms, desc, def), arg)\<close>.\<close>

definition print_checked :: "env \<Rightarrow> magic_set \<Rightarrow> u8 list \<Rightarrow> string \<Rightarrow> farg \<Rightarrow> int \<times> magic_set" where
  "print_checked env ms desc def arg =
     (case file_fmtcheck env ms desc (bytes_of def) of (fmt, ms) \<Rightarrow> file_vprintf ms fmt (e_format env fmt arg))"

definition show_int :: "int \<Rightarrow> u8 list" where
  "show_int i = (if i < 0 then 0x2d # show_nat (nat (- i)) else show_nat (nat i))"

text \<open>A 64-bit number cast to a type of \<open>w\<close> bits.\<close>

definition cast_int :: "bool \<Rightarrow> nat \<Rightarrow> u64 \<Rightarrow> int" where
  "cast_int uns w v = (if uns then take_bit w (uint v) else signed_take_bit (w - 1) (uint v))"

definition PRINTER :: "env \<Rightarrow> magic_set \<Rightarrow> magic \<Rightarrow> u8 list \<Rightarrow> string \<Rightarrow> nat \<Rightarrow> u64 \<Rightarrow> int \<times> magic_set" where
  "PRINTER env ms m desc fmt w val =
     (let uns = has (m_flag m) UNSIGNED; i = cast_int uns w (file_signextend m val) in
      case check_fmt env ms desc of (r, ms) \<Rightarrow>
        if r = -1 then (-1, ms)
        else if r = 1 then print_checked env ms desc ''%s'' (Fstr (show_int i))
        else print_checked env ms desc (''%'' @ fmt @ (if uns then ''u'' else ''d'')) (Fint i))"

subsection \<open>Dates and numbers\<close>

abbreviation (input) FILE_T_LOCAL :: nat where "FILE_T_LOCAL \<equiv> 1"
abbreviation (input) FILE_T_WINDOWS :: nat where "FILE_T_WINDOWS \<equiv> 2"
abbreviation (input) MAX_CTIME :: int where "MAX_CTIME \<equiv> 0x3afff487cf"

definition file_fmtdatetime :: "env \<Rightarrow> u64 \<Rightarrow> nat \<Rightarrow> u8 list" where
  "file_fmtdatetime env v flags =
     (let t = (if flags = FILE_T_WINDOWS then tv_sec (snd (cdf_timestamp_to_timespec (e_mktime env) (sint v))) else sint v) in
      if t > MAX_CTIME then bytes_of ''*Invalid datetime*''
      else case e_asctime env (flags = FILE_T_LOCAL) t of
          None \<Rightarrow> bytes_of ''*Invalid datetime*''
        | Some pp \<Rightarrow> takeWhile (\<lambda>c. c \<noteq> 0x0a) pp)"

definition file_fmtdate :: "env \<Rightarrow> u16 \<Rightarrow> u8 list" where
  "file_fmtdate env v =
     (let mon = uint (drop_bit 5 v AND 0xf) - 1; mon = (if mon < 0 \<or> mon > 11 then 0 else mon) in
      case e_strftime env (bytes_of ''%b %d %Y'') \<lparr>tm_sec = 0, tm_min = 0, tm_hour = 0, tm_mday = uint (v AND 0x1f),
             tm_mon = mon, tm_year = uint (drop_bit 9 v) + 80\<rparr> of
        None \<Rightarrow> bytes_of ''*Invalid date*''
      | Some s \<Rightarrow> s)"

definition file_fmttime :: "env \<Rightarrow> u16 \<Rightarrow> u8 list" where
  "file_fmttime env v =
     (case e_strftime env (bytes_of ''%T'') \<lparr>tm_sec = uint (v AND 0x1f) * 2, tm_min = uint (drop_bit 5 v AND 0x3f),
             tm_hour = uint (drop_bit 11 v), tm_mday = 0, tm_mon = 0, tm_year = 0\<rparr> of
        None \<Rightarrow> bytes_of ''*Invalid time*''
      | Some s \<Rightarrow> s)"

text \<open>\<^verbatim>\<open>strtoull\<close> in base 8: the value, whether it overflows, and the rest.\<close>

definition isoct :: "u8 \<Rightarrow> bool" where "isoct c \<longleftrightarrow> 0x30 \<le> c \<and> c \<le> 0x37"

definition strtoull8 :: "u8 list \<Rightarrow> u64 \<times> bool \<times> u8 list" where
  "strtoull8 s =
     (let t = dropWhile isspace s;
          neg = (t \<noteq> [] \<and> hd t = 0x2d);
          u = (case t of c # r \<Rightarrow> if c = 0x2b \<or> c = 0x2d then r else t | [] \<Rightarrow> []);
          ds = takeWhile isoct u;
          n = foldl (\<lambda>v d. v * 8 + (uint d - 0x30)) 0 ds;
          over = (2 ^ 64 \<le> n)
      in if ds = [] then (0, False, s)
         else (if over then -1 else word_of_int (if neg then - n else n), over, dropWhile isoct u))"

definition file_fmtnum8 :: "u8 list \<Rightarrow> u8 list" where
  "file_fmtnum8 us =
     (case strtoull8 (cstr us) of (val, over, endptr) \<Rightarrow>
        if endptr \<noteq> [] \<or> over then bytes_of ''*Invalid number*'' else show_nat (unat val))"

definition guid_of :: "u8 list \<Rightarrow> guid" where
  "guid_of v = \<lparr>data1 = host_word False (take 4 v), data2 = host_word False (take 2 (drop 4 v)),
     data3 = host_word False (take 2 (drop 6 v)), data4 = take 8 (drop 8 v)\<rparr>"

definition file_print_leguid :: "u8 list \<Rightarrow> u8 list" where
  "file_print_leguid v = file_print_guid (guid_of v)"

definition file_print_beguid :: "u8 list \<Rightarrow> u8 list" where
  "file_print_beguid v =
     (let g = guid_of v in
      file_print_guid (g\<lparr>data1 := file_swap4 False (data1 g), data2 := file_swap2 False (data2 g),
        data3 := file_swap2 False (data3 g)\<rparr>))"

subsection \<open>Printing the description\<close>

text \<open>\<^verbatim>\<open>str[strcspn(str, "\r\n")] = '\0'\<close> on the value union.\<close>

definition cut_line :: "u8 list \<Rightarrow> u8 list" where
  "cut_line v = v[length (takeWhile (\<lambda>c. c \<noteq> 0x0d \<and> c \<noteq> 0x0a) (cstr v)) := 0]"

text \<open>The terminator that \<^verbatim>\<open>file_strtrim\<close> writes into the union.\<close>

definition trim_value :: "u8 list \<Rightarrow> u8 list" where
  "trim_value v =
     (let s = cstr v in
      if dropWhile isspace s = [] then v else v[length (dropWhile isspace (rev s)) := 0])"

definition first_nul :: "magic \<Rightarrow> bool" where "first_nul m \<longleftrightarrow> cstr (m_value m) = []"

definition mprint_desc :: "magic_set \<Rightarrow> magic \<Rightarrow> u8 list" where
  "mprint_desc ms m =
     (let d = cstr (m_desc m) in case varexpand (ms_mode ms) 512 d of None \<Rightarrow> d | Some e \<Rightarrow> e)"

text \<open>The string types: the magic's own value, or the text found, cut at the end of the line and trimmed as the
  entry asks, in place.\<close>

definition mprint_string :: "env \<Rightarrow> magic_set \<Rightarrow> magic \<Rightarrow> int \<times> magic_set" where
  "mprint_string env ms m =
     (let p = ms_value ms; desc = mprint_desc ms m;
          str = (\<lambda>ms x n. print_checked env ms desc ''%s'' (Fstr (file_printable ms 512 x n))) in
      if m_reln m = 0x3d \<or> m_reln m = 0x21 then str ms (m_value m) MAXstring
      else
        (let v = (if first_nul m then cut_line p else p); trim = has (str_flags m) STRING_TRIM;
             skip = (if trim then length (takeWhile isspace (cstr v)) else 0); v = (if trim then trim_value v else v) in
         case str (ms\<lparr>ms_value := v\<rparr>) (drop skip v) (MAXstring - skip) of (r, ms) \<Rightarrow>
           if r = -1 then (-1, ms)
           else if m_type m = FILE_PSTRING
           then (case file_pstring_length_size ms m of (l, ms) \<Rightarrow> (if l = FILE_BADSIZE then -1 else 0, ms))
           else (0, ms)))"

definition mprint_float :: "env \<Rightarrow> magic_set \<Rightarrow> magic \<Rightarrow> farg \<Rightarrow> int \<times> magic_set" where
  "mprint_float env ms m x =
     (let desc = mprint_desc ms m in
      case check_fmt env ms desc of (r, ms) \<Rightarrow>
        if r = -1 then (-1, ms)
        else if r = 1
        then print_checked env ms desc ''%s'' (Fstr (case e_format env (bytes_of ''%g'') x of Some b \<Rightarrow> take 127 b | None \<Rightarrow> []))
        else print_checked env ms desc ''%g'' x)"

definition mprint :: "env \<Rightarrow> magic_set \<Rightarrow> magic \<Rightarrow> (int \<times> magic_set) option" where
  "mprint env ms m =
     (let p = ms_value ms; t = m_type m; desc = mprint_desc ms m;
          str = (\<lambda>x. Some (print_checked env ms desc ''%s'' (Fstr x))) in
      if t = FILE_BYTE then Some (PRINTER env ms m desc '''' 8 (ucast (val_b p)))
      else if t = FILE_SHORT \<or> t = FILE_BESHORT \<or> t = FILE_LESHORT then Some (PRINTER env ms m desc '''' 16 (ucast (val_h p)))
      else if t = FILE_LONG \<or> t = FILE_BELONG \<or> t = FILE_LELONG \<or> t = FILE_MELONG then
        Some (PRINTER env ms m desc '''' 32 (ucast (val_l p)))
      else if t = FILE_QUAD \<or> t = FILE_BEQUAD \<or> t = FILE_LEQUAD \<or> t = FILE_OFFSET then
        Some (PRINTER env ms m desc ''ll'' 64 (val_q p))
      else if t = FILE_STRING \<or> t = FILE_PSTRING \<or> t = FILE_BESTRING16 \<or> t = FILE_LESTRING16 then
        Some (mprint_string env ms m)
      else if t = FILE_DATE \<or> t = FILE_BEDATE \<or> t = FILE_LEDATE \<or> t = FILE_MEDATE then
        str (file_fmtdatetime env (ucast (val_l p)) 0)
      else if t = FILE_LDATE \<or> t = FILE_BELDATE \<or> t = FILE_LELDATE \<or> t = FILE_MELDATE then
        str (file_fmtdatetime env (ucast (val_l p)) FILE_T_LOCAL)
      else if t = FILE_QDATE \<or> t = FILE_BEQDATE \<or> t = FILE_LEQDATE then str (file_fmtdatetime env (val_q p) 0)
      else if t = FILE_QLDATE \<or> t = FILE_BEQLDATE \<or> t = FILE_LEQLDATE then str (file_fmtdatetime env (val_q p) FILE_T_LOCAL)
      else if t = FILE_QWDATE \<or> t = FILE_BEQWDATE \<or> t = FILE_LEQWDATE then str (file_fmtdatetime env (val_q p) FILE_T_WINDOWS)
      else if t = FILE_FLOAT \<or> t = FILE_BEFLOAT \<or> t = FILE_LEFLOAT then Some (mprint_float env ms m (Ffloat (val_l p)))
      else if t = FILE_DOUBLE \<or> t = FILE_BEDOUBLE \<or> t = FILE_LEDOUBLE then Some (mprint_float env ms m (Fdouble (val_q p)))
      else if t = FILE_SEARCH \<or> t = FILE_REGEX then
        (case ms_search_s ms of
           None \<Rightarrow> Some (0, ms)
         | Some s \<Rightarrow>
             (case read_str s 0 (ms_rm_len ms) of
                None \<Rightarrow> None
              | Some cp \<Rightarrow>
                  str (file_printable ms 512 (if has (str_flags m) STRING_TRIM then file_strtrim cp else cp) (ms_rm_len ms))))
      else if t = FILE_DEFAULT \<or> t = FILE_CLEAR then Some (file_printf ms (cstr (m_desc m)))
      else if t = FILE_INDIRECT \<or> t = FILE_USE \<or> t = FILE_NAME then Some (0, ms)
      else if t = FILE_DER then str (file_printable ms 512 p MAXstring)
      else if t = FILE_GUID \<or> t = FILE_LEGUID then str (file_print_leguid p)
      else if t = FILE_BEGUID then str (file_print_beguid p)
      else if t = FILE_MSDOSDATE \<or> t = FILE_BEMSDOSDATE \<or> t = FILE_LEMSDOSDATE then str (file_fmtdate env (val_h p))
      else if t = FILE_MSDOSTIME \<or> t = FILE_BEMSDOSTIME \<or> t = FILE_LEMSDOSTIME then str (file_fmttime env (val_h p))
      else if t = FILE_OCTAL then str (file_fmtnum8 (m_value m))
      else Some (-1, file_magerror ms (bytes_of ''invalid m->type ('' @ show_nat (unat t) @ bytes_of '') in mprint()'')))"

subsection \<open>The offset after a match\<close>

text \<open>The answer, what is stored through \<^verbatim>\<open>op\<close>, if anything, and the query.\<close>

definition moffset :: "magic_set \<Rightarrow> magic \<Rightarrow> nat \<Rightarrow> nat \<Rightarrow> (int \<times> u32 option \<times> magic_set) option" where
  "moffset ms m nbytes offset =
     (let t = m_type m;
          fin = (\<lambda>(off :: u32) ms. if sint off < 0 \<or> nbytes < unat off then Some (-1, None, ms) else Some (1, Some off, ms));
          after = (\<lambda>n. fin (ms_offset ms + n) ms) in
      if t = FILE_BYTE then after 1
      else if t = FILE_SHORT \<or> t = FILE_BESHORT \<or> t = FILE_LESHORT \<or> t = FILE_MSDOSDATE \<or> t = FILE_LEMSDOSDATE \<or>
              t = FILE_BEMSDOSDATE \<or> t = FILE_MSDOSTIME \<or> t = FILE_LEMSDOSTIME \<or> t = FILE_BEMSDOSTIME then after 2
      else if t = FILE_LONG \<or> t = FILE_BELONG \<or> t = FILE_LELONG \<or> t = FILE_MELONG then after 4
      else if t = FILE_QUAD \<or> t = FILE_BEQUAD \<or> t = FILE_LEQUAD then after 8
      else if t = FILE_STRING \<or> t = FILE_PSTRING \<or> t = FILE_BESTRING16 \<or> t = FILE_LESTRING16 \<or> t = FILE_OCTAL then
        (if m_reln m = 0x3d \<or> m_reln m = 0x21 then after (ucast (m_vallen m))
         else
           (let v = (if first_nul m then cut_line (ms_value ms) else ms_value ms); ms = ms\<lparr>ms_value := v\<rparr>;
                off = ms_offset ms + word_of_nat (length (cstr v)) in
            if t = FILE_PSTRING
            then (case file_pstring_length_size ms m of (l, ms) \<Rightarrow>
                    if l = FILE_BADSIZE then Some (-1, None, ms) else fin (off + ucast l) ms)
            else fin off ms))
      else if t = FILE_DATE \<or> t = FILE_BEDATE \<or> t = FILE_LEDATE \<or> t = FILE_MEDATE \<or>
              t = FILE_LDATE \<or> t = FILE_BELDATE \<or> t = FILE_LELDATE \<or> t = FILE_MELDATE then after 4
      else if t = FILE_QDATE \<or> t = FILE_BEQDATE \<or> t = FILE_LEQDATE \<or> t = FILE_QLDATE \<or> t = FILE_BEQLDATE \<or> t = FILE_LEQLDATE then after 8
      else if t = FILE_FLOAT \<or> t = FILE_BEFLOAT \<or> t = FILE_LEFLOAT then after 4
      else if t = FILE_DOUBLE \<or> t = FILE_BEDOUBLE \<or> t = FILE_LEDOUBLE then after 8
      else if t = FILE_REGEX \<or> t = FILE_SEARCH then
        (let vlen = (if has (str_flags m) REGEX_OFFSET_START then 0
                     else if t = FILE_REGEX then ms_rm_len ms else unat (m_vallen m)) in
         fin (word_of_int (int (ms_search_offset ms) + int vlen - int offset)) ms)
      else if t = FILE_CLEAR \<or> t = FILE_DEFAULT \<or> t = FILE_INDIRECT \<or> t = FILE_OFFSET \<or> t = FILE_USE then after 0
      else if t = FILE_DER then
        (case der_offs ms m nbytes of
           None \<Rightarrow> None
         | Some (off, ms) \<Rightarrow>
             if off < 0 \<or> int nbytes < off then Some (0, Some 0, ms) else fin (word_of_int off) ms)
      else if t = FILE_BEGUID \<or> t = FILE_LEGUID \<or> t = FILE_GUID then after 16
      else fin 0 ms)"

subsection \<open>Annotations\<close>

definition print_sep :: "magic_set \<Rightarrow> bool \<Rightarrow> int \<times> magic_set" where
  "print_sep ms firstline = (if firstline then (0, ms) else file_separator ms)"

definition annotate :: "magic_set \<Rightarrow> bool \<Rightarrow> u8 list \<Rightarrow> int \<times> magic_set" where
  "annotate ms firstline t =
     (if \<not> firstline \<and> \<not> has (ms_flags ms) MAGIC_CONTINUE then (1, ms)
      else case print_sep ms firstline of (r, ms) \<Rightarrow> if r = -1 then (-1, ms) else say ms t)"

definition handle_annotation :: "magic_set \<Rightarrow> magic \<Rightarrow> bool \<Rightarrow> int \<times> magic_set" where
  "handle_annotation ms m firstline =
     (if has (ms_flags ms) MAGIC_APPLE \<and> cstr (m_apple m) \<noteq> [] then annotate ms firstline (cstr (take 8 (m_apple m)))
      else if has (ms_flags ms) MAGIC_EXTENSION \<and> cstr (m_ext m) \<noteq> [] then annotate ms firstline (cstr (m_ext m))
      else if has (ms_flags ms) MAGIC_MIME_TYPE \<and> cstr (m_mimetype m) \<noteq> [] then
        annotate ms firstline (case varexpand (ms_mode ms) 1024 (cstr (m_mimetype m)) of
            None \<Rightarrow> cstr (m_mimetype m) | Some p \<Rightarrow> p)
      else (0, ms))"

end
