(* ===== verification/Softmagic.thy ===== *)
theory Softmagic
  imports Softprint
begin

text \<open>
  The engine of \<^verbatim>\<open>src/softmagic.c\<close>: placing the test (\<^verbatim>\<open>msetoffset\<close>), fetching the value (\<^verbatim>\<open>mget\<close>), walking the
  entries and their continuations (\<^verbatim>\<open>match\<close>) and the whole database (\<^verbatim>\<open>file_softmagic\<close>), with
  \<^verbatim>\<open>file_magicfind\<close> of \<^verbatim>\<open>src/apprentice.c\<close>.

  \<^verbatim>\<open>mget\<close> calls \<^verbatim>\<open>match\<close> again for \<^verbatim>\<open>indirect\<close> and \<^verbatim>\<open>use\<close> entries; here it takes that recursive call as the parameter
  \<open>rec\<close>, the two loops of \<^verbatim>\<open>match\<close> take \<open>mget\<close>, and \<open>match_fuel\<close> ties the knot with a bound on the depth of the
  recursion.  The out parameters of \<^verbatim>\<open>match\<close> are the fields of \<open>mstate\<close>.  As in the theories below, \<open>None\<close> is
  undefined behaviour (or, in \<open>match_fuel\<close>, an exhausted bound).
\<close>

record mstate =
  st_ms :: magic_set
  st_ic :: nat
  st_nc :: nat
  st_printed :: bool
  st_needsep :: bool
  st_first :: bool
  st_ret :: int
  st_found :: bool

text \<open>The parameters of \<^verbatim>\<open>match\<close> that do not change while it runs.\<close>

record mctx =
  c_b :: buffer
  c_o :: nat
  c_mode :: u16
  c_text :: bool
  c_flip :: bool

subsection \<open>Placing the test\<close>

text \<open>\<open>bb\<close> is the contents of the working buffer; the answer, the new working buffer and the query.\<close>

definition msetoffset :: "magic_set \<Rightarrow> magic \<Rightarrow> u8 list \<Rightarrow> buffer \<Rightarrow> nat \<Rightarrow> nat \<Rightarrow> int \<times> u8 list \<times> magic_set" where
  "msetoffset ms m bb b off cont_level =
     (let normal = (\<lambda>ofs. (0, b_fbuf b, ms\<lparr>ms_offset := ofs, ms_eoffset := 0\<rparr>));
          place = (\<lambda>n bb. if sint (m_offset m) < 0 \<or> n < unat (m_offset m) then (-1, bb, ms)
                          else let ofs = word_of_nat (n - unat (m_offset m)) in
                            (0, bb, ms\<lparr>ms_offset := ofs, ms_eoffset := ofs\<rparr>)) in
      if has (m_flag m) OFFNEGATIVE then
        (if cont_level > 0 \<and> has (m_flag m) (OFFADD OR INDIROFFADD) then normal (- m_offset m)
         else case buffer_fill b of
             None \<Rightarrow> (-1, bb, ms)
           | Some ebuf \<Rightarrow>
               if off \<noteq> 0 then
                 (-1, bb, file_magerror ms (bytes_of ''non zero offset '' @ show_nat off @ bytes_of '' at level '' @ show_nat cont_level))
               else if b_fd b = -1 then place (length (b_fbuf b)) bb
               else if sint (m_offset m) < 0 \<or> length ebuf < unat (m_offset m) then (-1, bb, ms)
               else place (length ebuf) ebuf)
      else if has (m_flag m) OFFPOSITIVE \<or> cont_level = 0 then normal (m_offset m)
      else (0, bb, ms\<lparr>ms_offset := ms_eoffset ms + m_offset m\<rparr>))"

subsection \<open>Indirect offsets\<close>

text \<open>\<^verbatim>\<open>strtoull(p->s, NULL, 8)\<close> on the union, which need not hold a terminator.\<close>

definition oct_value :: "u8 list \<Rightarrow> u64 option" where
  "oct_value p = (case strtoull8 (cstr p) of (n, _, rest) \<Rightarrow> if rest = [] \<and> 0 \<notin> set p then None else Some n)"

text \<open>The number that an indirect type reads at the start of \<open>h\<close>, with its width in bytes; \<^verbatim>\<open>id3\<close> types are
  converted only for the offset itself.\<close>

definition in_value :: "u8 \<Rightarrow> bool \<Rightarrow> bool \<Rightarrow> u8 list \<Rightarrow> (nat \<times> int) option" where
  "in_value t sg id3 h =
     (if t = FILE_BYTE then Some (1, SEXT sg (h ! 0))
      else if t = FILE_SHORT then Some (2, SEXT sg (val_h h))
      else if t = FILE_BESHORT then Some (2, SEXT sg (BE16 h))
      else if t = FILE_LESHORT then Some (2, SEXT sg (LE16 h))
      else if t = FILE_LONG then Some (4, SEXT sg (val_l h))
      else if t = FILE_BELONG then Some (4, SEXT sg (BE32 h))
      else if t = FILE_BEID3 then Some (4, SEXT sg (if id3 then cvt_id3 (BE32 h) else BE32 h))
      else if t = FILE_LELONG then Some (4, SEXT sg (LE32 h))
      else if t = FILE_LEID3 then Some (4, SEXT sg (if id3 then cvt_id3 (LE32 h) else LE32 h))
      else if t = FILE_MELONG then Some (4, SEXT sg (ME32 h))
      else if t = FILE_BEQUAD then Some (8, SEXT sg (BE64 h))
      else if t = FILE_LEQUAD then Some (8, SEXT sg (LE64 h))
      else None)"

text \<open>The operand \<^verbatim>\<open>off\<close> of the operator, read from the file when the entry says so.  In this and the next
  definition \<open>Some None\<close> is the answer 0 of \<^verbatim>\<open>mget\<close>.\<close>

definition in_operand :: "magic_set \<Rightarrow> magic \<Rightarrow> bool \<Rightarrow> u8 list \<Rightarrow> u32 \<Rightarrow> int option option" where
  "in_operand ms m flip s offset =
     (let off = sint (m_in_offset m); sg = has (m_in_op m) FILE_OPSIGNED; n = length s; t = cvt_flip (m_in_type m) flip;
          at = uint offset + off in
      if \<not> has (m_in_op m) FILE_OPINDIRECT then Some (Some off)
      else if offset_oob n at 0 then Some None
      else if t = FILE_OCTAL then
        (if offset_oob n (uint offset) (unat (m_vallen m)) then Some None
         else case oct_value (ms_value ms) of None \<Rightarrow> None | Some w \<Rightarrow> Some (Some (SEXT sg w)))
      else case in_value t sg False (drop (nat at) s) of
          None \<Rightarrow> Some None
        | Some (k, v) \<Rightarrow> if offset_oob n at k then Some None else Some (Some v))"

definition in_offset :: "magic_set \<Rightarrow> magic \<Rightarrow> bool \<Rightarrow> nat \<Rightarrow> u32 \<Rightarrow> int \<Rightarrow> u32 option option" where
  "in_offset ms m flip n offset off =
     (let sg = has (m_in_op m) FILE_OPSIGNED; t = cvt_flip (m_in_type m) flip in
      if t = FILE_OCTAL then
        (if offset_oob n (uint offset) (unat (m_vallen m)) then Some None
         else case oct_value (ms_value ms) of None \<Rightarrow> None | Some w \<Rightarrow> do_ops m (SEXT sg w) off)
      else case in_value t sg True (ms_value ms) of
          None \<Rightarrow> Some None
        | Some (k, lhs) \<Rightarrow> if offset_oob n (uint offset) k then Some None else do_ops m lhs off)"

text \<open>The whole \<^verbatim>\<open>INDIR\<close> part up to the second copy: the new offset.\<close>

definition mget_indir :: "magic_set \<Rightarrow> magic \<Rightarrow> bool \<Rightarrow> u8 list \<Rightarrow> u32 \<Rightarrow> nat \<Rightarrow> u32 option option" where
  "mget_indir ms m flip s offset cont_level =
     (case in_operand ms m flip s offset of
        None \<Rightarrow> None
      | Some None \<Rightarrow> Some None
      | Some (Some off) \<Rightarrow>
          (case in_offset ms m flip (length s) offset off of
             None \<Rightarrow> None
           | Some None \<Rightarrow> Some None
           | Some (Some offset) \<Rightarrow>
               if \<not> has (m_flag m) INDIROFFADD then Some (Some offset)
               else if cont_level = 0 then Some None
               else if length (ms_li ms) < cont_level then None
               else
                 (let offset = offset + li_off (ms_li ms ! (cont_level - 1)) in
                  Some (if offset = 0 then None else Some offset))))"

text \<open>Whether the file holds the bytes of the entry's type at the offset; the types not listed are not checked.\<close>

definition enough_data :: "magic \<Rightarrow> nat \<Rightarrow> u32 \<Rightarrow> bool" where
  "enough_data m n offset =
     (let t = m_type m; ok = (\<lambda>k. \<not> offset_oob n (uint offset) k) in
      if t = FILE_BYTE then ok 1
      else if t = FILE_SHORT \<or> t = FILE_BESHORT \<or> t = FILE_LESHORT then ok 2
      else if t = FILE_LONG \<or> t = FILE_BELONG \<or> t = FILE_LELONG \<or> t = FILE_MELONG \<or>
              t = FILE_DATE \<or> t = FILE_BEDATE \<or> t = FILE_LEDATE \<or> t = FILE_MEDATE \<or>
              t = FILE_LDATE \<or> t = FILE_BELDATE \<or> t = FILE_LELDATE \<or> t = FILE_MELDATE \<or>
              t = FILE_FLOAT \<or> t = FILE_BEFLOAT \<or> t = FILE_LEFLOAT then ok 4
      else if t = FILE_DOUBLE \<or> t = FILE_BEDOUBLE \<or> t = FILE_LEDOUBLE then ok 8
      else if t = FILE_LEGUID \<or> t = FILE_BEGUID \<or> t = FILE_GUID then ok 16
      else if t = FILE_STRING \<or> t = FILE_PSTRING \<or> t = FILE_SEARCH \<or> t = FILE_OCTAL then ok (unat (m_vallen m))
      else if t = FILE_REGEX \<or> t = FILE_USE then unat offset \<le> n
      else True)"

subsection \<open>Named entries\<close>

fun find_name :: "u8 list \<Rightarrow> magic list \<Rightarrow> magic list option" where
  "find_name name [] = None"
| "find_name name (m # r) =
     (if m_type m = FILE_NAME \<and> cstr (m_value m) = name
      then Some (m # takeWhile (\<lambda>x. m_cont_level x \<noteq> 0) r) else find_name name r)"

fun file_magicfind :: "u8 list \<Rightarrow> magic list list \<Rightarrow> magic list option" where
  "file_magicfind name [] = None"
| "file_magicfind name (ml # mls) = (case find_name name ml of Some r \<Rightarrow> Some r | None \<Rightarrow> file_magicfind name mls)"

subsection \<open>Fetching the value\<close>

type_synonym matcher = "magic list \<Rightarrow> mctx \<Rightarrow> mstate \<Rightarrow> (int \<times> mstate) option"

text \<open>The loop of an \<^verbatim>\<open>indirect\<close> entry over the database; each call has its own return value and match flag.\<close>

fun indir_loop :: "matcher \<Rightarrow> mctx \<Rightarrow> magic list list \<Rightarrow> int \<Rightarrow> mstate \<Rightarrow> (int \<times> mstate) option" where
  "indir_loop rec ctx [] rv st = Some (rv, st)"
| "indir_loop rec ctx (ml # mls) rv st =
     (case rec ml ctx (st\<lparr>st_ret := 0, st_found := False\<rparr>) of
        None \<Rightarrow> None
      | Some (rv, st') \<Rightarrow>
          (let st' = st'\<lparr>st_ret := st_ret st, st_found := st_found st\<rparr> in
           if rv \<noteq> 0 then Some (rv, st') else indir_loop rec ctx mls rv st'))"

definition mget_indirect :: "matcher \<Rightarrow> env \<Rightarrow> mctx \<Rightarrow> u8 list \<Rightarrow> magic \<Rightarrow> u32 \<Rightarrow> mstate \<Rightarrow> (int \<times> mstate) option" where
  "mget_indirect rec env ctx s m offset st =
     (let offset = (if has (str_flags m) INDIRECT_RELATIVE then offset + word_of_nat (c_o ctx) else offset) in
      if offset = 0 \<or> length s < unat offset then Some (0, st)
      else case file_push_buffer (st_ms st) of
          None \<Rightarrow> Some (-1, st)
        | Some (pb, ms) \<Rightarrow>
            (let sbb = (c_b ctx)\<lparr>b_fbuf := drop (unat offset) s\<rparr>;
                 ctx' = \<lparr>c_b = sbb, c_o = 0, c_mode = BINTEST, c_text = c_text ctx, c_flip = False\<rparr> in
             case indir_loop rec ctx' (ms_mlist0 ms) (-1) (st\<lparr>st_ms := ms, st_ic := Suc (st_ic st)\<rparr>) of
               None \<Rightarrow> None
             | Some (rv, st) \<Rightarrow>
                 (case file_pop_buffer (st_ms st) pb of (rbuf, ms) \<Rightarrow>
                    if rbuf = None \<and> had_err ms then Some (-1, st\<lparr>st_ms := ms\<rparr>)
                    else if rv \<noteq> 1 then Some (rv, st\<lparr>st_ms := ms\<rparr>)
                    else
                      (case (if has (ms_flags ms) MAGIC_NODESC then (0, ms)
                             else print_checked env ms (cstr (m_desc m)) ''%u'' (Fint (uint offset))) of
                         (r, ms) \<Rightarrow>
                           if r = -1 then Some (-1, st\<lparr>st_ms := ms\<rparr>)
                           else case (case rbuf of None \<Rightarrow> (0, ms) | Some t \<Rightarrow> file_printf ms t) of
                             (r, ms) \<Rightarrow> Some (if r = -1 then -1 else rv, st\<lparr>st_ms := ms\<rparr>)))))"

definition mget_use :: "matcher \<Rightarrow> mctx \<Rightarrow> magic \<Rightarrow> u32 \<Rightarrow> mstate \<Rightarrow> (int \<times> mstate) option" where
  "mget_use rec ctx m offset st =
     (let v = cstr (m_value m); inv = (v \<noteq> [] \<and> hd v = 0x5e); name = (if inv then tl v else v); ms = st_ms st in
      case file_magicfind name (ms_mlist1 ms) of
        None \<Rightarrow> Some (-1, st\<lparr>st_ms := file_error0 ms (bytes_of ''cannot find entry `'' @ name @ [0x27])\<rparr>)
      | Some ml \<Rightarrow>
          (let ctx' = ctx\<lparr>c_o := unat offset + c_o ctx, c_flip := (if inv then \<not> c_flip ctx else c_flip ctx)\<rparr> in
           case rec ml ctx' (st\<lparr>st_needsep := (if has (m_flag m) NOSPACE then False else st_needsep st),
                                st_found := False, st_nc := Suc (st_nc st)\<rparr>) of
             None \<Rightarrow> None
           | Some (rv, st') \<Rightarrow>
               (let found = st_found st \<or> st_found st'; ms' = st_ms st' in
                Some (if rv \<noteq> 0 then rv else if found then 1 else 0,
                  st'\<lparr>st_ms := ms'\<lparr>ms_value := put_q (if st_found st' then 1 else 0) (ms_value ms'), ms_li := ms_li ms,
                                   ms_offset := offset, ms_eoffset := ms_eoffset ms\<rparr>,
                     st_nc := st_nc st' - 1, st_found := found,
                     st_needsep := (if rv \<noteq> 1 then st_needsep st else st_needsep st')\<rparr>))))"

definition count_error :: "string \<Rightarrow> nat \<Rightarrow> u8 list" where
  "count_error what n = bytes_of what @ bytes_of '' count ('' @ show_nat n @ bytes_of '') exceeded''"

text \<open>From the bounds check to the end: the nested \<^verbatim>\<open>match\<close> calls, and the conversion of every other type.\<close>

definition mget_value :: "matcher \<Rightarrow> env \<Rightarrow> mctx \<Rightarrow> u8 list \<Rightarrow> magic \<Rightarrow> u32 \<Rightarrow> mstate \<Rightarrow> (int \<times> mstate) option" where
  "mget_value rec env ctx s m offset st =
     (let ms = st_ms st in
      if \<not> enough_data m (length s) offset then Some (0, st)
      else if m_type m = FILE_INDIRECT then mget_indirect rec env ctx s m offset st
      else if m_type m = FILE_USE then mget_use rec ctx m offset st
      else if m_type m = FILE_NAME then
        (if has (ms_flags ms) MAGIC_NODESC then Some (1, st)
         else case file_printf ms (cstr (m_desc m)) of (r, ms) \<Rightarrow> Some (if r = -1 then -1 else 1, st\<lparr>st_ms := ms\<rparr>))
      else
        (case mconvert (e_fop env) (e_dop env) ms m (c_flip ctx) of (ok, ms) \<Rightarrow>
           Some (if ok then 1 else 0, st\<lparr>st_ms := ms\<rparr>)))"

definition mget :: "matcher \<Rightarrow> env \<Rightarrow> mctx \<Rightarrow> u8 list \<Rightarrow> nat \<Rightarrow> magic \<Rightarrow> mstate \<Rightarrow> (int \<times> mstate) option" where
  "mget rec env ctx s cont_level m st =
     (let ms = st_ms st; offset = ms_offset ms; nbytes = length s in
      if ms_indir_max ms \<le> st_ic st then Some (-1, st\<lparr>st_ms := file_error0 ms (count_error ''indirect'' (st_ic st))\<rparr>)
      else if ms_name_max ms \<le> st_nc st then Some (-1, st\<lparr>st_ms := file_error0 ms (count_error ''name use'' (st_nc st))\<rparr>)
      else
        (let ms = mcopy ms (m_type m) (has (m_flag m) INDIR) s (offset + word_of_nat (c_o ctx))
                    (unat (word_of_nat nbytes :: u32)) m in
         if \<not> has (m_flag m) INDIR then mget_value rec env ctx s m offset (st\<lparr>st_ms := ms\<rparr>)
         else case mget_indir ms m (c_flip ctx) s offset cont_level of
           None \<Rightarrow> None
         | Some None \<Rightarrow> Some (0, st\<lparr>st_ms := ms\<rparr>)
         | Some (Some offset) \<Rightarrow>
             mget_value rec env ctx s m offset
               (st\<lparr>st_ms := (mcopy ms (m_type m) False s offset nbytes m)\<lparr>ms_offset := offset\<rparr>\<rparr>)))"

subsection \<open>Entries and continuations\<close>

definition set_li :: "nat \<Rightarrow> (level_info \<Rightarrow> level_info) \<Rightarrow> magic_set \<Rightarrow> magic_set" where
  "set_li k f ms = ms\<lparr>ms_li := (ms_li ms)[k := f (ms_li ms ! k)]\<rparr>"

definition store_off :: "nat \<Rightarrow> u32 option \<Rightarrow> magic_set \<Rightarrow> magic_set" where
  "store_off k w ms = (case w of None \<Rightarrow> ms | Some w \<Rightarrow> set_li k (\<lambda>l. l\<lparr>li_off := w\<rparr>) ms)"

text \<open>The five assignments before \<^verbatim>\<open>return e\<close> after an annotation.\<close>

definition annotated :: "mstate \<Rightarrow> mstate" where
  "annotated st = st\<lparr>st_found := True, st_needsep := True, st_printed := True, st_ret := 1, st_first := False\<rparr>"

definition wants_print :: "magic_set \<Rightarrow> bool" where
  "wants_print ms \<longleftrightarrow> \<not> has (ms_flags ms) MAGIC_NODESC"

text \<open>What an entry does to the loop it stands in: return, \<^verbatim>\<open>goto flush\<close>, or go on at a level.\<close>

datatype step_result = Return int mstate | Flush "u8 list" mstate | Go nat "u8 list" mstate

text \<open>The \<^verbatim>\<open>switch\<close> on \<^verbatim>\<open>moffset\<close> after a matching continuation, and its new level.\<close>

definition cont_offset :: "env \<Rightarrow> mctx \<Rightarrow> u8 list \<Rightarrow> nat \<Rightarrow> magic \<Rightarrow> mstate \<Rightarrow> step_result option" where
  "cont_offset env ctx bb lvl m st =
     (case moffset (st_ms st) m (length bb) (c_o ctx) of
        None \<Rightarrow> None
      | Some (r, w, ms) \<Rightarrow>
          (let lvl' = (if r = 1 then Suc lvl else lvl) in
           Some (Go lvl' bb (st\<lparr>st_ms := snd (file_check_mem (e_fresh env) (store_off lvl w ms) lvl')\<rparr>))))"

text \<open>A matching continuation, from \<^verbatim>\<open>handle_annotation\<close> to the end of that \<^verbatim>\<open>switch\<close>.\<close>

definition cont_matched :: "env \<Rightarrow> mctx \<Rightarrow> u8 list \<Rightarrow> nat \<Rightarrow> magic \<Rightarrow> mstate \<Rightarrow> step_result option" where
  "cont_matched env ctx bb lvl m st =
     (case handle_annotation (st_ms st) m (st_first st) of (e, ms) \<Rightarrow>
        if e \<noteq> 0 then Some (Return e (annotated (st\<lparr>st_ms := ms\<rparr>)))
        else
          (let desc = (cstr (m_desc m) \<noteq> []);
               st = st\<lparr>st_ms := ms, st_found := (if desc then True else st_found st)\<rparr> in
           if \<not> (wants_print ms \<and> desc) then cont_offset env ctx bb lvl m st
           else
             (case (if st_printed st then (0, ms) else print_sep ms (st_first st)) of (r, ms) \<Rightarrow>
                (let st = st\<lparr>st_ms := ms, st_ret := 1, st_printed := True\<rparr> in
                 if r = -1 then Some (Return (-1) st)
                 else case (if st_needsep st \<and> \<not> has (m_flag m) NOSPACE then file_printf ms [0x20] else (0, ms)) of
                   (r, ms) \<Rightarrow>
                     if r = -1 then Some (Return (-1) (st\<lparr>st_ms := ms\<rparr>))
                     else case mprint env ms m of
                         None \<Rightarrow> None
                       | Some (r, ms) \<Rightarrow>
                           if r = -1 then Some (Return (-1) (st\<lparr>st_ms := ms\<rparr>))
                           else cont_offset env ctx bb lvl m (st\<lparr>st_ms := ms, st_needsep := True\<rparr>)))))"

text \<open>The result of the test of a continuation: the marks of its level.\<close>

definition cont_checked :: "env \<Rightarrow> mctx \<Rightarrow> u8 list \<Rightarrow> nat \<Rightarrow> magic \<Rightarrow> int \<Rightarrow> mstate \<Rightarrow> step_result option" where
  "cont_checked env ctx bb lvl m r st =
     (let mark = (\<lambda>f. st\<lparr>st_ms := set_li lvl f (st_ms st)\<rparr>); got = li_got_match (ms_li (st_ms st) ! lvl) in
      if r = -1 then Some (Return (-1) st)
      else if r = 0 then Some (Go lvl bb (mark (\<lambda>l. l\<lparr>li_last_match := False\<rparr>)))
      else if m_type m = FILE_CLEAR then
        cont_matched env ctx bb lvl m (mark (\<lambda>l. l\<lparr>li_last_match := True, li_got_match := False\<rparr>))
      else if got \<and> m_type m = FILE_DEFAULT then Some (Go lvl bb (mark (\<lambda>l. l\<lparr>li_last_match := True\<rparr>)))
      else cont_matched env ctx bb lvl m (mark (\<lambda>l. l\<lparr>li_last_match := True, li_got_match := True\<rparr>)))"

text \<open>After \<^verbatim>\<open>mget\<close>, in both loops: an \<^verbatim>\<open>indirect\<close> entry that was entered counts as found.\<close>

definition indirect_found :: "magic \<Rightarrow> mstate \<Rightarrow> mstate" where
  "indirect_found m st = (if m_type m = FILE_INDIRECT then st\<lparr>st_found := True, st_ret := 1\<rparr> else st)"

definition cont_entry :: "matcher \<Rightarrow> env \<Rightarrow> mctx \<Rightarrow> u8 list \<Rightarrow> nat \<Rightarrow> magic \<Rightarrow> mstate \<Rightarrow> step_result option" where
  "cont_entry rec env ctx bb lvl m st =
     (case msetoffset (st_ms st) m bb (c_b ctx) (c_o ctx) lvl of (r, bb, ms) \<Rightarrow>
        if r = -1 then
          Some (if buffer_fill (c_b ctx) = None then Go lvl bb (st\<lparr>st_ms := ms\<rparr>) else Flush bb (st\<lparr>st_ms := ms\<rparr>))
        else if length (ms_li ms) \<le> lvl then None
        else if has (m_flag m) OFFADD \<and> lvl = 0 then Some (Return 0 (st\<lparr>st_ms := ms\<rparr>))
        else
          (let ms = (if has (m_flag m) OFFADD then ms\<lparr>ms_offset := ms_offset ms + li_off (ms_li ms ! (lvl - 1))\<rparr> else ms);
               st = st\<lparr>st_ms := ms\<rparr> in
           if (m_cond m = COND_ELSE \<or> m_cond m = COND_ELIF) \<and> li_last_match (ms_li ms ! lvl) then Some (Go lvl bb st)
           else case mget rec env ctx bb lvl m st of
               None \<Rightarrow> None
             | Some (r, st) \<Rightarrow>
                 if r = -1 then Some (Return (-1) st)
                 else if r = 0 then
                   (if m_reln m \<noteq> 0x21 then Some (Go lvl bb st) else cont_checked env ctx bb lvl m 1 st)
                 else
                   (let st = indirect_found m st in
                    case magiccheck env (st_ms st) m of
                      None \<Rightarrow> None
                    | Some (r, ms) \<Rightarrow> cont_checked env ctx bb lvl m r (st\<lparr>st_ms := ms\<rparr>))))"

text \<open>The continuation loop: entries above the current level are skipped, others set it to their own.  It ends at the
  next top-level entry, with the entries that are left.\<close>

datatype loop_result = LReturn int mstate | LFlush "magic list" "u8 list" mstate | LDone "magic list" "u8 list" mstate

fun cont_loop :: "matcher \<Rightarrow> env \<Rightarrow> mctx \<Rightarrow> magic list \<Rightarrow> nat \<Rightarrow> u8 list \<Rightarrow> mstate \<Rightarrow> loop_result option" where
  "cont_loop rec env ctx [] cl bb st = Some (LDone [] bb st)"
| "cont_loop rec env ctx (m # r) cl bb st =
     (let lvl = unat (m_cont_level m); st' = st\<lparr>st_ms := (st_ms st)\<lparr>ms_line := unat (m_lineno m)\<rparr>\<rparr> in
      if lvl = 0 then Some (LDone (m # r) bb st)
      else if cl < lvl then cont_loop rec env ctx r cl bb st'
      else case cont_entry rec env ctx bb lvl m st' of
          None \<Rightarrow> None
        | Some (Return e st) \<Rightarrow> Some (LReturn e st)
        | Some (Flush bb st) \<Rightarrow> Some (LFlush r bb st)
        | Some (Go cl bb st) \<Rightarrow> cont_loop rec env ctx r cl bb st)"

subsection \<open>Top-level entries\<close>

definition skip_entry :: "magic \<Rightarrow> mctx \<Rightarrow> bool" where
  "skip_entry m ctx \<longleftrightarrow>
     m_type m \<noteq> FILE_NAME \<and>
     (let f = str_flags m AND (STRING_BINTEST OR STRING_TEXTTEST) in
      IS_STRING (m_type m) \<and> (c_text ctx \<and> f = STRING_BINTEST \<or> \<not> c_text ctx \<and> f = STRING_TEXTTEST) \<or>
      m_flag m AND c_mode ctx \<noteq> c_mode ctx)"

text \<open>The \<^verbatim>\<open>switch\<close> on \<^verbatim>\<open>moffset\<close> after a matching top-level entry.\<close>

definition top_offset :: "env \<Rightarrow> mctx \<Rightarrow> u8 list \<Rightarrow> magic \<Rightarrow> mstate \<Rightarrow> step_result option" where
  "top_offset env ctx bb m st =
     (case moffset (st_ms st) m (length bb) (c_o ctx) of
        None \<Rightarrow> None
      | Some (r, w, ms) \<Rightarrow>
          (let ms = store_off 0 w ms in
           Some (if r = 1 then Go 1 bb (st\<lparr>st_ms := snd (file_check_mem (e_fresh env) ms 1)\<rparr>)
                 else Flush bb (st\<lparr>st_ms := ms\<rparr>))))"

text \<open>A matching top-level entry, from \<^verbatim>\<open>handle_annotation\<close> to its continuations (level 1).\<close>

definition top_matched :: "env \<Rightarrow> mctx \<Rightarrow> u8 list \<Rightarrow> magic \<Rightarrow> mstate \<Rightarrow> step_result option" where
  "top_matched env ctx bb m st =
     (case handle_annotation (st_ms st) m (st_first st) of (e, ms) \<Rightarrow>
        if e \<noteq> 0 then Some (Return e (annotated (st\<lparr>st_ms := ms\<rparr>)))
        else
          (let desc = (cstr (m_desc m) \<noteq> []);
               st = st\<lparr>st_ms := ms, st_found := (if desc then True else st_found st)\<rparr> in
           if \<not> (wants_print ms \<and> desc) then top_offset env ctx bb m st
           else
             (case print_sep ms (st_first st) of (r, ms) \<Rightarrow>
                (let st = st\<lparr>st_ms := ms, st_ret := 1, st_needsep := True, st_printed := True\<rparr> in
                 if r = -1 then Some (Return (-1) st)
                 else case mprint env ms m of
                     None \<Rightarrow> None
                   | Some (r, ms) \<Rightarrow>
                       if r = -1 then Some (Return (-1) (st\<lparr>st_ms := ms\<rparr>)) else top_offset env ctx bb m (st\<lparr>st_ms := ms\<rparr>)))))"

text \<open>A top-level entry; \<open>Go 0\<close> is \<^verbatim>\<open>continue\<close> without skipping its continuations.\<close>

definition top_entry :: "matcher \<Rightarrow> env \<Rightarrow> mctx \<Rightarrow> u8 list \<Rightarrow> magic \<Rightarrow> mstate \<Rightarrow> step_result option" where
  "top_entry rec env ctx bb m st =
     (if skip_entry m ctx then Some (Flush bb st)
      else case msetoffset (st_ms st) m bb (c_b ctx) (c_o ctx) 0 of (r, bb, ms) \<Rightarrow>
        if r = -1 then
          Some (if buffer_fill (c_b ctx) = None then Go 0 bb (st\<lparr>st_ms := ms\<rparr>) else Flush bb (st\<lparr>st_ms := ms\<rparr>))
        else case mget rec env ctx bb 0 m (st\<lparr>st_ms := ms\<lparr>ms_line := unat (m_lineno m)\<rparr>\<rparr>) of
            None \<Rightarrow> None
          | Some (r, st) \<Rightarrow>
              if r = -1 then Some (Return (-1) st)
              else if r = 0 then (if m_reln m \<noteq> 0x21 then Some (Flush bb st) else top_matched env ctx bb m st)
              else
                (let st = indirect_found m st in
                 case magiccheck env (st_ms st) m of
                   None \<Rightarrow> None
                 | Some (r, ms) \<Rightarrow>
                     (let st = st\<lparr>st_ms := ms\<rparr> in
                      if r = -1 then Some (Return (-1) st)
                      else if r = 0 then Some (Flush bb st)
                      else top_matched env ctx bb m st)))"

abbreviation (input) skip_sub :: "magic list \<Rightarrow> magic list" where
  "skip_sub r \<equiv> dropWhile (\<lambda>m. m_cont_level m \<noteq> 0) r"

definition rest_within :: "nat \<Rightarrow> loop_result \<Rightarrow> bool" where
  "rest_within n l \<longleftrightarrow> (case l of LReturn _ _ \<Rightarrow> True | LFlush r _ _ \<Rightarrow> length r \<le> n | LDone r _ _ \<Rightarrow> length r \<le> n)"

lemma rest_within_mono: "rest_within n l \<Longrightarrow> n \<le> k \<Longrightarrow> rest_within k l"
  by (auto simp: rest_within_def split: loop_result.splits)

lemma cont_loop_rest: "cont_loop rec env ctx r cl bb st = Some l \<Longrightarrow> rest_within (length r) l"
proof (induction r arbitrary: cl bb st)
  case (Cons m r)
  have IH: "cont_loop rec env ctx r cl' bb' st' = Some l \<Longrightarrow> rest_within (length (m # r)) l" for cl' bb' st'
    using Cons.IH rest_within_mono [of "length r" l "length (m # r)"] by simp
  show ?case
  proof (cases "cont_entry rec env ctx bb (unat (m_cont_level m)) m (st\<lparr>st_ms := (st_ms st)\<lparr>ms_line := unat (m_lineno m)\<rparr>\<rparr>)")
    case None
    then show ?thesis using Cons.prems IH by (auto simp: Let_def rest_within_def split: if_splits)
  next
    case (Some s)
    then show ?thesis using Cons.prems IH by (cases s) (auto simp: Let_def rest_within_def split: if_splits)
  qed
qed (auto simp: rest_within_def)

lemmas cont_loop_length = cont_loop_rest [of _ _ _ _ _ _ _ "LFlush r' bb' st'" for r' bb' st', unfolded rest_within_def loop_result.case]
  cont_loop_rest [of _ _ _ _ _ _ _ "LDone r' bb' st'" for r' bb' st', unfolded rest_within_def loop_result.case]

function match_loop :: "matcher \<Rightarrow> env \<Rightarrow> mctx \<Rightarrow> magic list \<Rightarrow> u8 list \<Rightarrow> mstate \<Rightarrow> (int \<times> mstate) option" where
  "match_loop rec env ctx [] bb st = Some (st_ret st, st)"
| "match_loop rec env ctx (m # r) bb st =
     (case top_entry rec env ctx bb m st of
        None \<Rightarrow> None
      | Some (Return e st) \<Rightarrow> Some (e, st)
      | Some (Flush bb st) \<Rightarrow> match_loop rec env ctx (skip_sub r) bb st
      | Some (Go cl bb st) \<Rightarrow>
          if cl = 0 then match_loop rec env ctx r bb st
          else (case cont_loop rec env ctx r cl bb st of
                  None \<Rightarrow> None
                | Some (LReturn e st) \<Rightarrow> Some (e, st)
                | Some (LFlush r' bb st) \<Rightarrow> match_loop rec env ctx (skip_sub r') bb st
                | Some (LDone r' bb st) \<Rightarrow>
                    (let st = (if st_printed st then st\<lparr>st_first := False\<rparr> else st) in
                     if st_found st
                     then (if \<not> has (ms_flags (st_ms st)) MAGIC_CONTINUE then Some (st_ret st, st)
                           else match_loop rec env ctx r' bb (st\<lparr>st_printed := False, st_first := False\<rparr>))
                     else match_loop rec env ctx r' bb st)))"
  by pat_completeness auto
termination match_loop
proof (relation "measure (\<lambda>(rec, env, ctx, r, bb, st). length r)")
qed (simp_all add: le_imp_less_Suc length_dropWhile_le cont_loop_length order_trans [OF length_dropWhile_le])

declare match_loop.simps [simp del] cont_loop.simps [simp del]

primrec match_fuel :: "nat \<Rightarrow> env \<Rightarrow> matcher" where
  "match_fuel 0 env = (\<lambda>ml ctx st. None)"
| "match_fuel (Suc n) env = (\<lambda>ml ctx st.
     match_loop (match_fuel n env) env ctx ml [] (st\<lparr>st_ms := snd (file_check_mem (e_fresh env) (st_ms st) 0)\<rparr>))"

subsection \<open>The database\<close>

fun softmagic_loop :: "matcher \<Rightarrow> mctx \<Rightarrow> magic list list \<Rightarrow> int \<Rightarrow> mstate \<Rightarrow> (int \<times> mstate) option" where
  "softmagic_loop rec ctx [] rv st = Some (rv, st)"
| "softmagic_loop rec ctx (ml # mls) rv st =
     (case rec ml ctx (st\<lparr>st_ret := 0, st_found := False\<rparr>) of
        None \<Rightarrow> None
      | Some (ret, st) \<Rightarrow>
          if ret = -1 then Some (-1, st)
          else if ret = 0 then softmagic_loop rec ctx mls rv st
          else if \<not> has (ms_flags (st_ms st)) MAGIC_CONTINUE then Some (ret, st)
          else softmagic_loop rec ctx mls ret st)"

text \<open>The counters start at \<open>ic\<close> and \<open>nc\<close>, which are 0 when the caller passes null pointers.\<close>

definition file_softmagic ::
  "nat \<Rightarrow> env \<Rightarrow> magic_set \<Rightarrow> buffer \<Rightarrow> nat \<Rightarrow> nat \<Rightarrow> u16 \<Rightarrow> bool \<Rightarrow> (int \<times> mstate) option" where
  "file_softmagic fuel env ms b ic nc mode text =
     softmagic_loop (match_fuel fuel env) \<lparr>c_b = b, c_o = 0, c_mode = mode, c_text = text, c_flip = False\<rparr> (ms_mlist0 ms) 0
       \<lparr>st_ms = ms, st_ic = ic, st_nc = nc, st_printed = False, st_needsep = False, st_first = True, st_ret = 0, st_found = False\<rparr>"

end
