(* ===== verification/Frames.thy ===== *)
theory Frames
  imports Funcs
begin

text \<open>
  What the printing operations of \<open>Funcs\<close> leave alone: they write the output buffer, its length and the error
  marks, and nothing else of the query.  \<open>out_only ms ms'\<close> says so; the contract \<open>framed_op\<close> adds it to that of
  \<open>printing_op\<close>, and the operations of \<open>Funcs\<close> are shown to keep it.
\<close>

definition out_only :: "magic_set \<Rightarrow> magic_set \<Rightarrow> bool" where
  "out_only ms ms' \<longleftrightarrow>
     ms_mlist0 ms' = ms_mlist0 ms \<and> ms_mlist1 ms' = ms_mlist1 ms \<and> ms_li ms' = ms_li ms \<and> ms_offset ms' = ms_offset ms \<and>
     ms_eoffset ms' = ms_eoffset ms \<and> ms_flags ms' = ms_flags ms \<and> ms_line ms' = ms_line ms \<and> ms_mode ms' = ms_mode ms \<and>
     ms_search_s ms' = ms_search_s ms \<and> ms_search_len ms' = ms_search_len ms \<and> ms_search_offset ms' = ms_search_offset ms \<and>
     ms_rm_len ms' = ms_rm_len ms \<and> ms_value ms' = ms_value ms \<and> ms_indir_max ms' = ms_indir_max ms \<and>
     ms_name_max ms' = ms_name_max ms \<and> ms_regex_max ms' = ms_regex_max ms"

lemma out_onlyD [ms_frame]:
  assumes "out_only ms ms'"
  shows "ms_mlist0 ms' = ms_mlist0 ms" "ms_mlist1 ms' = ms_mlist1 ms" "ms_li ms' = ms_li ms" "ms_offset ms' = ms_offset ms"
    "ms_eoffset ms' = ms_eoffset ms" "ms_flags ms' = ms_flags ms" "ms_line ms' = ms_line ms" "ms_mode ms' = ms_mode ms"
    "ms_search_s ms' = ms_search_s ms" "ms_search_len ms' = ms_search_len ms" "ms_search_offset ms' = ms_search_offset ms"
    "ms_rm_len ms' = ms_rm_len ms" "ms_value ms' = ms_value ms" "ms_indir_max ms' = ms_indir_max ms"
    "ms_name_max ms' = ms_name_max ms" "ms_regex_max ms' = ms_regex_max ms"
  using assms by (simp_all add: out_only_def)

lemma out_only_refl [simp]: "out_only ms ms"
  by (simp add: out_only_def)

lemma out_only_trans [trans]: "out_only a b \<Longrightarrow> out_only b c \<Longrightarrow> out_only a c"
  by (simp add: out_only_def)

lemma out_only_append [simp]: "out_only ms (append_out ms t)"
  by (simp add: out_only_def append_out_def split: option.split)

lemma out_only_clear [simp]: "out_only ms (file_clearbuf ms)"
  by (simp add: out_only_def file_clearbuf_def)

lemma out_only_upd [simp]:
  "out_only ms (ms'\<lparr>ms_event_flags := e\<rparr>) = out_only ms ms'" "out_only ms (ms'\<lparr>ms_error := r\<rparr>) = out_only ms ms'"
  "out_only ms (ms'\<lparr>ms_buf := b\<rparr>) = out_only ms ms'" "out_only ms (ms'\<lparr>ms_blen := n\<rparr>) = out_only ms ms'"
  by (simp_all add: out_only_def)

lemma out_only_space [simp]: "out_only ms (space_exceeded ms l)"
  using out_only_trans [OF out_only_clear out_only_append] by (simp add: space_exceeded_def Let_def)

lemma out_only_printf [simp]: "out_only ms (snd (file_printf ms t))"
  by (simp add: file_printf_def)

lemma out_only_error_core [simp]: "out_only ms (file_error_core se ms e msg ln)"
proof -
  let ?ms1 = "if ln \<noteq> 0 then snd (file_printf (file_clearbuf ms) (bytes_of ''line '' @ show_nat ln @ [0x3a])) else ms"
  let ?ms2 = "case ms_buf ?ms1 of Some (_ # _) \<Rightarrow> snd (file_printf ?ms1 [0x20]) | _ \<Rightarrow> ?ms1"
  let ?ms3 = "snd (file_printf ?ms2 msg)"
  let ?ms4 = "if e > 0 then snd (file_printf ?ms3 (bytes_of '' ('' @ se e @ [0x29])) else ?ms3"
  have "out_only ms ?ms1" using out_only_trans [OF out_only_clear out_only_printf] by simp
  also have "out_only ?ms1 ?ms2" by (simp split: option.split list.split)
  also have "out_only ?ms2 ?ms3" by simp
  also have "out_only ?ms3 ?ms4" by simp
  finally show ?thesis unfolding file_error_core_def Let_def by simp
qed

lemma out_only_errors [simp]: "out_only ms (file_error0 ms msg)" "out_only ms (file_magerror ms msg)"
  by (simp_all add: file_error0_def file_error_def file_magerror_def)

lemma out_only_vprintf [simp]: "out_only ms (snd (file_vprintf ms fmt t))"
  using out_only_trans [OF out_only_clear out_only_errors(1)] by (simp add: file_vprintf_def split: option.split)

locale framed_op = printing_op op for op +
  assumes frame: "out_only ms (snd (op ms))"

interpretation printf: framed_op "\<lambda>ms. file_printf ms tx" for tx
  by unfold_locales simp

interpretation vprintf: framed_op "\<lambda>ms. file_vprintf ms fmt t" for fmt t
  by unfold_locales simp

interpretation separator: framed_op file_separator
  by unfold_locales (simp add: file_separator_def)

interpretation say: framed_op "\<lambda>ms. say ms t" for t
  by unfold_locales (simp add: say_def split: prod.split, metis out_only_printf snd_conv)

end
