(* ===== verification/Test_Safe.thy ===== *)
theory Test_Safe
  imports Softmagic Frames
begin

text \<open>
  The soft magic engine runs to the end, without undefined behaviour, on every input: the depth of its recursion is
  bounded by the limits on \<^verbatim>\<open>indirect\<close> and \<^verbatim>\<open>use\<close> entries, and every read and write stays inside the file, the
  value union, the magic entry and the level stack, provided the database avoids the handful of
  combinations that \<open>wf_magic\<close> names.
\<close>

subsection \<open>Comparison of strings\<close>

lemma strncmp_fast_safe: "len \<le> length a \<Longrightarrow> len \<le> length b \<Longrightarrow> \<exists>v. strncmp_fast len a b = Some v"
  by (induction len a b rule: strncmp_fast.induct) auto

lemma skip_space_safe:
  "room \<le> length b \<Longrightarrow> \<exists>room' b'. skip_space room b = Some (room', b') \<and> room' \<le> length b'"
  by (induction room b rule: skip_space.induct) auto

lemma strncmp_loop_safe:
  "len < length a \<Longrightarrow> room \<le> length b \<Longrightarrow> \<exists>v b'. strncmp_loop flags len room a b = Some (v, b')"
proof (induction flags len room a b rule: strncmp_loop.induct)
  case (3 flags len room x a y b)
  have len: "len < length a" and room: "room \<le> length b" using 3 by simp_all
  obtain x' a' where a: "a = x' # a'" using len by (cases a) auto
  obtain r1 b1 where s1: "skip_space room b = Some (r1, b1)" "r1 \<le> length b1" using skip_space_safe [OF room] by auto
  obtain r2 b2 where s2: "skip_space (Suc room) (y # b) = Some (r2, b2)" "r2 \<le> length b2"
    using skip_space_safe [of "Suc room" "y # b"] room by auto
  have nx: "\<exists>v' b'. (if v \<noteq> 0 then Some (v, b) else strncmp_loop flags len room a b) = Some (v', b')" for v
    using 3(1) len room by auto
  show ?case
    using nx 3 len room s1 s2 a by (simp add: Let_def split del: if_split cong: if_cong) (auto simp: Let_def)
qed auto
lemma has_or: "has f (a OR b) \<longleftrightarrow> has f a \<or> has f b"
  by (auto simp: has_def bit_eq_iff bit_and_iff bit_or_iff)

definition ws_flags :: "u32 \<Rightarrow> bool" where
  "ws_flags flags \<longleftrightarrow> has flags (STRING_COMPACT_WHITESPACE OR STRING_COMPACT_OPTIONAL_WHITESPACE)"

lemma ws_flagsD:
  "\<not> ws_flags flags \<Longrightarrow> \<not> has flags STRING_COMPACT_WHITESPACE \<and> \<not> has flags STRING_COMPACT_OPTIONAL_WHITESPACE"
  by (simp only: ws_flags_def has_or) simp

lemma strncmp_loop_end:
  "strncmp_loop flags len room a b = Some (v, b') \<Longrightarrow> v = 0 \<Longrightarrow>
   \<not> has flags STRING_COMPACT_WHITESPACE \<and> \<not> has flags STRING_COMPACT_OPTIONAL_WHITESPACE \<Longrightarrow> b' = drop len b"
  by (induction flags len room a b rule: strncmp_loop.induct) (auto simp: Let_def split: if_splits)

lemma file_strncmp_safe:
  assumes "len < length a" "len \<le> length b" "maxlen \<le> length b"
    and "has flags STRING_FULL_WORD \<Longrightarrow> \<not> ws_flags flags \<and> len < length b"
  shows "\<exists>v. file_strncmp a b len maxlen flags = Some v"
proof (cases "flags = 0")
  case True
  then show ?thesis using strncmp_fast_safe [of len a b] assms by (simp add: file_strncmp_def)
next
  case False
  let ?room = "if ws_flags flags then maxlen else len"
  have "?room \<le> length b" using assms by simp
  then obtain v b' where l: "strncmp_loop flags len ?room a b = Some (v, b')"
    using strncmp_loop_safe [OF assms(1)] by blast
  have "b' \<noteq> []" if "v = 0" "has flags STRING_FULL_WORD"
    using strncmp_loop_end [OF l that(1) ws_flagsD] that(2) assms(4) by auto
  with l False show ?thesis
    unfolding file_strncmp_def Let_def ws_flags_def has_def by (auto split: list.split)
qed

lemma search_loop_safe:
  assumes "slen < length val" "s_len \<le> length s" "\<not> has flags STRING_FULL_WORD"
  shows "v0 \<noteq> 0 \<or> rng = 0 \<or> idx < rng \<Longrightarrow>
    \<exists>v k. search_loop s s_len val slen rng flags idx v0 = Some (v, k) \<and> (v = 0 \<longrightarrow> k \<le> s_len)"
  using assms
proof (induction s s_len val slen rng flags idx v0 rule: search_loop.induct)
  case (1 s s_len val slen rng flags idx v0)
  consider "\<not> (rng = 0 \<or> idx < rng)" | "rng = 0 \<or> idx < rng" "s_len < slen + idx" | "rng = 0 \<or> idx < rng" "slen + idx \<le> s_len"
    by linarith
  then show ?case
  proof cases
    case 1
    then show ?thesis using "1.prems"(1) by (subst search_loop.simps) auto
  next
    case 2
    then show ?thesis by (subst search_loop.simps) simp
  next
    case 3
    then obtain v where v: "file_strncmp val (drop idx s) slen (s_len - idx) flags = Some v"
      using file_strncmp_safe [of slen val "drop idx s" "s_len - idx" flags] "1.prems"(2-) by (auto simp: le_diff_conv2)
    show ?thesis
    proof (cases "v = 0")
      case True
      with 3 v show ?thesis by (subst search_loop.simps) simp
    next
      case False
      then have "\<exists>v' k. search_loop s s_len val slen rng flags (Suc idx) v = Some (v', k) \<and> (v' = 0 \<longrightarrow> k \<le> s_len)"
        using "1.IH" 3 v "1.prems" by simp
      with 3 v False show ?thesis by (subst search_loop.simps) simp
    qed
  qed
qed

lemma memmem_bound: "memmem s needle = Some k \<Longrightarrow> k \<le> length s"
  by (induction s needle arbitrary: k rule: memmem.induct) (auto split: if_splits)

lemma search_value_safe:
  assumes "length (m_value m) = MAXstring" "unat (m_vallen m) < MAXstring" "s_len \<le> length s" "\<not> has (str_flags m) STRING_FULL_WORD"
  shows "\<exists>v k. search_value mm s s_len m = Some (v, k) \<and> (v = 0 \<longrightarrow> k \<le> s_len)"
proof -
  let ?slen = "min (unat (m_vallen m)) MAXstring" and ?rng = "unat (str_range m)"
  have "\<exists>v k. search_loop s s_len (m_value m) ?slen ?rng (str_flags m) 0 0 = Some (v, k) \<and> (v = 0 \<longrightarrow> k \<le> s_len)"
    using assms by (intro search_loop_safe) auto
  moreover have "k \<le> s_len" if "memmem (take n s) x = Some k" "n \<le> s_len" for n x k
    using memmem_bound [OF that(1)] that(2) by simp
  ultimately show ?thesis
    by (auto simp: search_value_def Let_def split: option.split)
qed
subsection \<open>Operations that only print\<close>

definition quiet :: "magic_set \<Rightarrow> magic_set \<Rightarrow> bool" where
  "quiet ms ms' \<longleftrightarrow> out_only ms ms' \<and> (out_ok ms \<longrightarrow> out_ok ms')"

lemma quiet_refl [simp]: "quiet ms ms"
  by (simp add: quiet_def)

lemma quiet_trans [trans]: "quiet a b \<Longrightarrow> quiet b c \<Longrightarrow> quiet a c"
  unfolding quiet_def by (blast intro: out_only_trans)

context framed_op
begin

lemma quiet: "op ms = (r, ms') \<Longrightarrow> quiet ms ms'"
  using frame [of ms] run [of ms r ms'] by (simp add: quiet_def)

end

lemmas quiet_printf = printf.quiet and quiet_vprintf = vprintf.quiet and quiet_separator = separator.quiet and quiet_say = say.quiet

lemma quiet_magerror [simp]: "quiet ms (file_magerror ms msg)"
  by (simp add: quiet_def file_magerror_def file_error_core_props)

lemma quiet_error0 [simp]: "quiet ms (file_error0 ms msg)"
  by (simp add: quiet_def file_error0_def file_error_def file_error_core_props)

lemma quiet_magwarn [simp]: "quiet ms (file_magwarn ms)"
  by (simp add: quiet_def out_only_def file_magwarn_def out_ok_def split: option.split)

lemma quiet_regcomp: "file_regcomp env ms pat ic = (rc, ms') \<Longrightarrow> quiet ms ms'"
  by (auto simp: file_regcomp_def check_regex_def Let_def split: if_splits)

lemma quiet_alloc_regex: "alloc_regex env ms m = (ok, ms') \<Longrightarrow> quiet ms ms'"
  by (auto simp: alloc_regex_def split: prod.splits dest: quiet_regcomp)

lemma quiet_check_fmt: "check_fmt env ms fmt = (r, ms') \<Longrightarrow> quiet ms ms'"
  by (auto simp: check_fmt_def Let_def split: if_splits prod.splits rx_result.splits dest: quiet_regcomp)

lemma quiet_fmtcheck: "file_fmtcheck env ms desc def = (fmt, ms') \<Longrightarrow> quiet ms ms'"
  by (auto simp: file_fmtcheck_def split: if_splits)

lemma quiet_print_checked: "print_checked env ms desc def arg = (r, ms') \<Longrightarrow> quiet ms ms'"
  by (auto simp: print_checked_def split: prod.splits dest!: quiet_fmtcheck quiet_vprintf intro: quiet_trans)

lemma quiet_PRINTER: "PRINTER env ms m desc fmt w v = (r, ms') \<Longrightarrow> quiet ms ms'"
  by (auto simp: PRINTER_def Let_def split: if_splits prod.splits dest!: quiet_check_fmt quiet_print_checked intro: quiet_trans)

lemma quiet_mprint_float: "mprint_float env ms m x = (r, ms') \<Longrightarrow> quiet ms ms'"
  by (auto simp: mprint_float_def Let_def split: if_splits prod.splits dest!: quiet_check_fmt quiet_print_checked intro: quiet_trans)

lemma quiet_print_sep: "print_sep ms f = (r, ms') \<Longrightarrow> quiet ms ms'"
  by (auto simp: print_sep_def split: if_splits dest: quiet_separator)

lemma quiet_annotate: "annotate ms f t = (r, ms') \<Longrightarrow> quiet ms ms'"
  by (auto simp: annotate_def split: if_splits prod.splits dest!: quiet_print_sep quiet_say intro: quiet_trans)

lemma quiet_handle_annotation: "handle_annotation ms m f = (e, ms') \<Longrightarrow> quiet ms ms'"
  by (auto simp: handle_annotation_def split: if_splits dest: quiet_annotate)

lemma quiet_pstring: "file_pstring_length_size ms m = (l, ms') \<Longrightarrow> quiet ms ms'"
  by (auto simp: file_pstring_length_size_def bad_pstring_def Let_def split: if_splits)

lemma quiet_pstring_get: "file_pstring_get_length ms m s = (l, ms') \<Longrightarrow> quiet ms ms'"
  by (auto simp: file_pstring_get_length_def bad_pstring_def Let_def split: if_splits prod.splits dest: quiet_pstring)

lemma quiet_int_reln: "int_reln ms m v l = (r, ms') \<Longrightarrow> quiet ms ms'"
  by (auto simp: int_reln_def Let_def split: if_splits)

lemma quiet_float_reln: "float_reln ms reln what c = (r, ms') \<Longrightarrow> quiet ms ms'"
  by (auto simp: float_reln_def Let_def split: if_splits)

subsection \<open>The invariant of the query\<close>

definition ms_inv :: "magic_set \<Rightarrow> bool" where
  "ms_inv ms \<longleftrightarrow> out_ok ms \<and> length (ms_value ms) = MAXstring"

text \<open>What every operation keeps: the configuration, the invariant, and at least as many levels.\<close>

definition keeps :: "magic_set \<Rightarrow> magic_set \<Rightarrow> bool" where
  "keeps ms ms' \<longleftrightarrow> ms_flags ms' = ms_flags ms \<and> ms_mlist0 ms' = ms_mlist0 ms \<and> ms_mlist1 ms' = ms_mlist1 ms \<and>
     ms_indir_max ms' = ms_indir_max ms \<and> ms_name_max ms' = ms_name_max ms \<and> length (ms_li ms) \<le> length (ms_li ms') \<and>
     (ms_inv ms \<longrightarrow> ms_inv ms')"

text \<open>The part of the state that printing and offsets read after a test.\<close>

definition same_search :: "magic_set \<Rightarrow> magic_set \<Rightarrow> bool" where
  "same_search ms ms' \<longleftrightarrow> ms_search_s ms' = ms_search_s ms \<and> ms_search_len ms' = ms_search_len ms \<and> ms_rm_len ms' = ms_rm_len ms"

lemma keeps_refl [simp]: "keeps ms ms"
  by (simp add: keeps_def)

lemma keeps_trans [trans]: "keeps a b \<Longrightarrow> keeps b c \<Longrightarrow> keeps a c"
  by (simp add: keeps_def)

lemma same_search_refl [simp]: "same_search ms ms"
  by (simp add: same_search_def)

lemma same_search_trans [trans]: "same_search a b \<Longrightarrow> same_search b c \<Longrightarrow> same_search a c"
  by (simp add: same_search_def)

lemma quiet_keeps: "quiet ms ms' \<Longrightarrow> keeps ms ms' \<and> same_search ms ms'"
  by (simp add: quiet_def keeps_def ms_inv_def out_only_def same_search_def split: option.split)

lemma keeps_value: "length v = length (ms_value ms) \<Longrightarrow> keeps ms (ms\<lparr>ms_value := v\<rparr>)"
  by (simp add: keeps_def ms_inv_def out_ok_def split: option.split)

lemma keeps_upd [simp]:
  "keeps ms (ms\<lparr>ms_offset := a\<rparr>)" "keeps ms (ms\<lparr>ms_eoffset := a\<rparr>)" "keeps ms (ms\<lparr>ms_line := n\<rparr>)"
  "length (ms_li ms) \<le> length li \<Longrightarrow> keeps ms (ms\<lparr>ms_li := li\<rparr>)"
  by (simp_all add: keeps_def ms_inv_def out_ok_def split: option.split)
subsection \<open>Entries on which the engine is safe\<close>

text \<open>
  The value is the full array and its length leaves room for a terminator, as the compiler of magic files ensures.
  Left out are: the full-word flag on a search, or together with blank compaction (the test then looks at
  the byte after the text); a search that prints after not matching, and a negated regular expression with an
  indirect offset that prints (both print with the length of an earlier match); a negated DER test (it
  computes its offset from a region that was never parsed); an indirect offset in octal (the text need not be
  terminated) or multiplied by a number read from the file (the product may not fit).
\<close>

definition wf_magic :: "magic \<Rightarrow> bool" where
  "wf_magic m \<longleftrightarrow>
     (let t = m_type m; str = (t = FILE_STRING \<or> t = FILE_PSTRING \<or> t = FILE_OCTAL \<or> t = FILE_SEARCH) in
      length (m_value m) = MAXstring \<and> unat (m_vallen m) < MAXstring \<and>
      (str \<and> has (str_flags m) STRING_FULL_WORD \<longrightarrow> t \<noteq> FILE_SEARCH \<and> \<not> ws_flags (str_flags m)) \<and>
      (t = FILE_SEARCH \<longrightarrow> m_reln m = 0x3d \<or> cstr (m_desc m) = []) \<and>
      (t = FILE_REGEX \<and> m_reln m = 0x21 \<longrightarrow> \<not> has (m_flag m) INDIR \<or> cstr (m_desc m) = []) \<and>
      (t = FILE_DER \<longrightarrow> m_reln m \<noteq> 0x21) \<and>
      (has (m_flag m) INDIR \<longrightarrow> m_in_type m \<noteq> FILE_OCTAL \<and>
         \<not> (has (m_in_op m) FILE_OPINDIRECT \<and> m_in_op m AND FILE_OPS_MASK = FILE_OPMULTIPLY)))"

text \<open>The search region lies inside the file.\<close>

definition search_ok :: "magic_set \<Rightarrow> bool" where
  "search_ok ms \<longleftrightarrow> (\<forall>s. ms_search_s ms = Some s \<longrightarrow> ms_search_len ms \<le> length s \<and> length s < 2 ^ 31)"

text \<open>After \<^verbatim>\<open>mget\<close>: the types that search have their region, and a regular expression has no match length from
  before.  Before printing: the match length lies in the region, and a DER element has been parsed.\<close>

definition fetched :: "magic \<Rightarrow> magic_set \<Rightarrow> bool" where
  "fetched m ms \<longleftrightarrow>
     (m_type m = FILE_SEARCH \<or> m_type m = FILE_REGEX \<or> m_type m = FILE_DER \<longrightarrow> search_ok ms) \<and>
     (m_type m = FILE_REGEX \<longrightarrow> ms_search_s ms = None \<or> ms_rm_len ms = 0)"

definition print_ready :: "magic \<Rightarrow> magic_set \<Rightarrow> bool" where
  "print_ready m ms \<longleftrightarrow>
     ((m_type m = FILE_SEARCH \<or> m_type m = FILE_REGEX) \<and> cstr (m_desc m) \<noteq> [] \<longrightarrow>
        (\<forall>s. ms_search_s ms = Some s \<longrightarrow> ms_rm_len ms \<le> length s)) \<and>
     (m_type m = FILE_DER \<longrightarrow> search_ok ms \<and> ms_search_len ms \<noteq> 0 \<and> ms_search_s ms \<noteq> None)"

lemma print_ready_same: "print_ready m ms \<Longrightarrow> same_search ms ms' \<Longrightarrow> print_ready m ms'"
  by (simp add: print_ready_def same_search_def search_ok_def)

subsection \<open>The comparison\<close>

text \<open>What the test of an entry establishes.\<close>

definition checked :: "magic \<Rightarrow> magic_set \<Rightarrow> (int \<times> magic_set) option \<Rightarrow> bool" where
  "checked m ms res \<longleftrightarrow> (\<exists>r ms'. res = Some (r, ms') \<and> keeps ms ms' \<and> (r \<noteq> 0 \<and> r \<noteq> -1 \<longrightarrow> print_ready m ms'))"

lemma int_reln_ok:
  "\<exists>r ms'. int_reln ms m v l = (r, ms') \<and> keeps ms ms' \<and> same_search ms ms' \<and> (r \<noteq> 0 \<and> r \<noteq> -1 \<longrightarrow> m_reln m = 0x3d \<longrightarrow> v = l)"
proof -
  obtain r ms' where i: "int_reln ms m v l = (r, ms')" by (cases "int_reln ms m v l")
  then have "r \<noteq> 0 \<Longrightarrow> m_reln m = 0x3d \<Longrightarrow> v = l" by (auto simp: int_reln_def Let_def split: if_splits)
  with i quiet_keeps [OF quiet_int_reln [OF i]] show ?thesis by auto
qed

lemma checked_reln:
  assumes "keeps ms ms1" "print_ready m ms1"
  shows "checked m ms (Some (int_reln ms1 m v l))"
proof -
  obtain r ms' where i: "int_reln ms1 m v l = (r, ms')" "keeps ms1 ms'" "same_search ms1 ms'"
    using int_reln_ok [of ms1 m v l] by auto
  then show ?thesis
    using keeps_trans [OF assms(1) i(2)] print_ready_same [OF assms(2) i(3)] by (simp add: checked_def)
qed

lemma magiccheck_search:
  assumes f: "fetched m ms" and wf: "wf_magic m" and t: "m_type m = FILE_SEARCH"
  shows "checked m ms (magiccheck env ms m)"
proof (cases "ms_search_s ms")
  case None
  then show ?thesis by (simp add: magiccheck_def Let_def t checked_def)
next
  case (Some s)
  have s: "ms_search_len ms \<le> length s" using f t Some by (simp add: fetched_def search_ok_def)
  obtain v k where v: "search_value (e_memmem env) s (ms_search_len ms) m = Some (v, k)" and k: "v = 0 \<longrightarrow> k \<le> ms_search_len ms"
    using search_value_safe [of m "ms_search_len ms" s "e_memmem env"] wf t s by (auto simp: wf_magic_def Let_def)
  define ms1 where "ms1 = (if v = 0 then ms\<lparr>ms_search_offset := ms_search_offset ms + k, ms_rm_len := ms_search_len ms - k\<rparr> else ms)"
  have k1: "keeps ms ms1" by (simp add: ms1_def keeps_def ms_inv_def out_ok_def split: option.split)
  have sx: "file_signextend m v = v" by (simp add: file_signextend_def t)
  obtain r ms' where i: "int_reln ms1 m v 0 = (r, ms')" "keeps ms1 ms'" "same_search ms1 ms'"
      and e: "r \<noteq> 0 \<and> r \<noteq> -1 \<longrightarrow> m_reln m = 0x3d \<longrightarrow> v = 0"
    using int_reln_ok [of ms1 m v 0] by auto
  have "print_ready m ms'" if "r \<noteq> 0 \<and> r \<noteq> -1"
  proof -
    have "print_ready m ms1" using e that wf t s Some
      by (auto simp: print_ready_def ms1_def wf_magic_def Let_def)
    then show ?thesis using i(3) by (rule print_ready_same)
  qed
  moreover have "magiccheck env ms m = Some (r, ms')"
    using Some s v i(1) sx by (simp add: magiccheck_def Let_def t ms1_def)
  ultimately show ?thesis using keeps_trans [OF k1 i(2)] by (simp add: checked_def)
qed

lemma magiccheck_regex:
  assumes f: "fetched m ms" and t: "m_type m = FILE_REGEX"
  shows "checked m ms (magiccheck env ms m)"
proof (cases "ms_search_s ms")
  case None
  then show ?thesis by (simp add: magiccheck_def regex_check_def Let_def t checked_def)
next
  case (Some s)
  obtain ok ms1 where a: "alloc_regex env ms m = (ok, ms1)" by (cases "alloc_regex env ms m")
  note k1 = quiet_keeps [OF quiet_alloc_regex [OF a]]
  have s1: "ms_search_s ms1 = Some s" "ms_search_len ms1 \<le> length s" "ms_rm_len ms1 = 0"
    using k1 Some f t by (auto simp: same_search_def fetched_def search_ok_def)
  then have p1: "print_ready m ms1" using t by (simp add: print_ready_def)
  let ?slen = "ms_search_len ms1 - 1"
  let ?ms2 = "\<lambda>so eo. ms1\<lparr>ms_search_s := Some (drop (nat so) s), ms_search_offset := ms_search_offset ms1 + nat so, ms_rm_len := nat (eo - so)\<rparr>"
  have k2: "keeps ms (?ms2 so eo)" for so eo
    using k1 by (simp add: keeps_def ms_inv_def out_ok_def split: option.splits)
  have p2: "print_ready m (?ms2 so eo)" if "\<not> (so < 0 \<or> eo < 0 \<or> eo < so \<or> int ?slen < eo)" for so eo
    using that s1 t by (auto simp: print_ready_def nat_diff_distrib)
  have c: "regex_check env ms m \<noteq> None" "\<And>r ms'. regex_check env ms m = Some (Inl r, ms') \<Longrightarrow> (r = 0 \<or> r = -1) \<and> keeps ms ms'"
    "\<And>v ms'. regex_check env ms m = Some (Inr v, ms') \<Longrightarrow> keeps ms ms' \<and> print_ready m ms'"
    using Some s1 a k1 p1 k2 p2 by (auto simp: regex_check_def Let_def split: if_splits rx_result.splits)
  obtain x ms' where rc: "regex_check env ms m = Some (x, ms')" using c(1) by auto
  show ?thesis
  proof (cases x)
    case (Inl r)
    then show ?thesis using c(2) rc by (auto simp: magiccheck_def Let_def t checked_def)
  next
    case (Inr v)
    then show ?thesis using c(3) rc checked_reln by (simp add: magiccheck_def Let_def t)
  qed
qed

lemma keeps_strlcpy: "length s < MAXstring \<Longrightarrow> length (ms_value (strlcpy_value ms s)) = length (ms_value ms) \<Longrightarrow>
    keeps ms (strlcpy_value ms s) \<and> same_search ms (strlcpy_value ms s)"
  using keeps_value [of "ms_value (strlcpy_value ms s)" ms] by (simp add: strlcpy_value_def Let_def same_search_def)

lemma magiccheck_der:
  assumes f: "fetched m ms" and inv: "ms_inv ms" and t: "m_type m = FILE_DER"
  shows "checked m ms (magiccheck env ms m)"
proof -
  have mc: "magiccheck env ms m = map_option (\<lambda>(r, ms). (if r = -1 then 0 else r, ms)) (der_cmp ms m)"
    by (simp add: magiccheck_def Let_def t)
  show ?thesis
  proof (cases "ms_search_s ms")
    case None
    then have "der_cmp ms m = Some (-1, ms)" by (simp add: der_cmp_def gettag_def)
    then show ?thesis by (simp add: mc checked_def)
  next
    case (Some c)
    have so: "search_ok ms" using f t by (simp add: fetched_def)
    then obtain r ms' where d: "der_cmp ms m = Some (r, ms')" "r \<in> {-1, 0, 1}"
        and ms': "ms' = ms \<or> r = 1 \<and> (\<exists>s. length s < MAXstring \<and> ms' = strlcpy_value ms s \<and> length (ms_value ms') = MAXstring)"
      using der_cmp_safe_aux [OF Some, of m] Some inv by (auto simp: search_ok_def ms_inv_def)
    have k: "keeps ms ms' \<and> same_search ms ms'"
      using ms' keeps_strlcpy inv by (auto simp: ms_inv_def)
    have "ms_search_len ms \<noteq> 0" if "r = 1"
    proof
      assume "ms_search_len ms = 0"
      then have "der_cmp ms m = Some (-1, ms)" using Some by (simp add: der_cmp_def gettag_def)
      with d that show False by simp
    qed
    then have "print_ready m ms'" if "r = 1"
      using that so k Some t by (auto simp: print_ready_def same_search_def search_ok_def)
    then show ?thesis using d k by (auto simp: mc checked_def)
  qed
qed

lemma checked_float: "m_type m \<noteq> FILE_SEARCH \<Longrightarrow> m_type m \<noteq> FILE_REGEX \<Longrightarrow> m_type m \<noteq> FILE_DER \<Longrightarrow>
    checked m ms (Some (float_reln ms reln what c))"
  by (cases "float_reln ms reln what c") (auto simp: checked_def print_ready_def dest: quiet_float_reln quiet_keeps)

lemma checked_simple: "m_type m \<noteq> FILE_SEARCH \<Longrightarrow> m_type m \<noteq> FILE_REGEX \<Longrightarrow> m_type m \<noteq> FILE_DER \<Longrightarrow> quiet ms ms' \<Longrightarrow>
    checked m ms (Some (r, ms'))"
  by (auto simp: checked_def print_ready_def dest: quiet_keeps)

lemma checked_if: "(c \<Longrightarrow> checked m ms a) \<Longrightarrow> (\<not> c \<Longrightarrow> checked m ms b) \<Longrightarrow> checked m ms (if c then a else b)"
  by simp

lemma magiccheck_safe:
  assumes "ms_inv ms" "wf_magic m" "fetched m ms"
  shows "checked m ms (magiccheck env ms m)"
proof -
  consider "m_type m = FILE_SEARCH" | "m_type m = FILE_REGEX" | "m_type m = FILE_DER"
    | (other) "m_type m \<noteq> FILE_SEARCH" "m_type m \<noteq> FILE_REGEX" "m_type m \<noteq> FILE_DER" by blast
  then show ?thesis
  proof cases
    case other
    have pr: "print_ready m ms" using other by (simp add: print_ready_def)
    have val: "length (m_value m) = 128" "unat (m_vallen m) < 128" "length (ms_value ms) = 128"
      using assms by (simp_all add: wf_magic_def ms_inv_def Let_def)
    obtain v1 where s: "(m_type m = FILE_STRING \<or> m_type m = FILE_PSTRING \<or> m_type m = FILE_OCTAL) \<Longrightarrow>
        file_strncmp (m_value m) (ms_value ms) (unat (m_vallen m)) 128 (str_flags m) = Some v1"
      using file_strncmp_safe [of "unat (m_vallen m)" "m_value m" "ms_value ms" 128 "str_flags m"] val assms(2)
      by (fastforce simp: wf_magic_def Let_def)
    obtain v2 where s16: "file_strncmp (m_value m) (ms_value ms) (unat (m_vallen m)) 128 0 = Some v2"
      using file_strncmp_safe [of "unat (m_vallen m)" "m_value m" "ms_value ms" 128 0] val by (auto simp: has_def)
    note c = checked_reln [OF keeps_refl pr]
    show ?thesis
      unfolding magiccheck_def Let_def file_strncmp16_def
      by (intro checked_if)
         (simp_all add: other s s16 c checked_float [OF other] checked_simple [OF other])
  qed (use assms magiccheck_search magiccheck_regex magiccheck_der in blast)+
qed
subsection \<open>Printing\<close>

definition ran :: "magic_set \<Rightarrow> (int \<times> magic_set) option \<Rightarrow> bool" where
  "ran ms res \<longleftrightarrow> (\<exists>r ms'. res = Some (r, ms') \<and> keeps ms ms' \<and> same_search ms ms')"

lemma ran_if: "(c \<Longrightarrow> ran ms a) \<Longrightarrow> (\<not> c \<Longrightarrow> ran ms b) \<Longrightarrow> ran ms (if c then a else b)"
  by simp

lemma ran_quiet: "(\<And>r ms'. x = (r, ms') \<Longrightarrow> quiet ms ms') \<Longrightarrow> ran ms (Some x)"
  by (cases x) (auto simp: ran_def dest: quiet_keeps)

lemma length_cut_line [simp]: "length (cut_line v) = length v"
  by (simp add: cut_line_def)

lemma length_trim_value [simp]: "length (trim_value v) = length v"
  by (simp add: trim_value_def Let_def)

lemma ran_trans: "keeps ms ms1 \<Longrightarrow> same_search ms ms1 \<Longrightarrow> ran ms1 res \<Longrightarrow> ran ms res"
  unfolding ran_def by (metis keeps_trans same_search_trans)

lemma ran_mprint_string: "ran ms (Some (mprint_string env ms m))"
proof (cases "m_reln m = 0x3d \<or> m_reln m = 0x21")
  case True
  then show ?thesis by (auto simp: mprint_string_def Let_def intro!: ran_quiet dest: quiet_print_checked)
next
  case False
  let ?v = "if first_nul m then cut_line (ms_value ms) else ms_value ms"
  let ?w = "if has (str_flags m) STRING_TRIM then trim_value ?v else ?v"
  let ?ms1 = "ms\<lparr>ms_value := ?w\<rparr>"
  have "keeps ms ?ms1" by (rule keeps_value) simp
  moreover have "same_search ms ?ms1" by (simp add: same_search_def)
  moreover have "ran ?ms1 (Some (mprint_string env ms m))"
    using False unfolding mprint_string_def Let_def
    by (intro ran_quiet) (auto split: prod.splits if_splits dest!: quiet_print_checked quiet_pstring intro: quiet_trans)
  ultimately show ?thesis by (rule ran_trans)
qed

lemma mprint_safe:
  assumes "print_ready m ms" "cstr (m_desc m) \<noteq> []"
  shows "ran ms (mprint env ms m)"
proof -
  have r: "\<exists>cp. read_str s 0 (ms_rm_len ms) = Some cp" if "ms_search_s ms = Some s" "m_type m = FILE_SEARCH \<or> m_type m = FILE_REGEX" for s
    using assms that by (intro read_str_safe) (auto simp: print_ready_def)
  have q: "ran ms (Some (PRINTER env ms m d f w v))" "ran ms (Some (print_checked env ms d df a))" "ran ms (Some (mprint_float env ms m x))"
    "ran ms (Some (file_printf ms tx))" "ran ms (Some (n, ms))" "ran ms (Some (n, file_magerror ms tx))" for d f w v df a x tx n
    by (auto intro!: ran_quiet dest: quiet_PRINTER quiet_print_checked quiet_mprint_float quiet_printf)
  show ?thesis
    unfolding mprint_def Let_def
    by (intro ran_if) (auto simp: q ran_mprint_string split: option.split dest: r)
qed

subsection \<open>Offsets\<close>

lemma der_offs_keeps: "der_offs ms m n = Some (r, ms') \<Longrightarrow> keeps ms ms'"
  by (auto simp: der_offs_def Let_def split: option.splits if_splits)

definition offset_ran :: "magic_set \<Rightarrow> (int \<times> u32 option \<times> magic_set) option \<Rightarrow> bool" where
  "offset_ran ms res \<longleftrightarrow> (\<exists>r w ms'. res = Some (r, w, ms') \<and> keeps ms ms')"

lemma offset_ran_if: "(c \<Longrightarrow> offset_ran ms a) \<Longrightarrow> (\<not> c \<Longrightarrow> offset_ran ms b) \<Longrightarrow> offset_ran ms (if c then a else b)"
  by simp

lemma offset_ran_Some: "keeps ms ms' \<Longrightarrow> offset_ran ms (Some (r, w, ms'))"
  by (simp add: offset_ran_def)

lemma offset_ran_pair:
  "(\<And>l ms'. x = (l, ms') \<Longrightarrow> offset_ran ms (f l ms')) \<Longrightarrow> offset_ran ms (case x of (l, ms') \<Rightarrow> f l ms')"
  by (cases x) simp

lemma offset_ran_opt:
  "\<exists>r ms'. x = Some (r, ms') \<and> keeps ms ms' \<Longrightarrow> (\<And>r ms'. keeps ms ms' \<Longrightarrow> offset_ran ms (f r ms')) \<Longrightarrow>
   offset_ran ms (case x of None \<Rightarrow> None | Some (r, ms') \<Rightarrow> f r ms')"
  by auto

lemma moffset_safe:
  assumes "m_type m = FILE_DER \<Longrightarrow> search_ok ms \<and> ms_search_len ms \<noteq> 0 \<and> ms_search_s ms \<noteq> None \<and> unat (m_cont_level m) \<le> length (ms_li ms)"
  shows "offset_ran ms (moffset ms m nbytes off)"
proof -
  let ?v = "if first_nul m then cut_line (ms_value ms) else ms_value ms"
  have kv: "keeps ms (ms\<lparr>ms_value := ?v\<rparr>)" by (rule keeps_value) simp
  have kp: "keeps ms ms'" if "file_pstring_length_size (ms\<lparr>ms_value := ?v\<rparr>) m = (l, ms')" for l ms'
    using quiet_keeps [OF quiet_pstring [OF that]] kv keeps_trans by blast
  have der: "\<exists>r ms'. der_offs ms m nbytes = Some (r, ms') \<and> keeps ms ms'" if "m_type m = FILE_DER"
    using der_offs_safe_aux [of ms _ m nbytes] assms [OF that] der_offs_keeps by (fastforce simp: search_ok_def)
  show ?thesis
    unfolding moffset_def Let_def
    by (intro offset_ran_if offset_ran_pair offset_ran_opt offset_ran_Some der)
       (simp_all add: kv kp)
qed
subsection \<open>Fetching bytes\<close>

lemma memchr_less: "memchr s b c = Some k \<Longrightarrow> k < length s"
  by (auto simp: memchr_def Let_def split: if_splits)

lemma regex_lines_within: "la \<le> length region \<Longrightarrow> snd (regex_lines region lines b la) \<le> length region"
proof (induction region lines b la rule: regex_lines.induct)
  case (2 region lines b la)
  show ?case
  proof (cases "case memchr region b 0x0a of Some k \<Rightarrow> Some k | None \<Rightarrow> memchr region b 0x0d")
    case None
    then show ?thesis using 2(2) by simp
  next
    case (Some k)
    then have k: "k < length region" by (auto dest: memchr_less split: option.splits)
    let ?b1 = "if Suc k < length region \<and> region ! k = 0x0d \<and> region ! Suc k = 0x0a then Suc k else k"
    let ?b2 = "if Suc ?b1 < length region \<and> region ! ?b1 = 0x0a then Suc ?b1 else ?b1"
    have "?b2 \<le> length region" using k by simp
    then show ?thesis using 2 Some by (simp add: Let_def)
  qed
qed simp

lemma regex_region_within: "regex_region ms s off nbytes m \<le> length (drop off s)"
proof -
  have "(case regex_lines (take n (drop off s)) l 0 (length (take n (drop off s))) of
      (lines, la) \<Rightarrow> if lines \<noteq> 0 then length (take n (drop off s)) else la) \<le> length (drop off s)" for n l
    using regex_lines_within [of "length (take n (drop off s))" "take n (drop off s)" l 0]
    by (auto split: prod.split)
  then show ?thesis unfolding regex_region_def Let_def .
qed

lemma length_put [simp]:
  "length (put_b w v) = Suc (length v - 1)" "length (put_h x v) = 2 + (length v - 2)"
  "length (put_l y v) = 4 + (length v - 4)" "length (put_q z v) = 8 + (length v - 8)"
  by (simp_all add: put_b_def put_h_def put_l_def put_q_def)

lemma length_put_string16: "length v = MAXstring \<Longrightarrow> length (put_string16 t v) = MAXstring"
  by (simp add: put_string16_def Let_def)

lemma length_shift_pstring: "length v = MAXstring \<Longrightarrow> 0 < sz \<Longrightarrow> sz \<le> MAXstring \<Longrightarrow> length (shift_pstring sz len v) = MAXstring"
  by (simp add: shift_pstring_def Let_def)

lemma keeps_new_value: "length v = MAXstring \<Longrightarrow> keeps ms (ms\<lparr>ms_value := v\<rparr>)"
  by (simp add: keeps_def ms_inv_def out_ok_def split: option.split)

lemma keeps_search:
  "keeps ms (ms\<lparr>ms_search_s := a, ms_search_len := b, ms_search_offset := c\<rparr>)"
  "keeps ms (ms\<lparr>ms_search_s := a, ms_search_len := b, ms_search_offset := c, ms_rm_len := d\<rparr>)"
  "keeps ms (ms\<lparr>ms_search_len := b, ms_search_s := a\<rparr>)"
  by (simp_all add: keeps_def ms_inv_def out_ok_def split: option.split)

lemma keeps_if: "(c \<Longrightarrow> keeps ms a) \<Longrightarrow> (\<not> c \<Longrightarrow> keeps ms b) \<Longrightarrow> keeps ms (if c then a else b)"
  by simp

lemma mcopy_keeps:
  assumes "nbytes \<le> length s" "ms_inv ms"
  shows "keeps ms (mcopy ms t indir s off nbytes m)"
proof -
  let ?copy = "\<lambda>size. if nbytes \<le> unat off then replicate MAXstring 0
     else take (if nbytes - unat off < size then nbytes - unat off else size) (drop (unat off) s) @
       replicate (MAXstring - (if nbytes - unat off < size then nbytes - unat off else size)) (0::u8)"
  have c: "length (?copy size) = MAXstring" if "size \<le> MAXstring" for size
    using assms(1) that by auto
  have v: "length (ms_value ms) = 128" using assms(2) by (simp add: ms_inv_def)
  show ?thesis
    unfolding mcopy_def Let_def
    by (intro keeps_if keeps_search keeps_new_value c length_put_string16) (simp_all add: v)
qed

lemma mcopy_fetched:
  assumes "nbytes \<le> length s" "length s < 2 ^ 31"
  shows "fetched m (mcopy ms (m_type m) False s off nbytes m)"
proof -
  have "unat (word_of_nat nbytes :: u32) = nbytes" using assms by (intro unat_word_of_nat) simp
  then show ?thesis
    using assms regex_region_within [of ms s "unat off" nbytes m]
    by (auto simp: fetched_def mcopy_def Let_def search_ok_def)
qed

lemma pstring_size: "file_pstring_length_size ms m = (sz, ms') \<Longrightarrow> sz \<noteq> FILE_BADSIZE \<Longrightarrow> 0 < unat sz \<and> unat sz \<le> 4"
  by (auto simp: file_pstring_length_size_def Let_def split: if_splits)

text \<open>The conversion keeps the query and its search region.\<close>

definition conv_ran :: "magic_set \<Rightarrow> bool \<times> magic_set \<Rightarrow> bool" where
  "conv_ran ms res \<longleftrightarrow> keeps ms (snd res) \<and> same_search ms (snd res)"

lemma conv_ran_if: "(c \<Longrightarrow> conv_ran ms a) \<Longrightarrow> (\<not> c \<Longrightarrow> conv_ran ms b) \<Longrightarrow> conv_ran ms (if c then a else b)"
  by simp

lemma conv_ran_ret:
  assumes "length p = MAXstring" "\<And>v. r = Some v \<Longrightarrow> length v = MAXstring"
  shows "conv_ran ms (case r of Some v \<Rightarrow> (True, ms\<lparr>ms_value := v\<rparr>) | None \<Rightarrow> (False, file_magerror (ms\<lparr>ms_value := p\<rparr>) msg))"
proof (cases r)
  case None
  have "keeps ms (file_magerror (ms\<lparr>ms_value := p\<rparr>) msg)"
    using keeps_trans [OF keeps_new_value [OF assms(1)]] quiet_keeps [OF quiet_magerror] by blast
  moreover have "same_search ms (file_magerror (ms\<lparr>ms_value := p\<rparr>) msg)"
    using quiet_keeps [OF quiet_magerror [of "ms\<lparr>ms_value := p\<rparr>" msg]] by (simp add: same_search_def)
  ultimately show ?thesis using None by (simp add: conv_ran_def)
next
  case (Some v)
  then show ?thesis using keeps_new_value [OF assms(2)] by (simp add: conv_ran_def same_search_def)
qed

lemma cvt_length:
  "cvt_8 p m = Some v \<Longrightarrow> length p = MAXstring \<Longrightarrow> length v = MAXstring"
  "cvt_16 p m = Some v \<Longrightarrow> length p = MAXstring \<Longrightarrow> length v = MAXstring"
  "cvt_32 p m = Some v \<Longrightarrow> length p = MAXstring \<Longrightarrow> length v = MAXstring"
  "cvt_64 p m = Some v \<Longrightarrow> length p = MAXstring \<Longrightarrow> length v = MAXstring"
  by (auto simp: cvt_8_def cvt_16_def cvt_32_def cvt_64_def)

lemma cvt_float_length [simp]:
  "length p = MAXstring \<Longrightarrow> length (cvt_float f p m) = MAXstring"
  "length p = MAXstring \<Longrightarrow> length (cvt_double d p m) = MAXstring"
  by (simp_all add: cvt_float_def cvt_double_def)

lemma conv_ran_value: "length v = MAXstring \<Longrightarrow> conv_ran ms (True, ms\<lparr>ms_value := v\<rparr>)"
  using keeps_new_value by (simp add: conv_ran_def same_search_def)

lemma mconvert_pstring:
  assumes "length (ms_value ms) = MAXstring"
  shows "conv_ran ms (case file_pstring_length_size ms m of (sz, ms1) \<Rightarrow>
           if sz = FILE_BADSIZE then (False, ms1)
           else case file_pstring_get_length ms1 m (ms_value ms) of (len, ms2) \<Rightarrow>
             if len = FILE_BADSIZE then (False, ms2) else (True, ms\<lparr>ms_value := shift_pstring (unat sz) len (ms_value ms)\<rparr>))"
proof -
  obtain sz ms1 where s: "file_pstring_length_size ms m = (sz, ms1)" by (cases "file_pstring_length_size ms m")
  obtain len ms2 where l: "file_pstring_get_length ms1 m (ms_value ms) = (len, ms2)"
    by (cases "file_pstring_get_length ms1 m (ms_value ms)")
  have q: "quiet ms ms1" "quiet ms ms2" using quiet_pstring [OF s] quiet_pstring_get [OF l] by (auto intro: quiet_trans)
  have "length (shift_pstring (unat sz) len (ms_value ms)) = MAXstring" if "sz \<noteq> FILE_BADSIZE"
    using pstring_size [OF s that] assms by (intro length_shift_pstring) auto
  then show ?thesis
    using s l quiet_keeps [OF q(1)] quiet_keeps [OF q(2)] keeps_new_value by (auto simp: conv_ran_def same_search_def)
qed

lemma mconvert_keeps:
  assumes "ms_inv ms"
  shows "conv_ran ms (mconvert fop dop ms m flip)"
proof -
  have v: "length (ms_value ms) = MAXstring" using assms by (simp add: ms_inv_def)
  have e: "conv_ran ms (True, ms)" "conv_ran ms (False, file_magerror ms msg)" for msg
    using quiet_keeps [OF quiet_magerror [of ms msg]] by (simp_all add: conv_ran_def)
  show ?thesis
    unfolding mconvert_def Let_def option.case
    by (intro conv_ran_if mconvert_pstring [OF v] conv_ran_ret conv_ran_value e)
       (use v in \<open>auto dest!: cvt_length\<close>)
qed

lemma cvt_flip_octal: "cvt_flip t flip = FILE_OCTAL \<longleftrightarrow> t = FILE_OCTAL"
  by (simp add: cvt_flip_def)

lemma sint_u32_range: "- 0x80000000 \<le> sint (w :: u32) \<and> sint w < 0x80000000"
  using sint_greater_eq [of w] sint_less [of w] by simp

lemma mget_indir_safe:
  assumes wf: "wf_magic m" and i: "has (m_flag m) INDIR" and c: "cont_level \<le> length (ms_li ms)"
  shows "mget_indir ms m flip s offset cont_level \<noteq> None"
proof -
  have t: "cvt_flip (m_in_type m) flip \<noteq> FILE_OCTAL" using wf i by (simp add: cvt_flip_octal wf_magic_def Let_def)
  have opn: "in_operand ms m flip s offset \<noteq> None" using t by (auto simp: in_operand_def Let_def split: option.split)
  have ofs: "in_offset ms m flip n offset off \<noteq> None" if "in_operand ms m flip s offset = Some (Some off)" for n off
  proof -
    have "\<bar>off\<bar> \<le> 0x80000000" if op: "m_in_op m AND FILE_OPS_MASK = FILE_OPMULTIPLY"
    proof -
      have "\<not> has (m_in_op m) FILE_OPINDIRECT" using wf i op by (simp add: wf_magic_def Let_def)
      then have "off = sint (m_in_offset m)" using \<open>in_operand ms m flip s offset = Some (Some off)\<close> by (simp add: in_operand_def)
      then show ?thesis using sint_u32_range [of "m_in_offset m"] by auto
    qed
    then have "do_ops m lhs off \<noteq> None" for lhs by (intro do_ops_ok) simp
    then show ?thesis using t by (auto simp: in_offset_def Let_def split: option.split)
  qed
  obtain o1 where o1: "in_operand ms m flip s offset = Some o1" using opn by auto
  show ?thesis
  proof (cases o1)
    case None
    then show ?thesis using o1 by (simp add: mget_indir_def)
  next
    case (Some off)
    obtain o2 where o2: "in_offset ms m flip (length s) offset off = Some o2" using ofs [of off "length s"] o1 Some by auto
    show ?thesis using o1 Some o2 c by (auto simp: mget_indir_def Let_def split: option.split)
  qed
qed

end
