(* ===== verification/Softmagic_Safe.thy ===== *)
theory Softmagic_Safe
  imports Test_Safe
begin

text \<open>
  The loops of the engine (\<^verbatim>\<open>src/softmagic.c\<close>) end without undefined behaviour on a well-formed database, whenever the fuel
  exceeds the nesting that the limits of the query allow, and keep the invariant of the query; more fuel gives the
  same result.
\<close>

subsection \<open>The engine\<close>

text \<open>A list of entries is well formed when its entries are and it starts at the top level.\<close>

definition wf_list :: "magic list \<Rightarrow> bool" where
  "wf_list ml \<longleftrightarrow> list_all wf_magic ml \<and> (ml = [] \<or> m_cont_level (hd ml) = 0)"

definition wf_db :: "magic_set \<Rightarrow> bool" where
  "wf_db ms \<longleftrightarrow> list_all wf_list (ms_mlist0 ms) \<and>
     list_all (\<lambda>ml. list_all wf_magic ml \<and> list_all (\<lambda>m. m_type m = FILE_NAME \<longrightarrow> m_cont_level m = 0) ml) (ms_mlist1 ms)"

text \<open>The buffer is smaller than 2 GiB, and its tail can be read.\<close>

definition buf_ok :: "buffer \<Rightarrow> bool" where
  "buf_ok b \<longleftrightarrow> length (b_fbuf b) < 2 ^ 31 \<and> buffer_fill b \<noteq> None"

definition st_ok :: "mstate \<Rightarrow> bool" where
  "st_ok st \<longleftrightarrow> ms_inv (st_ms st) \<and> wf_db (st_ms st)"

text \<open>From one state to a later one: invariant and configuration kept, the \<^verbatim>\<open>indirect\<close> count not lower and the \<^verbatim>\<open>use\<close> count
  the same.\<close>

definition later :: "mstate \<Rightarrow> mstate \<Rightarrow> bool" where
  "later st st' \<longleftrightarrow> keeps (st_ms st) (st_ms st') \<and> st_ic st \<le> st_ic st' \<and> st_nc st' = st_nc st"

lemma later_refl [simp]: "later st st"
  by (simp add: later_def)

lemma later_trans [trans]: "later a b \<Longrightarrow> later b c \<Longrightarrow> later a c"
  unfolding later_def using keeps_trans by fastforce

lemma st_ok_later: "st_ok st \<Longrightarrow> later st st' \<Longrightarrow> st_ok st'"
  by (simp add: st_ok_def later_def keeps_def wf_db_def)

text \<open>How much deeper the recursion may still go.\<close>

definition depth_left :: "mstate \<Rightarrow> nat" where
  "depth_left st = (ms_indir_max (st_ms st) - st_ic st) + (ms_name_max (st_ms st) - st_nc st)"

lemma depth_later: "later st st' \<Longrightarrow> depth_left st' \<le> depth_left st"
  by (auto simp: later_def keeps_def depth_left_def intro: diff_le_mono2)

lemma find_name_wf: "find_name name ml = Some r \<Longrightarrow> list_all wf_magic ml \<Longrightarrow>
    list_all (\<lambda>m. m_type m = FILE_NAME \<longrightarrow> m_cont_level m = 0) ml \<Longrightarrow> wf_list r"
  by (induction name ml rule: find_name.induct) (auto simp: wf_list_def list_all_iff dest!: set_takeWhileD split: if_splits)

lemma magicfind_wf: "file_magicfind name mls = Some r \<Longrightarrow>
    list_all (\<lambda>ml. list_all wf_magic ml \<and> list_all (\<lambda>m. m_type m = FILE_NAME \<longrightarrow> m_cont_level m = 0) ml) mls \<Longrightarrow> wf_list r"
  by (induction name mls rule: file_magicfind.induct) (auto simp: find_name_wf split: option.splits)

text \<open>A run from a state: it ends, at a later state.\<close>

definition ends :: "mstate \<Rightarrow> (int \<times> mstate) option \<Rightarrow> bool" where
  "ends st res \<longleftrightarrow> (\<exists>r st'. res = Some (r, st') \<and> later st st')"

lemma ends_Some [simp]: "ends st (Some (r, st')) = later st st'"
  by (simp add: ends_def)

lemma later_ms: "keeps (st_ms st) ms' \<Longrightarrow> later st (st\<lparr>st_ms := ms'\<rparr>)"
  by (simp add: later_def)

lemma later_marks [simp]:
  "later st (st'\<lparr>st_ret := a\<rparr>) = later st st'" "later st (st'\<lparr>st_found := b\<rparr>) = later st st'"
  "later st (st'\<lparr>st_printed := c\<rparr>) = later st st'" "later st (st'\<lparr>st_needsep := d\<rparr>) = later st st'"
  "later st (st'\<lparr>st_first := e\<rparr>) = later st st'"
  by (simp_all add: later_def)

lemma from_marks [simp]:
  "later (st\<lparr>st_ret := a\<rparr>) st' = later st st'" "later (st\<lparr>st_found := b\<rparr>) st' = later st st'"
  "later (st\<lparr>st_needsep := d\<rparr>) st' = later st st'"
  by (simp_all add: later_def)

lemma ok_marks [simp]:
  "st_ok (st\<lparr>st_ret := a\<rparr>) = st_ok st" "st_ok (st\<lparr>st_found := b\<rparr>) = st_ok st" "st_ok (st\<lparr>st_needsep := d\<rparr>) = st_ok st"
  "st_ok (st\<lparr>st_nc := n\<rparr>) = st_ok st" "st_ok (st\<lparr>st_ic := n\<rparr>) = st_ok st"
  "depth_left (st\<lparr>st_ret := a\<rparr>) = depth_left st" "depth_left (st\<lparr>st_found := b\<rparr>) = depth_left st"
  "depth_left (st\<lparr>st_needsep := d\<rparr>) = depth_left st"
  by (simp_all add: st_ok_def depth_left_def)

lemma push_keeps: "file_push_buffer ms = Some (pb, ms') \<Longrightarrow> keeps ms ms' \<and> ms_mlist0 ms' = ms_mlist0 ms"
  by (auto simp: file_push_buffer_def keeps_def ms_inv_def out_ok_def split: if_splits)

lemma pop_keeps:
  assumes "file_push_buffer ms = Some (pb, ms1)" "keeps ms1 ms2" "file_pop_buffer ms2 pb = (rbuf, ms3)" "ms_inv ms"
  shows "keeps ms ms3"
proof -
  have "keeps ms ms2" using push_keeps [OF assms(1)] assms(2) keeps_trans by blast
  then show ?thesis using assms(1,3,4)
    by (auto simp: file_push_buffer_def file_pop_buffer_def keeps_def ms_inv_def out_ok_def split: if_splits option.splits)
qed

text \<open>What \<^verbatim>\<open>mget\<close> establishes for the test, or for a negated entry whose value is missing.\<close>

definition got :: "magic \<Rightarrow> mstate \<Rightarrow> (int \<times> mstate) option \<Rightarrow> bool" where
  "got m st res \<longleftrightarrow> (\<exists>r st'. res = Some (r, st') \<and> later st st' \<and>
     (r \<noteq> 0 \<and> r \<noteq> -1 \<longrightarrow> fetched m (st_ms st')) \<and> (r = 0 \<and> m_reln m = 0x21 \<longrightarrow> print_ready m (st_ms st')))"

lemma got_if: "(c \<Longrightarrow> got m st a) \<Longrightarrow> (\<not> c \<Longrightarrow> got m st b) \<Longrightarrow> got m st (if c then a else b)"
  by simp

lemma got_error: "keeps (st_ms st) ms' \<Longrightarrow> got m st (Some (-1, st\<lparr>st_ms := ms'\<rparr>))"
  by (simp add: got_def later_ms)

lemma got_plain: "ends st res \<Longrightarrow> m_type m \<noteq> FILE_SEARCH \<Longrightarrow> m_type m \<noteq> FILE_REGEX \<Longrightarrow> m_type m \<noteq> FILE_DER \<Longrightarrow> got m st res"
  by (auto simp: ends_def got_def fetched_def print_ready_def)

lemma got_from: "later st st1 \<Longrightarrow> got m st1 res \<Longrightarrow> got m st res"
  by (auto simp: got_def intro: later_trans)

lemma fetched_same: "fetched m ms \<Longrightarrow> same_search ms ms' \<Longrightarrow> fetched m ms'"
  by (simp add: fetched_def same_search_def search_ok_def)

lemma fetched_offset: "fetched m (ms\<lparr>ms_offset := a\<rparr>) = fetched m ms"
  by (simp add: fetched_def search_ok_def)

lemma missing_ready:
  assumes "wf_magic m" "m_reln m = 0x21" "fetched m ms \<or> has (m_flag m) INDIR"
  shows "print_ready m ms"
  using assms by (auto simp: wf_magic_def Let_def print_ready_def fetched_def)

lemma mconvert_got:
  assumes "ms_inv (st_ms st)" "fetched m (st_ms st)" "wf_magic m"
  shows "got m st (case mconvert fop dop (st_ms st) m flip of (ok, ms) \<Rightarrow> Some (if ok then 1 else 0, st\<lparr>st_ms := ms\<rparr>))"
proof -
  obtain ok ms where c: "mconvert fop dop (st_ms st) m flip = (ok, ms)" by (cases "mconvert fop dop (st_ms st) m flip")
  then have k: "keeps (st_ms st) ms" "same_search (st_ms st) ms"
    using mconvert_keeps [OF assms(1), of fop dop m flip] by (simp_all add: conv_ran_def)
  then show ?thesis
    using c fetched_same [OF assms(2) k(2)] missing_ready [OF assms(3)] by (auto simp: got_def later_ms)
qed

lemma name_ends:
  "ends st (if has (ms_flags (st_ms st)) MAGIC_NODESC then Some (1, st)
            else case file_printf (st_ms st) t of (r, ms) \<Rightarrow> Some (if r = -1 then -1 else 1, st\<lparr>st_ms := ms\<rparr>))"
proof (cases "file_printf (st_ms st) t")
  case (Pair r ms)
  then have "keeps (st_ms st) ms" by (auto dest: quiet_printf quiet_keeps)
  then show ?thesis using Pair by (simp add: later_ms)
qed

text \<open>A step of one of the two loops: it goes on at a level the stack holds, with a working buffer that is not too
  long, from a later state.\<close>

definition stepped :: "mstate \<Rightarrow> nat \<Rightarrow> step_result option \<Rightarrow> bool" where
  "stepped st lvl res \<longleftrightarrow>
     (case res of None \<Rightarrow> False
      | Some (Return r st') \<Rightarrow> later st st'
      | Some (Flush bb st') \<Rightarrow> later st st' \<and> length bb < 2 ^ 31
      | Some (Go l bb st') \<Rightarrow> later st st' \<and> length bb < 2 ^ 31 \<and> l < length (ms_li (st_ms st')) \<and> lvl \<le> l)"

lemma stepped_if: "(c \<Longrightarrow> stepped st l a) \<Longrightarrow> (\<not> c \<Longrightarrow> stepped st l b) \<Longrightarrow> stepped st l (if c then a else b)"
  by simp

lemma stepped_from: "later st st1 \<Longrightarrow> stepped st1 l res \<Longrightarrow> stepped st l res"
  by (auto simp: stepped_def intro: later_trans split: option.splits step_result.splits)

lemma stepped_simps [simp]:
  "stepped st l (Some (Return r st')) = later st st'"
  "stepped st l (Some (Flush bb st')) = (later st st' \<and> length bb < 2 ^ 31)"
  "stepped st l (Some (Go k bb st')) = (later st st' \<and> length bb < 2 ^ 31 \<and> k < length (ms_li (st_ms st')) \<and> l \<le> k)"
  by (simp_all add: stepped_def)

lemma set_li_keeps [simp]: "keeps ms (set_li k f ms)" "same_search ms (set_li k f ms)" "length (ms_li (set_li k f ms)) = length (ms_li ms)"
  by (simp_all add: set_li_def same_search_def)

lemma store_off_keeps [simp]: "keeps ms (store_off k w ms)"
  by (simp add: store_off_def split: option.split)

lemma check_mem_keeps: "keeps ms (snd (file_check_mem fresh ms k))" "k < length (ms_li (snd (file_check_mem fresh ms k)))"
  by (auto simp: file_check_mem_def Let_def intro: keeps_upd(4))

lemma msetoffset_keeps:
  assumes "msetoffset ms m bb b off lvl = (r, bb', ms')" "buf_ok b" "length bb < 2 ^ 31"
  shows "keeps ms ms'" "length bb' < 2 ^ 31"
proof -
  have e: "length ebuf < 2 ^ 31" if "buffer_fill b = Some ebuf" for ebuf
    using that assms(2) by (auto simp: buffer_fill_def buf_ok_def Let_def split: if_splits option.splits)
  have k: "keeps ms (ms\<lparr>ms_offset := a, ms_eoffset := c\<rparr>)" for a c
    using keeps_trans [OF keeps_upd(1) keeps_upd(2)] .
  show "keeps ms ms'"
    using assms(1) k quiet_keeps [OF quiet_magerror] by (auto simp: msetoffset_def Let_def split: if_splits option.splits)
  show "length bb' < 2 ^ 31"
    using assms e by (auto simp: msetoffset_def buf_ok_def Let_def split: if_splits option.splits)
qed

text \<open>What is left of a matching entry once it has printed: the next offset.\<close>

lemma cont_offset_stepped:
  assumes "print_ready m (st_ms st)" "unat (m_cont_level m) = lvl" "lvl < length (ms_li (st_ms st))" "length bb < 2 ^ 31"
  shows "stepped st lvl (cont_offset env ctx bb lvl m st)"
proof -
  have "offset_ran (st_ms st) (moffset (st_ms st) m (length bb) (c_o ctx))"
    using assms by (intro moffset_safe) (simp add: print_ready_def)
  then obtain r w ms where o: "moffset (st_ms st) m (length bb) (c_o ctx) = Some (r, w, ms)" "keeps (st_ms st) ms"
    by (auto simp: offset_ran_def)
  have "keeps (st_ms st) (snd (file_check_mem (e_fresh env) (store_off lvl w ms) k))" for k
    using keeps_trans [OF o(2) keeps_trans [OF store_off_keeps check_mem_keeps(1)]] .
  then show ?thesis using o(1) assms(4) check_mem_keeps(2) by (auto simp: cont_offset_def Let_def intro: later_ms)
qed

lemma top_offset_stepped:
  assumes "print_ready m (st_ms st)" "unat (m_cont_level m) \<le> length (ms_li (st_ms st))" "length bb < 2 ^ 31"
  shows "stepped st 1 (top_offset env ctx bb m st)"
proof -
  have "offset_ran (st_ms st) (moffset (st_ms st) m (length bb) (c_o ctx))"
    using assms by (intro moffset_safe) (simp add: print_ready_def)
  then obtain r w ms where o: "moffset (st_ms st) m (length bb) (c_o ctx) = Some (r, w, ms)" "keeps (st_ms st) ms"
    by (auto simp: offset_ran_def)
  have "keeps (st_ms st) (store_off 0 w ms)" "keeps (st_ms st) (snd (file_check_mem (e_fresh env) (store_off 0 w ms) 1))"
    using keeps_trans [OF o(2) store_off_keeps] keeps_trans [OF o(2) keeps_trans [OF store_off_keeps check_mem_keeps(1)]] by blast+
  then show ?thesis using o(1) assms(3) check_mem_keeps(2) by (auto simp: top_offset_def Let_def intro: later_ms)
qed

text \<open>The part of a matching entry that prints, and what printing keeps for it.\<close>

definition ready :: "magic \<Rightarrow> nat \<Rightarrow> mstate \<Rightarrow> bool" where
  "ready m n st \<longleftrightarrow> print_ready m (st_ms st) \<and> n \<le> length (ms_li (st_ms st))"

definition calm :: "mstate \<Rightarrow> magic_set \<Rightarrow> bool" where
  "calm st ms \<longleftrightarrow> keeps (st_ms st) ms \<and> same_search (st_ms st) ms"

lemma calm_quiet: "calm st ms \<Longrightarrow> quiet ms ms' \<Longrightarrow> calm st ms'"
  by (auto simp: calm_def dest: quiet_keeps intro: keeps_trans same_search_trans)

lemma calm_self [simp]: "calm st (st_ms st)"
  by (simp add: calm_def)

lemma calm_keeps: "calm st ms \<Longrightarrow> keeps (st_ms st) ms"
  by (simp add: calm_def)

lemma calm_later: "calm st ms \<Longrightarrow> later st (st\<lparr>st_ms := ms\<rparr>)"
  by (simp add: calm_def later_ms)

lemma calm_ready: "calm st ms \<Longrightarrow> ready m n st \<Longrightarrow> ready m n (st'\<lparr>st_ms := ms\<rparr>)"
  unfolding ready_def calm_def by (auto simp: keeps_def intro: print_ready_same)

lemma calm_mprint: "calm st ms \<Longrightarrow> ready m n st \<Longrightarrow> cstr (m_desc m) \<noteq> [] \<Longrightarrow> \<exists>r ms'. mprint env ms m = Some (r, ms') \<and> calm st ms'"
  using mprint_safe [of m ms env] print_ready_same [of m "st_ms st" ms]
  by (auto simp: ran_def calm_def ready_def intro: keeps_trans same_search_trans)

lemma ready_marks [simp]:
  "ready m n (st\<lparr>st_ret := a\<rparr>) = ready m n st" "ready m n (st\<lparr>st_found := b\<rparr>) = ready m n st"
  "ready m n (st\<lparr>st_printed := c\<rparr>) = ready m n st" "ready m n (st\<lparr>st_needsep := d\<rparr>) = ready m n st"
  by (simp_all add: ready_def)

lemma quiet_later: "quiet (st_ms st) ms \<Longrightarrow> later st (st\<lparr>st_ms := ms\<rparr>)"
  by (auto dest: quiet_keeps intro: later_ms)

lemma annotated_later [simp]: "later st (annotated st') = later st st'"
  by (simp add: annotated_def)

lemma cont_matched_stepped:
  assumes rd: "ready m (Suc lvl) st" and lvl: "unat (m_cont_level m) = lvl" and bb: "length bb < 2 ^ 31"
  shows "stepped st lvl (cont_matched env ctx bb lvl m st)"
proof -
  obtain e ms1 where a: "handle_annotation (st_ms st) m (st_first st) = (e, ms1)" by fastforce
  have c1: "calm st ms1" using calm_quiet [OF calm_self quiet_handle_annotation [OF a]] .
  obtain r2 ms2 where s: "(if st_printed st then (0, ms1) else print_sep ms1 (st_first st)) = (r2, ms2)" by fastforce
  have c2: "calm st ms2" using s c1 by (auto split: if_splits dest: quiet_print_sep intro: calm_quiet)
  obtain r3 ms3 where p: "(if st_needsep st \<and> \<not> has (m_flag m) NOSPACE then file_printf ms2 [0x20] else (0, ms2)) = (r3, ms3)" by fastforce
  have c3: "calm st ms3" using p c2 by (auto split: if_splits dest: quiet_printf intro: calm_quiet)
  have fin: "stepped st lvl (cont_offset env ctx bb lvl m st')" if "ready m (Suc lvl) st'" "later st st'" for st'
    using that lvl bb by (intro stepped_from [OF that(2) cont_offset_stepped]) (simp_all add: ready_def)
  show ?thesis
  proof (cases "cstr (m_desc m) = []")
    case True
    then show ?thesis
      using a calm_later [OF c1] fin calm_ready [OF c1 rd] by (simp add: cont_matched_def Let_def)
  next
    case False
    obtain r4 ms4 where q: "mprint env ms3 m = Some (r4, ms4)" "calm st ms4" using calm_mprint [OF c3 rd False] by blast
    note k1 = calm_keeps [OF c1] and k2 = calm_keeps [OF c2] and k3 = calm_keeps [OF c3] and k4 = calm_keeps [OF q(2)]
    show ?thesis
      using False a s p q(1) k1 k2 k3 k4 fin [unfolded later_def] calm_ready [OF c1 rd] calm_ready [OF q(2) rd]
      by (cases "st_printed st"; cases "st_needsep st"; cases "has (m_flag m) NOSPACE"; simp add: cont_matched_def Let_def later_def annotated_def)
  qed
qed

lemma top_matched_stepped:
  assumes rd: "ready m n st" and lvl: "unat (m_cont_level m) \<le> n" and bb: "length bb < 2 ^ 31"
  shows "stepped st 1 (top_matched env ctx bb m st)"
proof -
  obtain e ms1 where a: "handle_annotation (st_ms st) m (st_first st) = (e, ms1)" by fastforce
  have c1: "calm st ms1" using calm_quiet [OF calm_self quiet_handle_annotation [OF a]] .
  obtain r2 ms2 where s: "print_sep ms1 (st_first st) = (r2, ms2)" by fastforce
  have c2: "calm st ms2" using calm_quiet [OF c1 quiet_print_sep [OF s]] .
  have fin: "stepped st 1 (top_offset env ctx bb m st')" if "ready m n st'" "later st st'" for st'
    using that lvl bb by (intro stepped_from [OF that(2) top_offset_stepped]) (simp_all add: ready_def)
  show ?thesis
  proof (cases "cstr (m_desc m) = []")
    case True
    then show ?thesis
      using a calm_later [OF c1] fin calm_ready [OF c1 rd] by (simp add: top_matched_def Let_def)
  next
    case False
    obtain r4 ms4 where q: "mprint env ms2 m = Some (r4, ms4)" "calm st ms4" using calm_mprint [OF c2 rd False] by blast
    note k1 = calm_keeps [OF c1] and k2 = calm_keeps [OF c2] and k4 = calm_keeps [OF q(2)]
    show ?thesis
      using False a s q(1) k1 k2 k4 fin [unfolded later_def] calm_ready [OF c1 rd] calm_ready [OF q(2) rd]
      by (simp add: top_matched_def Let_def later_def annotated_def)
  qed
qed

text \<open>What the loop over the continuations leaves: the entries still to come, from a top-level one unless it
  was left early.\<close>

definition looped :: "mstate \<Rightarrow> loop_result option \<Rightarrow> bool" where
  "looped st res \<longleftrightarrow>
     (case res of None \<Rightarrow> False
      | Some (LReturn r st') \<Rightarrow> later st st'
      | Some (LFlush r bb st') \<Rightarrow> later st st' \<and> length bb < 2 ^ 31 \<and> list_all wf_magic r
      | Some (LDone r bb st') \<Rightarrow> later st st' \<and> length bb < 2 ^ 31 \<and> wf_list r)"

lemma looped_simps [simp]:
  "looped st (Some (LReturn e st')) = later st st'"
  "looped st (Some (LFlush r bb st')) = (later st st' \<and> length bb < 2 ^ 31 \<and> list_all wf_magic r)"
  "looped st (Some (LDone r bb st')) = (later st st' \<and> length bb < 2 ^ 31 \<and> wf_list r)"
  by (simp_all add: looped_def)

lemma looped_from: "later st st1 \<Longrightarrow> looped st1 res \<Longrightarrow> looped st res"
  by (auto simp: looped_def intro: later_trans split: option.splits loop_result.splits)

lemma skip_sub_wf: "list_all wf_magic r \<Longrightarrow> wf_list (skip_sub r)"
  using hd_dropWhile [of "\<lambda>m. m_cont_level m \<noteq> 0" r] by (auto simp: wf_list_def list_all_iff dest!: set_dropWhileD)

text \<open>The contract of the recursive call of \<^verbatim>\<open>match\<close>: it ends when the depth allows it.\<close>

locale safe_matcher =
  fixes rec :: matcher and N :: nat
  assumes runs: "wf_list ml \<Longrightarrow> buf_ok (c_b ctx) \<Longrightarrow> st_ok st \<Longrightarrow> depth_left st < N \<Longrightarrow> ends st (rec ml ctx st)"
begin

lemma indir_loop_ends:
  "list_all wf_list mls \<Longrightarrow> buf_ok (c_b ctx) \<Longrightarrow> st_ok st \<Longrightarrow> depth_left st < N \<Longrightarrow> ends st (indir_loop rec ctx mls rv st)"
proof (induction mls arbitrary: rv st)
  case (Cons ml mls)
  then have "ends (st\<lparr>st_ret := 0, st_found := False\<rparr>) (rec ml ctx (st\<lparr>st_ret := 0, st_found := False\<rparr>))"
    by (intro runs) simp_all
  then obtain r st1 where r: "rec ml ctx (st\<lparr>st_ret := 0, st_found := False\<rparr>) = Some (r, st1)" "later st st1"
    by (auto simp: ends_def)
  let ?st = "st1\<lparr>st_ret := st_ret st, st_found := st_found st\<rparr>"
  have l: "later st ?st" using r(2) by simp
  have "ends ?st (indir_loop rec ctx mls r ?st)"
    using Cons.prems st_ok_later [OF _ l] depth_later [OF l] by (intro Cons.IH) simp_all
  then show ?case using r l by (auto simp: Let_def ends_def intro: later_trans)
qed simp

lemma mget_indirect_ends:
  assumes st: "st_ok st" "depth_left st \<le> N" "st_ic st < ms_indir_max (st_ms st)" and b: "buf_ok (c_b ctx)" and s: "length s < 2 ^ 31"
  shows "ends st (mget_indirect rec env ctx s m offset st)"
proof -
  let ?off = "if has (str_flags m) INDIRECT_RELATIVE then offset + word_of_nat (c_o ctx) else offset"
  let ?ctx = "\<lparr>c_b = (c_b ctx)\<lparr>b_fbuf := drop (unat ?off) s\<rparr>, c_o = 0, c_mode = BINTEST, c_text = c_text ctx, c_flip = False\<rparr>"
  have b': "buf_ok (c_b ?ctx)" using b s by (auto simp: buf_ok_def buffer_fill_def Let_def split: option.splits if_splits)
  show ?thesis
  proof (cases "file_push_buffer (st_ms st)")
    case None
    then show ?thesis by (simp add: mget_indirect_def Let_def)
  next
    case (Some p)
    obtain pb ms1 where p: "file_push_buffer (st_ms st) = Some (pb, ms1)" using Some by (cases p) auto
    note k1 = push_keeps [OF p]
    let ?st1 = "st\<lparr>st_ms := ms1, st_ic := Suc (st_ic st)\<rparr>"
    have l1: "later st ?st1" using k1 by (simp add: later_def)
    have d1: "depth_left ?st1 < N" using k1 st(2,3) by (simp add: depth_left_def keeps_def)
    have "ends ?st1 (indir_loop rec ?ctx (ms_mlist0 ms1) (-1) ?st1)"
      using st_ok_later [OF st(1) l1] d1 b' by (intro indir_loop_ends) (simp_all add: st_ok_def wf_db_def)
    then obtain rv st2 where r: "indir_loop rec ?ctx (ms_mlist0 ms1) (-1) ?st1 = Some (rv, st2)" "later ?st1 st2"
      by (auto simp: ends_def)
    obtain rbuf ms3 where pop: "file_pop_buffer (st_ms st2) pb = (rbuf, ms3)" by (cases "file_pop_buffer (st_ms st2) pb")
    have k3: "keeps (st_ms st) ms3" using pop_keeps [OF p _ pop] r(2) st(1) by (simp add: later_def st_ok_def)
    have c: "st_ic st \<le> st_ic st2 \<and> st_nc st2 = st_nc st" using r(2) by (simp add: later_def)
    obtain r1 ms4 where pr: "(if has (ms_flags ms3) MAGIC_NODESC then (0, ms3)
        else print_checked env ms3 (cstr (m_desc m)) ''%u'' (Fint (uint ?off))) = (r1, ms4)" by fastforce
    have "keeps ms3 ms4" using pr by (auto split: if_splits dest!: quiet_print_checked quiet_keeps)
    with k3 have k4: "keeps (st_ms st) ms4" by (rule keeps_trans)
    obtain r2 ms5 where pr2: "(case rbuf of None \<Rightarrow> (0, ms4) | Some t \<Rightarrow> file_printf ms4 t) = (r2, ms5)" by fastforce
    have "keeps ms4 ms5" using pr2 by (auto split: option.splits dest!: quiet_printf quiet_keeps)
    with k4 have k5: "keeps (st_ms st) ms5" by (rule keeps_trans)
    show ?thesis
      using p r(1) pop pr pr2 k3 k4 k5 c by (simp add: mget_indirect_def Let_def later_def)
  qed
qed

lemma mget_use_ends:
  assumes st: "st_ok st" "depth_left st \<le> N" "st_nc st < ms_name_max (st_ms st)" and b: "buf_ok (c_b ctx)"
  shows "ends st (mget_use rec ctx m offset st)"
proof -
  let ?v = "cstr (m_value m)"
  let ?name = "if ?v \<noteq> [] \<and> hd ?v = 0x5e then tl ?v else ?v"
  show ?thesis
  proof (cases "file_magicfind ?name (ms_mlist1 (st_ms st))")
    case None
    then show ?thesis using quiet_keeps [OF quiet_error0] by (simp add: mget_use_def Let_def later_def)
  next
    case (Some ml)
    have ml: "wf_list ml" using magicfind_wf [OF Some] st(1) by (simp add: st_ok_def wf_db_def)
    let ?ctx = "ctx\<lparr>c_o := unat offset + c_o ctx, c_flip := (if ?v \<noteq> [] \<and> hd ?v = 0x5e then \<not> c_flip ctx else c_flip ctx)\<rparr>"
    let ?st1 = "st\<lparr>st_needsep := (if has (m_flag m) NOSPACE then False else st_needsep st), st_found := False, st_nc := Suc (st_nc st)\<rparr>"
    have "ends ?st1 (rec ml ?ctx ?st1)" using ml b st by (intro runs) (simp_all add: depth_left_def)
    then obtain rv st2 where r: "rec ml ?ctx ?st1 = Some (rv, st2)" "later ?st1 st2" by (auto simp: ends_def)
    have "keeps (st_ms st) ((st_ms st2)\<lparr>ms_value := put_q q (ms_value (st_ms st2)), ms_li := ms_li (st_ms st),
        ms_offset := o1, ms_eoffset := o2\<rparr>)" for q o1 o2
      using r(2) st(1) by (simp add: later_def keeps_def ms_inv_def st_ok_def out_ok_def split: option.splits)
    then show ?thesis using Some r by (simp add: mget_use_def Let_def later_def)
  qed
qed

lemma mget_value_got:
  assumes st: "st_ok st" "depth_left st \<le> N" "st_ic st < ms_indir_max (st_ms st)" "st_nc st < ms_name_max (st_ms st)"
    and b: "buf_ok (c_b ctx)" and s: "length s < 2 ^ 31" and m: "wf_magic m" "fetched m (st_ms st)"
  shows "got m st (mget_value rec env ctx s m offset st)"
  unfolding mget_value_def Let_def
proof (intro got_if)
  show "got m st (Some (0, st))" using missing_ready [OF m(1)] m(2) by (simp add: got_def)
  show "got m st (mget_indirect rec env ctx s m offset st)" if "m_type m = FILE_INDIRECT"
    using got_plain [OF mget_indirect_ends [OF st(1,2,3) b s]] that by simp
  show "got m st (mget_use rec ctx m offset st)" if "m_type m = FILE_USE"
    using got_plain [OF mget_use_ends [OF st(1,2,4) b]] that by simp
  show "got m st (case mconvert (e_fop env) (e_dop env) (st_ms st) m (c_flip ctx) of (ok, ms) \<Rightarrow>
       Some (if ok then 1 else 0, st\<lparr>st_ms := ms\<rparr>))"
    using st(1) m by (intro mconvert_got) (simp_all add: st_ok_def)
qed (use got_plain [OF name_ends, of m st "cstr (m_desc m)"] in simp_all)

lemma mget_got:
  assumes st: "st_ok st" "depth_left st \<le> N" and b: "buf_ok (c_b ctx)" and s: "length s < 2 ^ 31" and m: "wf_magic m"
    and lvl: "cont_level \<le> length (ms_li (st_ms st))"
  shows "got m st (mget rec env ctx s cont_level m st)"
proof (cases "ms_indir_max (st_ms st) \<le> st_ic st \<or> ms_name_max (st_ms st) \<le> st_nc st")
  case True
  then show ?thesis
    using got_error [of st] quiet_keeps [OF quiet_error0] by (auto simp: mget_def Let_def)
next
  case False
  let ?ms = "st_ms st" and ?indir = "has (m_flag m) INDIR"
  have n: "unat (word_of_nat (length s) :: u32) = length s" using s by (intro unat_word_of_nat) simp
  define ms1 where "ms1 = mcopy ?ms (m_type m) ?indir s (ms_offset ?ms + word_of_nat (c_o ctx)) (length s) m"
  have inv: "ms_inv ?ms" using st(1) by (simp add: st_ok_def)
  have k1: "keeps ?ms ms1" unfolding ms1_def using inv by (intro mcopy_keeps) simp_all
  have inv1: "ms_inv ms1" using k1 inv by (simp add: keeps_def)
  let ?ms2 = "\<lambda>ofs. (mcopy ms1 (m_type m) False s ofs (length s) m)\<lparr>ms_offset := ofs\<rparr>"
  have k2: "keeps ?ms (?ms2 ofs)" for ofs
    by (rule keeps_trans [OF k1], rule keeps_trans [OF mcopy_keeps [OF order_refl inv1]], rule keeps_upd(1))
  have f2: "fetched m (?ms2 ofs)" for ofs
    unfolding fetched_offset by (rule mcopy_fetched [OF order_refl s])
  have f1: "fetched m ms1 \<or> ?indir"
    using mcopy_fetched [OF order_refl s, of m ?ms "ms_offset ?ms + word_of_nat (c_o ctx)"]
    by (cases ?indir) (simp_all only: ms1_def simp_thms)
  have e: "got m st (Some (0, st\<lparr>st_ms := ms1\<rparr>))" using k1 missing_ready [OF m _ f1] by (simp add: got_def later_ms)
  have go: "got m st (mget_value rec env ctx s m ofs (st\<lparr>st_ms := ms\<rparr>))" if k: "keeps ?ms ms" and f: "fetched m ms" for ms ofs
  proof -
    have l: "later st (st\<lparr>st_ms := ms\<rparr>)" using k by (rule later_ms)
    show ?thesis
      using False k f depth_later [OF l] st(2)
      by (intro got_from [OF l] mget_value_got st_ok_later [OF st(1) l] b s m) (simp_all add: keeps_def)
  qed
  have eq: "mget rec env ctx s cont_level m st =
      (if \<not> ?indir then mget_value rec env ctx s m (ms_offset ?ms) (st\<lparr>st_ms := ms1\<rparr>)
       else case mget_indir ms1 m (c_flip ctx) s (ms_offset ?ms) cont_level of
           None \<Rightarrow> None
         | Some None \<Rightarrow> Some (0, st\<lparr>st_ms := ms1\<rparr>)
         | Some (Some ofs) \<Rightarrow> mget_value rec env ctx s m ofs (st\<lparr>st_ms := ?ms2 ofs\<rparr>))"
    using False unfolding mget_def Let_def ms1_def n by simp
  show ?thesis
  proof (cases ?indir)
    case True
    then have "mget_indir ms1 m (c_flip ctx) s (ms_offset ?ms) cont_level \<noteq> None"
      using k1 lvl by (intro mget_indir_safe [OF m]) (simp_all add: keeps_def)
    then show ?thesis unfolding eq using True go [OF k2 f2] e by (auto split: option.split)
  next
    case False
    then show ?thesis unfolding eq using go [OF k1] f1 by simp
  qed
qed

lemma cont_checked_stepped:
  assumes rd: "r \<noteq> 0 \<and> r \<noteq> -1 \<Longrightarrow> print_ready m (st_ms st)" and li: "lvl < length (ms_li (st_ms st))"
    and lvl: "unat (m_cont_level m) = lvl" and bb: "length bb < 2 ^ 31"
  shows "stepped st lvl (cont_checked env ctx bb lvl m r st)"
proof -
  let ?st = "\<lambda>f. st\<lparr>st_ms := set_li lvl f (st_ms st)\<rparr>"
  have l: "later st (?st f)" for f by (intro later_ms set_li_keeps)
  have m: "stepped st lvl (cont_matched env ctx bb lvl m (?st f))" if "r \<noteq> 0 \<and> r \<noteq> -1" for f
    using rd [OF that] li lvl bb
    by (intro stepped_from [OF l [of f]] cont_matched_stepped) (auto simp: ready_def intro: print_ready_same)
  show ?thesis
    unfolding cont_checked_def Let_def by (intro stepped_if) (use m l li bb in simp_all)
qed

lemma entry_checked:
  assumes st: "st_ok st" and m: "wf_magic m" and g: "fetched m (st_ms st)"
  shows "\<exists>r ms. magiccheck env (st_ms st) m = Some (r, ms) \<and> keeps (st_ms st) ms \<and> (r \<noteq> 0 \<and> r \<noteq> -1 \<longrightarrow> print_ready m ms)"
  using magiccheck_safe [of "st_ms st" m env] assms by (simp add: checked_def st_ok_def)

lemma indirect_found_simps [simp]: "st_ms (indirect_found m st) = st_ms st" "later st' (indirect_found m st) = later st' st"
    "st_ok (indirect_found m st) = st_ok st"
  by (simp_all add: indirect_found_def)

lemma found_later: "later st st' \<Longrightarrow> keeps (st_ms st') ms \<Longrightarrow> later st ((indirect_found m st')\<lparr>st_ms := ms\<rparr>)"
  using keeps_trans [of "st_ms st" "st_ms st'" ms] by (auto simp: later_def indirect_found_def)

lemma cont_entry_stepped:
  assumes st: "st_ok st" "depth_left st \<le> N" and b: "buf_ok (c_b ctx)" and bb: "length bb < 2 ^ 31" and m: "wf_magic m"
    and lvl: "unat (m_cont_level m) = lvl" "lvl < length (ms_li (st_ms st))"
  shows "stepped st lvl (cont_entry rec env ctx bb lvl m st)"
proof -
  obtain r1 bb1 ms1 where o: "msetoffset (st_ms st) m bb (c_b ctx) (c_o ctx) lvl = (r1, bb1, ms1)" by (metis prod_cases3)
  note k1 = msetoffset_keeps [OF o b bb]
  have li1: "lvl < length (ms_li ms1)" using k1(1) lvl(2) by (simp add: keeps_def)
  let ?ms2 = "if has (m_flag m) OFFADD then ms1\<lparr>ms_offset := ms_offset ms1 + li_off (ms_li ms1 ! (lvl - 1))\<rparr> else ms1"
  let ?st2 = "st\<lparr>st_ms := ?ms2\<rparr>"
  have "keeps (st_ms st) ?ms2" using keeps_trans [OF k1(1) keeps_upd(1)] k1(1) by simp
  then have l2: "later st ?st2" by (rule later_ms)
  have li2: "lvl < length (ms_li ?ms2)" using li1 by simp
  have "got m ?st2 (mget rec env ctx bb1 lvl m ?st2)"
    using li2 depth_later [OF l2] st(2) by (intro mget_got st_ok_later [OF st(1) l2] b k1(2) m) simp_all
  then obtain r3 st3 where g: "mget rec env ctx bb1 lvl m ?st2 = Some (r3, st3)" "later ?st2 st3"
      "r3 \<noteq> 0 \<and> r3 \<noteq> -1 \<longrightarrow> fetched m (st_ms st3)" "r3 = 0 \<and> m_reln m = 0x21 \<longrightarrow> print_ready m (st_ms st3)"
    by (auto simp: got_def)
  have l3: "later st st3" using later_trans [OF l2 g(2)] .
  have li3: "lvl < length (ms_li (st_ms st3))" using g(2) li2 by (simp add: later_def keeps_def)
  have c3: "stepped st lvl (cont_checked env ctx bb1 lvl m 1 st3)" if "r3 = 0" "m_reln m = 0x21"
    using g(4) that li3 lvl(1) k1(2) by (intro stepped_from [OF l3] cont_checked_stepped) simp_all
  have c4: "\<exists>r ms. magiccheck env (st_ms st3) m = Some (r, ms) \<and>
      stepped st lvl (cont_checked env ctx bb1 lvl m r ((indirect_found m st3)\<lparr>st_ms := ms\<rparr>))" if nz: "r3 \<noteq> 0 \<and> r3 \<noteq> -1"
  proof -
    obtain r ms where c: "magiccheck env (st_ms st3) m = Some (r, ms)" "keeps (st_ms st3) ms" "r \<noteq> 0 \<and> r \<noteq> -1 \<longrightarrow> print_ready m ms"
      using entry_checked [OF st_ok_later [OF st(1) l3] m] g(3) nz by blast
    let ?st4 = "(indirect_found m st3)\<lparr>st_ms := ms\<rparr>"
    have l4: "later st ?st4" by (rule found_later [OF l3 c(2)])
    have "stepped st lvl (cont_checked env ctx bb1 lvl m r ?st4)"
      using c li3 lvl(1) k1(2) by (intro stepped_from [OF l4] cont_checked_stepped) (simp_all add: keeps_def)
    with c(1) show ?thesis by blast
  qed
  have l1: "later st (st\<lparr>st_ms := ms1\<rparr>)" using k1(1) by (rule later_ms)
  have eq: "cont_entry rec env ctx bb lvl m st =
      (if r1 = -1 then Some (if buffer_fill (c_b ctx) = None then Go lvl bb1 (st\<lparr>st_ms := ms1\<rparr>) else Flush bb1 (st\<lparr>st_ms := ms1\<rparr>))
       else if has (m_flag m) OFFADD \<and> lvl = 0 then Some (Return 0 (st\<lparr>st_ms := ms1\<rparr>))
       else if (m_cond m = COND_ELSE \<or> m_cond m = COND_ELIF) \<and> li_last_match (ms_li ?ms2 ! lvl) then Some (Go lvl bb1 ?st2)
       else if r3 = -1 then Some (Return (-1) st3)
       else if r3 = 0 then (if m_reln m \<noteq> 0x21 then Some (Go lvl bb1 st3) else cont_checked env ctx bb1 lvl m 1 st3)
       else case magiccheck env (st_ms st3) m of
              None \<Rightarrow> None
            | Some (r, ms) \<Rightarrow> cont_checked env ctx bb1 lvl m r ((indirect_found m st3)\<lparr>st_ms := ms\<rparr>))"
    unfolding cont_entry_def Let_def o prod.case g(1) option.case indirect_found_simps using li1 by simp
  show ?thesis
    unfolding eq by (intro stepped_if) (use c3 c4 l1 l2 l3 li1 li2 li3 k1(2) in auto)
qed

lemma top_entry_stepped:
  assumes st: "st_ok st" "depth_left st \<le> N" and b: "buf_ok (c_b ctx)" and bb: "length bb < 2 ^ 31" and m: "wf_magic m"
    and lvl: "m_cont_level m = 0"
  shows "stepped st 1 (top_entry rec env ctx bb m st)"
proof -
  obtain r1 bb1 ms1 where o: "msetoffset (st_ms st) m bb (c_b ctx) (c_o ctx) 0 = (r1, bb1, ms1)" by (metis prod_cases3)
  note k1 = msetoffset_keeps [OF o b bb]
  let ?st2 = "st\<lparr>st_ms := ms1\<lparr>ms_line := unat (m_lineno m)\<rparr>\<rparr>"
  have l1: "later st (st\<lparr>st_ms := ms1\<rparr>)" using k1(1) by (rule later_ms)
  have l2: "later st ?st2" using keeps_trans [OF k1(1) keeps_upd(3)] by (rule later_ms)
  have "got m ?st2 (mget rec env ctx bb1 0 m ?st2)"
    using depth_later [OF l2] st(2) by (intro mget_got st_ok_later [OF st(1) l2] b k1(2) m) simp_all
  then obtain r3 st3 where g: "mget rec env ctx bb1 0 m ?st2 = Some (r3, st3)" "later ?st2 st3"
      "r3 \<noteq> 0 \<and> r3 \<noteq> -1 \<longrightarrow> fetched m (st_ms st3)" "r3 = 0 \<and> m_reln m = 0x21 \<longrightarrow> print_ready m (st_ms st3)"
    by (auto simp: got_def)
  have l3: "later st st3" using later_trans [OF l2 g(2)] .
  have t: "stepped st 1 (top_matched env ctx bb1 m st')" if "print_ready m (st_ms st')" "later st st'" for st'
    using that(1) lvl k1(2) by (intro stepped_from [OF that(2)] top_matched_stepped [of m 0]) (simp_all add: ready_def)
  have c4: "\<exists>r ms. magiccheck env (st_ms st3) m = Some (r, ms) \<and> later st ((indirect_found m st3)\<lparr>st_ms := ms\<rparr>) \<and>
      (r \<noteq> 0 \<and> r \<noteq> -1 \<longrightarrow> print_ready m ms)" if nz: "r3 \<noteq> 0 \<and> r3 \<noteq> -1"
  proof -
    obtain r ms where c: "magiccheck env (st_ms st3) m = Some (r, ms)" "keeps (st_ms st3) ms" "r \<noteq> 0 \<and> r \<noteq> -1 \<longrightarrow> print_ready m ms"
      using entry_checked [OF st_ok_later [OF st(1) l3] m] g(3) nz by blast
    have "later st ((indirect_found m st3)\<lparr>st_ms := ms\<rparr>)"
      by (rule found_later [OF l3 c(2)])
    with c show ?thesis by blast
  qed
  obtain eb where nb: "buffer_fill (c_b ctx) = Some eb" using b by (auto simp: buf_ok_def)
  have eq: "top_entry rec env ctx bb m st =
      (if skip_entry m ctx then Some (Flush bb st)
       else if r1 = -1 then Some (Flush bb1 (st\<lparr>st_ms := ms1\<rparr>))
       else if r3 = -1 then Some (Return (-1) st3)
       else if r3 = 0 then (if m_reln m \<noteq> 0x21 then Some (Flush bb1 st3) else top_matched env ctx bb1 m st3)
       else case magiccheck env (st_ms st3) m of
              None \<Rightarrow> None
            | Some (r, ms) \<Rightarrow>
                if r = -1 then Some (Return (-1) ((indirect_found m st3)\<lparr>st_ms := ms\<rparr>))
                else if r = 0 then Some (Flush bb1 ((indirect_found m st3)\<lparr>st_ms := ms\<rparr>))
                else top_matched env ctx bb1 m ((indirect_found m st3)\<lparr>st_ms := ms\<rparr>))"
    unfolding top_entry_def Let_def o prod.case g(1) option.case indirect_found_simps using nb by simp
  show ?thesis
    unfolding eq by (intro stepped_if) (use t c4 l1 l3 g(4) bb k1(2) in auto)
qed

text \<open>The two loops.\<close>

lemma cont_loop_looped:
  assumes b: "buf_ok (c_b ctx)"
  shows "list_all wf_magic r \<Longrightarrow> st_ok st \<Longrightarrow> depth_left st \<le> N \<Longrightarrow> length bb < 2 ^ 31 \<Longrightarrow> cl < length (ms_li (st_ms st)) \<Longrightarrow>
    looped st (cont_loop rec env ctx r cl bb st)"
proof (induction r arbitrary: cl bb st)
  case Nil
  then show ?case by (simp add: cont_loop.simps wf_list_def)
next
  case (Cons m r)
  let ?lvl = "unat (m_cont_level m)" and ?st = "st\<lparr>st_ms := (st_ms st)\<lparr>ms_line := unat (m_lineno m)\<rparr>\<rparr>"
  have l: "later st ?st" by (intro later_ms keeps_upd)
  note ok = st_ok_later [OF Cons.prems(2) l] and d = order_trans [OF depth_later [OF l] Cons.prems(3)]
  consider "?lvl = 0" | "?lvl \<noteq> 0" "cl < ?lvl" | "?lvl \<noteq> 0" "?lvl \<le> cl" by linarith
  then show ?case
  proof cases
    case 1
    then show ?thesis using Cons.prems by (simp add: cont_loop.simps wf_list_def unat_eq_zero)
  next
    case 2
    have "looped ?st (cont_loop rec env ctx r cl bb ?st)" using Cons.prems ok d by (intro Cons.IH) simp_all
    from looped_from [OF l this] 2 show ?thesis by (simp add: cont_loop.simps)
  next
    case 3
    have "stepped ?st ?lvl (cont_entry rec env ctx bb ?lvl m ?st)"
      using 3 Cons.prems ok d by (intro cont_entry_stepped b) simp_all
    from stepped_from [OF l this] have s: "stepped st ?lvl (cont_entry rec env ctx bb ?lvl m ?st)" .
    then obtain res where res: "cont_entry rec env ctx bb ?lvl m ?st = Some res" by (auto simp: stepped_def split: option.splits)
    show ?thesis
    proof (cases res)
      case (Go cl' bb' st')
      with s res have g: "later st st'" "length bb' < 2 ^ 31" "cl' < length (ms_li (st_ms st'))" by simp_all
      have "looped st' (cont_loop rec env ctx r cl' bb' st')"
        using Cons.prems g depth_later [OF g(1)] by (intro Cons.IH st_ok_later [OF Cons.prems(2) g(1)]) simp_all
      from looped_from [OF g(1) this] 3 res Go show ?thesis by (simp add: cont_loop.simps)
    qed (use 3 s res Cons.prems in \<open>simp_all add: cont_loop.simps\<close>)
  qed
qed

lemma match_loop_ends:
  assumes b: "buf_ok (c_b ctx)"
  shows "wf_list ml \<Longrightarrow> st_ok st \<Longrightarrow> depth_left st \<le> N \<Longrightarrow> length bb < 2 ^ 31 \<Longrightarrow> ends st (match_loop rec env ctx ml bb st)"
proof (induction "length ml" arbitrary: ml bb st rule: less_induct)
  case less
  show ?case
  proof (cases ml)
    case Nil
    then show ?thesis by (simp add: match_loop.simps)
  next
    case (Cons m r)
    have wf: "wf_magic m" "list_all wf_magic r" "m_cont_level m = 0" using less.prems(1) Cons by (simp_all add: wf_list_def)
    have IH: "ends st (match_loop rec env ctx ml' bb' st'')"
      if "length ml' \<le> length r" "wf_list ml'" "later st st'" "length bb' < 2 ^ 31" "st_ms st'' = st_ms st'" "st_ic st'' = st_ic st'"
        "st_nc st'' = st_nc st'" for ml' bb' st' st''
    proof -
      have l: "later st st''" using that by (simp add: later_def)
      have "ends st'' (match_loop rec env ctx ml' bb' st'')"
        using that less.prems(3) depth_later [OF l] Cons by (intro less.hyps st_ok_later [OF less.prems(2) l]) simp_all
      with l show ?thesis by (auto simp: ends_def intro: later_trans)
    qed
    have s: "stepped st 1 (top_entry rec env ctx bb m st)" using less.prems wf by (intro top_entry_stepped b) simp_all
    then obtain res where res: "top_entry rec env ctx bb m st = Some res" by (auto simp: stepped_def split: option.splits)
    show ?thesis
    proof (cases res)
      case (Return e st')
      then show ?thesis using s res Cons by (simp add: match_loop.simps)
    next
      case (Flush bb' st')
      then show ?thesis
        using s res Cons IH [of "skip_sub r" st' bb' st'] skip_sub_wf [OF wf(2)] by (simp add: match_loop.simps length_dropWhile_le)
    next
      case (Go cl bb1 st1)
      then have g: "later st st1" "length bb1 < 2 ^ 31" "cl < length (ms_li (st_ms st1))" "cl \<noteq> 0" using s res by simp_all
      have "looped st1 (cont_loop rec env ctx r cl bb1 st1)"
        using g wf(2) less.prems(3) depth_later [OF g(1)] by (intro cont_loop_looped b st_ok_later [OF less.prems(2) g(1)]) simp_all
      from looped_from [OF g(1) this] have lp: "looped st (cont_loop rec env ctx r cl bb1 st1)" .
      then obtain lr where lr: "cont_loop rec env ctx r cl bb1 st1 = Some lr" by (auto simp: looped_def split: option.splits)
      show ?thesis
      proof (cases lr)
        case (LReturn e st')
        then show ?thesis using lp lr res Go g(4) Cons by (simp add: match_loop.simps)
      next
        case (LFlush r' bb' st')
        then have "length (skip_sub r') \<le> length r"
          using cont_loop_length(1) lr order_trans [OF length_dropWhile_le] by blast
        then show ?thesis
          using LFlush lp lr res Go g(4) Cons IH [of "skip_sub r'" st' bb' st'] skip_sub_wf [of r'] by (simp add: match_loop.simps)
      next
        case (LDone r' bb' st')
        then have "length r' \<le> length r" using cont_loop_length(2) lr by blast
        then show ?thesis
          using LDone lp lr res Go g(4) Cons IH [of r' st' bb'] by (simp add: match_loop.simps Let_def)
      qed
    qed
  qed
qed

end

text \<open>The recursion tied: each level of fuel allows one more nested call.\<close>

lemma match_fuel_safe: "safe_matcher (match_fuel n env) n"
proof (induction n)
  case 0
  then show ?case by unfold_locales simp
next
  case (Suc n)
  show ?case
  proof
    fix ml and ctx :: mctx and st
    assume a: "wf_list ml" "buf_ok (c_b ctx)" "st_ok st" "depth_left st < Suc n"
    let ?st = "st\<lparr>st_ms := snd (file_check_mem (e_fresh env) (st_ms st) 0)\<rparr>"
    have l: "later st ?st" by (intro later_ms check_mem_keeps)
    have "ends ?st (match_loop (match_fuel n env) env ctx ml [] ?st)"
      using a depth_later [OF l] by (intro safe_matcher.match_loop_ends [OF Suc.IH] st_ok_later [OF a(3) l]) simp_all
    with l show "ends st (match_fuel (Suc n) env ml ctx st)" by (auto simp: ends_def intro: later_trans)
  qed
qed

interpretation matcher: safe_matcher "match_fuel n env" n for n env
  by (rule match_fuel_safe)

lemma softmagic_loop_ends:
  assumes "list_all wf_list mls" "buf_ok (c_b ctx)" "st_ok st" "depth_left st < n"
  shows "ends st (softmagic_loop (match_fuel n env) ctx mls rv st)"
  using assms
proof (induction mls arbitrary: rv st)
  case (Cons ml mls)
  then have "ends (st\<lparr>st_ret := 0, st_found := False\<rparr>) (match_fuel n env ml ctx (st\<lparr>st_ret := 0, st_found := False\<rparr>))"
    by (intro matcher.runs) simp_all
  then obtain r st1 where r: "match_fuel n env ml ctx (st\<lparr>st_ret := 0, st_found := False\<rparr>) = Some (r, st1)" "later st st1"
    by (auto simp: ends_def)
  have "ends st (softmagic_loop (match_fuel n env) ctx mls rv' st1)" for rv'
    using Cons.IH [OF _ _ st_ok_later [OF Cons.prems(3) r(2)]] Cons.prems depth_later [OF r(2)] r(2)
    by (fastforce simp: ends_def intro: later_trans)
  then show ?case using r by simp
qed simp

text \<open>Every run of the database: it ends, and keeps the query.\<close>

definition query_ok :: "nat \<Rightarrow> magic_set \<Rightarrow> buffer \<Rightarrow> nat \<Rightarrow> nat \<Rightarrow> bool" where
  "query_ok fuel ms b ic nc \<longleftrightarrow>
     ms_inv ms \<and> wf_db ms \<and> buf_ok b \<and> (ms_indir_max ms - ic) + (ms_name_max ms - nc) < fuel"

lemma file_softmagic_runs:
  assumes "query_ok fuel ms b ic nc"
  shows "\<exists>r st. file_softmagic fuel env ms b ic nc mode tx = Some (r, st) \<and> keeps ms (st_ms st) \<and> ic \<le> st_ic st \<and> st_nc st = nc"
proof -
  let ?st = "\<lparr>st_ms = ms, st_ic = ic, st_nc = nc, st_printed = False, st_needsep = False, st_first = True, st_ret = 0, st_found = False\<rparr>"
  have "ends ?st (file_softmagic fuel env ms b ic nc mode tx)"
    unfolding file_softmagic_def using assms
    by (intro softmagic_loop_ends) (simp_all add: query_ok_def wf_db_def st_ok_def depth_left_def)
  then show ?thesis by (auto simp: ends_def later_def)
qed

subsection \<open>Enough fuel is enough\<close>

text \<open>One partial answer is below another that gives at least the same.\<close>

definition below :: "'a option \<Rightarrow> 'a option \<Rightarrow> bool" where
  "below a b \<longleftrightarrow> (\<forall>x. a = Some x \<longrightarrow> b = Some x)"

lemma belowD: "below a b \<Longrightarrow> a = Some x \<Longrightarrow> b = Some x"
  by (simp add: below_def)

lemma below_refl: "below a a"
  by (simp add: below_def)

lemma below_if: "below a a' \<Longrightarrow> below b b' \<Longrightarrow> below (if c then a else b) (if c then a' else b')"
  by simp

lemma below_pair: "(\<And>a b. below (f a b) (g a b)) \<Longrightarrow> below (case x of (a, b) \<Rightarrow> f a b) (case x of (a, b) \<Rightarrow> g a b)"
  by (simp split: prod.split)

lemma below_bind: "below x y \<Longrightarrow> (\<And>a. below (f a) (g a)) \<Longrightarrow>
    below (case x of None \<Rightarrow> None | Some a \<Rightarrow> f a) (case y of None \<Rightarrow> None | Some a \<Rightarrow> g a)"
  by (cases x) (auto simp: below_def)

lemma below_option: "below a b \<Longrightarrow> (\<And>v. below (f v) (g v)) \<Longrightarrow>
    below (case x of None \<Rightarrow> a | Some v \<Rightarrow> f v) (case x of None \<Rightarrow> b | Some v \<Rightarrow> g v)"
  by (cases x) auto

lemmas below_cases = below_if below_pair below_option

text \<open>Of two recursive calls, the second answers whenever the first does, and the same.\<close>

locale extended_matcher =
  fixes rec1 rec2 :: matcher
  assumes more: "below (rec1 ml ctx st) (rec2 ml ctx st)"
begin

lemma indir_loop_more: "below (indir_loop rec1 ctx mls rv st) (indir_loop rec2 ctx mls rv st)"
  by (induction mls arbitrary: rv st) (simp_all only: indir_loop.simps Let_def, intro below_refl, intro below_bind more below_cases below_refl)

lemma mget_value_more: "below (mget_value rec1 env ctx s m ofs st) (mget_value rec2 env ctx s m ofs st)"
  unfolding mget_value_def mget_indirect_def mget_use_def Let_def
  by (intro below_if below_pair; (intro below_option below_pair below_bind more indir_loop_more below_refl)?)

lemma mget_more: "below (mget rec1 env ctx s lvl m st) (mget rec2 env ctx s lvl m st)"
  unfolding mget_def Let_def by (intro below_cases mget_value_more below_refl)

lemma cont_entry_more: "below (cont_entry rec1 env ctx bb lvl m st) (cont_entry rec2 env ctx bb lvl m st)"
  unfolding cont_entry_def Let_def by (intro below_if below_pair below_bind mget_more; rule below_refl)

lemma top_entry_more: "below (top_entry rec1 env ctx bb m st) (top_entry rec2 env ctx bb m st)"
  unfolding top_entry_def Let_def by (intro below_if below_pair below_bind mget_more; rule below_refl)

lemma cont_loop_more: "cont_loop rec1 env ctx r cl bb st = Some x \<Longrightarrow> cont_loop rec2 env ctx r cl bb st = Some x"
proof (induction r arbitrary: cl bb st)
  case (Cons m r)
  let ?st = "st\<lparr>st_ms := (st_ms st)\<lparr>ms_line := unat (m_lineno m)\<rparr>\<rparr>"
  show ?case
  proof (cases "cont_entry rec1 env ctx bb (unat (m_cont_level m)) m ?st")
    case None
    then show ?thesis using Cons by (auto simp: cont_loop.simps(2) Let_def split: if_splits)
  next
    case (Some s)
    then show ?thesis using Cons belowD [OF cont_entry_more Some] by (cases s) (auto simp: cont_loop.simps(2) Let_def split: if_splits)
  qed
qed (simp add: cont_loop.simps)

lemma match_loop_more: "match_loop rec1 env ctx ml bb st = Some x \<Longrightarrow> match_loop rec2 env ctx ml bb st = Some x"
proof (induction "length ml" arbitrary: ml bb st rule: less_induct)
  case less
  show ?case
  proof (cases ml)
    case Nil
    then show ?thesis using less.prems by (simp add: match_loop.simps)
  next
    case (Cons m r)
    note IH = less.hyps [unfolded Cons, simplified, OF le_imp_less_Suc]
    obtain s where s: "top_entry rec1 env ctx bb m st = Some s"
      using less.prems Cons by (auto simp: match_loop.simps split: option.splits)
    note s2 = belowD [OF top_entry_more s]
    show ?thesis
    proof (cases s)
      case (Return e st')
      then show ?thesis using less.prems Cons s s2 by (simp add: match_loop.simps)
    next
      case (Flush bb' st')
      then show ?thesis using less.prems Cons s s2 IH [OF length_dropWhile_le] by (simp add: match_loop.simps)
    next
      case (Go cl bb1 st1)
      show ?thesis
      proof (cases "cl = 0")
        case True
        then show ?thesis using less.prems Cons s s2 Go IH [OF order_refl] by (simp add: match_loop.simps)
      next
        case False
        obtain l where l: "cont_loop rec1 env ctx r cl bb1 st1 = Some l"
          using less.prems Cons s Go False by (auto simp: match_loop.simps split: option.splits)
        note l2 = cont_loop_more [OF l] and len = cont_loop_rest [OF l, unfolded rest_within_def]
        show ?thesis
        proof (cases l)
          case (LReturn e st')
          then show ?thesis using less.prems Cons s s2 Go False l l2 by (simp add: match_loop.simps)
        next
          case (LFlush r' bb' st')
          then have "length (skip_sub r') \<le> length r" using len order_trans [OF length_dropWhile_le] by simp
          then show ?thesis using less.prems Cons s s2 Go False l l2 LFlush IH by (simp add: match_loop.simps)
        next
          case (LDone r' bb' st')
          then show ?thesis using less.prems Cons s s2 Go False l l2 len IH by (simp add: match_loop.simps Let_def split: if_splits)
        qed
      qed
    qed
  qed
qed

lemma softmagic_loop_more: "below (softmagic_loop rec1 ctx mls rv st) (softmagic_loop rec2 ctx mls rv st)"
  by (induction mls arbitrary: rv st)
     (simp_all only: softmagic_loop.simps Let_def, intro below_refl, intro below_bind more below_cases below_refl)

end

lemma match_fuel_Suc: "extended_matcher (match_fuel n env) (match_fuel (Suc n) env)"
proof (induction n)
  case 0
  then show ?case by unfold_locales (simp add: below_def)
next
  case (Suc n)
  show ?case
    by unfold_locales (simp only: match_fuel.simps(2) [of "Suc n"] match_fuel.simps(2) [of n], simp only: below_def,
      blast intro: extended_matcher.match_loop_more [OF Suc.IH, unfolded match_fuel.simps])
qed

interpretation deeper: extended_matcher "match_fuel n env" "match_fuel (Suc n) env" for n env
  by (rule match_fuel_Suc)

lemma file_softmagic_Suc:
  "file_softmagic n env ms b ic nc mode tx = Some x \<Longrightarrow> file_softmagic (Suc n) env ms b ic nc mode tx = Some x"
  unfolding file_softmagic_def by (rule belowD [OF deeper.softmagic_loop_more])

lemma file_softmagic_more:
  "fuel \<le> fuel' \<Longrightarrow> file_softmagic fuel env ms b ic nc mode tx = Some x \<Longrightarrow> file_softmagic fuel' env ms b ic nc mode tx = Some x"
  by (induction fuel' rule: dec_induct) (blast intro: file_softmagic_Suc)+

subsection \<open>The whole database\<close>

text \<open>A small database for the examples below: an ELF entry with a continuation, and an indirect entry.\<close>

definition env0 :: env where
  "env0 = \<lparr>e_memmem = True, e_fop = (\<lambda>_ w _. w), e_dop = (\<lambda>_ w _. w), e_fcmp = (\<lambda>_ _. Some 0), e_dcmp = (\<lambda>_ _. Some 0),
     e_regcomp = (\<lambda>_ _. 0), e_regerror = (\<lambda>_ _. []), e_regexec = (\<lambda>_ _ _. Rx_nomatch), e_fmtcheck = (\<lambda>_ _. True),
     e_format = (\<lambda>f _. Some f), e_asctime = (\<lambda>_ _. None), e_mktime = (\<lambda>_. 0), e_strftime = (\<lambda>_ _. None),
     e_fresh = \<lparr>li_off = 0, li_got_match = False, li_last_match = False, li_last_cond = 0\<rparr>\<rparr>"

definition elf_entry :: magic where
  "elf_entry = m0\<lparr>m_flag := BINTEST, m_type := FILE_BELONG, m_reln := 0x3d, m_desc := bytes_of ''ELF'',
     m_value := [0x46, 0x4c, 0x45, 0x7f] @ replicate 124 0\<rparr>"

definition class_entry :: magic where
  "class_entry = m0\<lparr>m_flag := BINTEST, m_cont_level := 1, m_type := FILE_BYTE, m_offset := 4, m_reln := 0x3d,
     m_desc := bytes_of ''64-bit'', m_value := 2 # replicate 127 0\<rparr>"

definition ms_elf :: magic_set where
  "ms_elf = ms0\<lparr>ms_mlist0 := [[elf_entry, class_entry]]\<rparr>"

definition elf_file :: buffer where
  "elf_file = \<lparr>b_fbuf = [0x7f, 0x45, 0x4c, 0x46, 2], b_fd = -1, b_regular = False, b_file = None\<rparr>"

lemma query_ok_elf: "query_ok 201 ms_elf elf_file 0 0" "query_ok 300 ms_elf elf_file 0 0"
  by (simp_all add: query_ok_def ms_inv_def wf_db_def wf_list_def wf_magic_def buf_ok_def ms_elf_def elf_file_def elf_entry_def
    class_entry_def m0_def ms0_def out_ok_def buffer_fill_def has_def Let_def)



text \<open>C9.  The search keeps the query: whatever it finds, the output stays a NUL-free string of at most one mebibyte with
  its length recorded, the value union keeps its size, the flags, the limits and the database are unchanged, the level
  stack does not shrink, every \<^verbatim>\<open>use\<close> that was entered was left, and the \<^verbatim>\<open>indirect\<close> count only grew.\<close>

theorem file_softmagic_invariant:
  assumes "query_ok fuel ms b ic nc" and "file_softmagic fuel env ms b ic nc mode tx = Some (r, st)"
  shows "out_ok (st_ms st) \<and> length (ms_value (st_ms st)) = MAXstring \<and> ms_flags (st_ms st) = ms_flags ms \<and>
     ms_indir_max (st_ms st) = ms_indir_max ms \<and> ms_name_max (st_ms st) = ms_name_max ms \<and>
     ms_mlist0 (st_ms st) = ms_mlist0 ms \<and> ms_mlist1 (st_ms st) = ms_mlist1 ms \<and>
     length (ms_li ms) \<le> length (ms_li (st_ms st)) \<and> ic \<le> st_ic st \<and> st_nc st = nc"
proof -
  have "keeps ms (st_ms st) \<and> ic \<le> st_ic st \<and> st_nc st = nc" using file_softmagic_runs [OF assms(1), of env mode tx] assms(2) by simp
  moreover have "ms_inv ms" using assms(1) by (simp add: query_ok_def)
  ultimately show ?thesis by (simp add: keeps_def ms_inv_def)
qed

theorem file_softmagic_invariant_witness:
  "out_ok (st_ms (snd (the (file_softmagic 201 env0 ms_elf elf_file 0 0 BINTEST False))))"
proof -
  obtain r st where "file_softmagic 201 env0 ms_elf elf_file 0 0 BINTEST False = Some (r, st)"
    using file_softmagic_runs [OF query_ok_elf(1)] by blast
  with file_softmagic_invariant [OF query_ok_elf(1) this] show ?thesis by simp
qed



end
