(* ===== verification/Tree_Walk.thy ===== *)
theory Tree_Walk
  imports Softmagic_Safe
begin

text \<open>
  What \<^verbatim>\<open>match\<close> of \<^verbatim>\<open>src/softmagic.c\<close> means.  A magic file is a list of entries, each with a continuation level; the
  documentation reads it as a forest, in which the entries one level deeper than an entry, up to the next that is not
  deeper, are its children, tried only when it matches.  The loops of \<^verbatim>\<open>match\<close> walk the list with a level counter;
  here they are shown to walk the forest.
\<close>

datatype mtree = Node (entry: magic) (children: "mtree list")

fun flat :: "mtree \<Rightarrow> magic list" where
  "flat (Node m ks) = m # concat (map flat ks)"

abbreviation flats :: "mtree list \<Rightarrow> magic list" where
  "flats ts \<equiv> concat (map flat ts)"

text \<open>The levels of the entries are their depths.\<close>

fun placed :: "nat \<Rightarrow> mtree \<Rightarrow> bool" where
  "placed lvl (Node m ks) \<longleftrightarrow> unat (m_cont_level m) = lvl \<and> list_all (placed (Suc lvl)) ks"

subsection \<open>The walk\<close>

datatype walked = WReturn int mstate | WFlush "u8 list" mstate | WDone "u8 list" mstate

definition at_line :: "magic \<Rightarrow> mstate \<Rightarrow> mstate" where
  "at_line m st = st\<lparr>st_ms := (st_ms st)\<lparr>ms_line := unat (m_lineno m)\<rparr>\<rparr>"

text \<open>The children of an entry that does not match are passed over; the line number follows.\<close>

definition pass_over :: "magic list \<Rightarrow> mstate \<Rightarrow> mstate" where
  "pass_over ms st = fold at_line ms st"

text \<open>The children of a matching entry, in order: the children of each that matches, before the next.\<close>

fun walk :: "matcher \<Rightarrow> env \<Rightarrow> mctx \<Rightarrow> nat \<Rightarrow> mtree list \<Rightarrow> u8 list \<Rightarrow> mstate \<Rightarrow> walked option" where
  "walk rec env ctx lvl [] bb st = Some (WDone bb st)"
| "walk rec env ctx lvl (Node m ks # ts) bb st =
     (case cont_entry rec env ctx bb lvl m (at_line m st) of
        None \<Rightarrow> None
      | Some (Return e st) \<Rightarrow> Some (WReturn e st)
      | Some (Flush bb st) \<Rightarrow> Some (WFlush bb st)
      | Some (Go cl bb st) \<Rightarrow>
          if cl = lvl then walk rec env ctx lvl ts bb (pass_over (flats ks) st)
          else (case walk rec env ctx (Suc lvl) ks bb st of
                  Some (WDone bb st) \<Rightarrow> walk rec env ctx lvl ts bb st
                | r \<Rightarrow> r))"

text \<open>The top-level entries: the first that matches ends the search, unless all matches are wanted.\<close>

fun match_forest :: "matcher \<Rightarrow> env \<Rightarrow> mctx \<Rightarrow> mtree list \<Rightarrow> u8 list \<Rightarrow> mstate \<Rightarrow> (int \<times> mstate) option" where
  "match_forest rec env ctx [] bb st = Some (st_ret st, st)"
| "match_forest rec env ctx (Node m ks # ts) bb st =
     (case top_entry rec env ctx bb m st of
        None \<Rightarrow> None
      | Some (Return e st) \<Rightarrow> Some (e, st)
      | Some (Flush bb st) \<Rightarrow> match_forest rec env ctx ts bb st
      | Some (Go cl bb st) \<Rightarrow>
          (case walk rec env ctx 1 ks bb st of
             None \<Rightarrow> None
           | Some (WReturn e st) \<Rightarrow> Some (e, st)
           | Some (WFlush bb st) \<Rightarrow> match_forest rec env ctx ts bb st
           | Some (WDone bb st) \<Rightarrow>
               (let st = (if st_printed st then st\<lparr>st_first := False\<rparr> else st) in
                if st_found st \<and> \<not> has (ms_flags (st_ms st)) MAGIC_CONTINUE then Some (st_ret st, st)
                else match_forest rec env ctx ts bb
                       (if st_found st then st\<lparr>st_printed := False, st_first := False\<rparr> else st))))"

definition st0 :: mstate where
  "st0 = \<lparr>st_ms = ms_elf, st_ic = 0, st_nc = 0, st_printed = False, st_needsep = False, st_first = True, st_ret = 0, st_found = False\<rparr>"

subsection \<open>The loops walk the forest\<close>

lemma flat_levels: "placed lvl t \<Longrightarrow> \<forall>x \<in> set (flat t). lvl \<le> unat (m_cont_level x)"
proof (induction t arbitrary: lvl)
  case (Node m ks)
  then show ?case by (fastforce simp: list_all_iff)
qed

lemma flats_levels: "list_all (placed lvl) ts \<Longrightarrow> x \<in> set (flats ts) \<Longrightarrow> lvl \<le> unat (m_cont_level x)"
  using flat_levels by (fastforce simp: list_all_iff)

lemma cont_loop_skip:
  "\<forall>x \<in> set xs. cl < unat (m_cont_level x) \<Longrightarrow>
   cont_loop rec env ctx (xs @ r) cl bb st = cont_loop rec env ctx r cl bb (pass_over xs st)"
  by (induction xs arbitrary: st) (auto simp: cont_loop.simps Let_def pass_over_def at_line_def)

text \<open>The level counter does not matter to an entry that is not above it.\<close>

definition stops :: "nat \<Rightarrow> magic list \<Rightarrow> bool" where
  "stops lvl r \<longleftrightarrow> r = [] \<or> unat (m_cont_level (hd r)) \<le> lvl"

lemma cont_loop_counter: "stops cl r \<Longrightarrow> stops cl' r \<Longrightarrow> cont_loop rec env ctx r cl bb st = cont_loop rec env ctx r cl' bb st"
  by (cases r) (auto simp: stops_def cont_loop.simps Let_def)

lemma stops_mono: "stops l r \<Longrightarrow> l \<le> l' \<Longrightarrow> stops l' r"
  by (auto simp: stops_def)

lemma stops_flats: "list_all (placed lvl) ts \<Longrightarrow> stops l r \<Longrightarrow> l \<le> lvl \<Longrightarrow> stops lvl (flats ts @ r)"
  by (cases ts) (auto simp: stops_def elim!: placed.elims)

lemma cont_entry_level: "cont_entry rec env ctx bb lvl m st = Some (Go cl bb' st') \<Longrightarrow> cl = lvl \<or> cl = Suc lvl"
proof -
  have o: "cont_offset env ctx bb lvl m st = Some (Go cl bb' st') \<Longrightarrow> cl = lvl \<or> cl = Suc lvl" for bb st
    by (auto simp: cont_offset_def Let_def split: option.splits if_splits)
  have m: "cont_matched env ctx bb lvl m st = Some (Go cl bb' st') \<Longrightarrow> cl = lvl \<or> cl = Suc lvl" for bb st
    by (simp add: cont_matched_def Let_def split: prod.splits if_splits option.splits) (auto dest: o)
  have c: "cont_checked env ctx bb lvl m r st = Some (Go cl bb' st') \<Longrightarrow> cl = lvl \<or> cl = Suc lvl" for bb r st
    by (auto simp: cont_checked_def Let_def split: if_splits dest: m)
  show "cont_entry rec env ctx bb lvl m st = Some (Go cl bb' st') \<Longrightarrow> cl = lvl \<or> cl = Suc lvl"
    by (auto simp: cont_entry_def Let_def split: prod.splits if_splits option.splits dest: c)
qed

text \<open>The loop over a list agrees with the walk over the forest it starts with, \<open>r\<close> being the rest.\<close>

definition agrees :: "(u8 list \<Rightarrow> mstate \<Rightarrow> loop_result option) \<Rightarrow> magic list \<Rightarrow> walked option \<Rightarrow> loop_result option \<Rightarrow> bool" where
  "agrees cont r w l \<longleftrightarrow>
     (case w of
        None \<Rightarrow> l = None
      | Some (WReturn e st) \<Rightarrow> l = Some (LReturn e st)
      | Some (WFlush bb st) \<Rightarrow> (\<exists>r'. l = Some (LFlush r' bb st) \<and> skip_sub r' = skip_sub r)
      | Some (WDone bb st) \<Rightarrow> l = cont bb st)"

lemma skip_flats: "list_all (placed lvl) ts \<Longrightarrow> 0 < lvl \<Longrightarrow> skip_sub (flats ts @ r) = skip_sub r"
  using flats_levels [of lvl ts] by (intro dropWhile_append2) fastforce

lemma cont_loop_walk:
  "list_all (placed lvl) ts \<Longrightarrow> 0 < lvl \<Longrightarrow> stops l r \<Longrightarrow> l \<le> lvl \<Longrightarrow> lvl \<le> cl \<Longrightarrow>
   agrees (cont_loop rec env ctx r lvl) r (walk rec env ctx lvl ts bb st) (cont_loop rec env ctx (flats ts @ r) cl bb st)"
proof (induction rec env ctx lvl ts bb st arbitrary: l r cl rule: walk.induct)
  case (1 rec env ctx lvl bb st)
  then have s: "stops cl r" "stops lvl r" by (auto intro: stops_mono)
  show ?case using cont_loop_counter [OF s, of rec env ctx bb st] by (simp add: agrees_def)
next
  case (2 rec env ctx lvl m ks ts bb st)
  have p: "unat (m_cont_level m) = lvl" "list_all (placed (Suc lvl)) ks" "list_all (placed lvl) ts" using 2(4) by simp_all
  let ?rest = "flats ts @ r"
  have step: "cont_loop rec env ctx (flats (Node m ks # ts) @ r) cl bb st =
     (case cont_entry rec env ctx bb lvl m (at_line m st) of
          None \<Rightarrow> None
        | Some (Return e st) \<Rightarrow> Some (LReturn e st)
        | Some (Flush bb st) \<Rightarrow> Some (LFlush (flats ks @ ?rest) bb st)
        | Some (Go cl bb st) \<Rightarrow> cont_loop rec env ctx (flats ks @ ?rest) cl bb st)"
    using p(1) 2(5,8) by (simp add: cont_loop.simps Let_def at_line_def)
  show ?case
  proof (cases "cont_entry rec env ctx bb lvl m (at_line m st)")
    case None
    then show ?thesis unfolding step by (simp add: agrees_def)
  next
    case (Some s)
    show ?thesis
    proof (cases s)
      case (Return e st')
      then show ?thesis using Some unfolding step by (simp add: agrees_def)
    next
      case (Flush bb' st')
      have "skip_sub (flats ks @ ?rest) = skip_sub r" using skip_flats [OF p(2)] skip_flats [OF p(3) 2(5)] by simp
      then show ?thesis using Some Flush unfolding step by (simp add: agrees_def)
    next
      case (Go cl' bb' st')
      show ?thesis
      proof (cases "cl' = lvl")
        case True
        have "cont_loop rec env ctx (flats ks @ ?rest) lvl bb' st' = cont_loop rec env ctx ?rest lvl bb' (pass_over (flats ks) st')"
          using flats_levels [OF p(2)] by (intro cont_loop_skip) fastforce
        moreover have "agrees (cont_loop rec env ctx r lvl) r (walk rec env ctx lvl ts bb' (pass_over (flats ks) st'))
            (cont_loop rec env ctx ?rest lvl bb' (pass_over (flats ks) st'))"
          using 2(1) [OF Some Go True p(3) 2(5,6,7)] by simp
        ultimately show ?thesis using Some Go True unfolding step by simp
      next
        case False
        then have cl': "cl' = Suc lvl" using cont_entry_level Some Go by blast
        have rest: "stops lvl ?rest" using stops_flats [OF p(3) 2(6,7)] .
        have a: "agrees (cont_loop rec env ctx ?rest (Suc lvl)) ?rest (walk rec env ctx (Suc lvl) ks bb' st')
            (cont_loop rec env ctx (flats ks @ ?rest) (Suc lvl) bb' st')"
          using 2(2) [OF Some Go False p(2) _ rest] by simp
        show ?thesis
        proof (cases "walk rec env ctx (Suc lvl) ks bb' st'")
          case None
          then show ?thesis using a Some Go False cl' unfolding step by (simp add: agrees_def)
        next
          case w: (Some w)
          show ?thesis
          proof (cases w)
            case (WDone bb2 st2)
            have "agrees (cont_loop rec env ctx r lvl) r (walk rec env ctx lvl ts bb2 st2) (cont_loop rec env ctx ?rest (Suc lvl) bb2 st2)"
              using 2(3) [OF Some Go False w WDone p(3) 2(5,6,7)] by simp
            then show ?thesis using a w WDone Some Go False cl' unfolding step by (simp add: agrees_def)
          qed (unfold step, use a w Some Go False cl' skip_flats [OF p(3) 2(5)] in \<open>auto simp: agrees_def\<close>)
        qed
      qed
    qed
  qed
qed

lemma top_entry_level: "top_entry rec env ctx bb m st = Some (Go cl bb' st') \<Longrightarrow> buffer_fill (c_b ctx) \<noteq> None \<Longrightarrow> cl = 1"
proof -
  have o: "top_offset env ctx bb m st = Some (Go cl bb' st') \<Longrightarrow> cl = 1" for bb st
    by (auto simp: top_offset_def Let_def split: option.splits if_splits)
  have m: "top_matched env ctx bb m st = Some (Go cl bb' st') \<Longrightarrow> cl = 1" for bb st
    by (simp add: top_matched_def Let_def split: prod.splits if_splits option.splits) (auto dest: o)
  show "top_entry rec env ctx bb m st = Some (Go cl bb' st') \<Longrightarrow> buffer_fill (c_b ctx) \<noteq> None \<Longrightarrow> cl = 1"
    by (auto simp: top_entry_def Let_def split: prod.splits if_splits option.splits dest: m)
qed

lemma stops_top: "list_all (placed 0) ts \<Longrightarrow> stops 0 (flats ts)"
  by (cases ts) (auto simp: stops_def elim!: placed.elims)

lemma skip_top: "list_all (placed 0) ts \<Longrightarrow> skip_sub (flats ts) = flats ts"
  by (cases ts) (auto elim!: placed.elims simp: unat_eq_zero)

lemma cont_loop_top: "list_all (placed 0) ts \<Longrightarrow> cont_loop rec env ctx (flats ts) cl bb st = Some (LDone (flats ts) bb st)"
  by (cases ts) (auto elim!: placed.elims simp: cont_loop.simps)

lemma match_loop_forest:
  "list_all (placed 0) ts \<Longrightarrow> buffer_fill (c_b ctx) \<noteq> None \<Longrightarrow>
   match_loop rec env ctx (flats ts) bb st = match_forest rec env ctx ts bb st"
proof (induction rec env ctx ts bb st rule: match_forest.induct)
  case (1 rec env ctx bb st)
  then show ?case by (simp add: match_loop.simps)
next
  case (2 rec env ctx m ks ts bb st)
  have p: "list_all (placed 1) ks" "list_all (placed 0) ts" using 2(4) by simp_all
  have fl: "flats (Node m ks # ts) = m # flats ks @ flats ts" by simp
  have sk: "skip_sub (flats ks @ flats ts) = flats ts" using skip_flats [OF p(1)] skip_top [OF p(2)] by simp
  show ?case
  proof (cases "top_entry rec env ctx bb m st")
    case None
    then show ?thesis by (simp add: match_loop.simps)
  next
    case (Some s)
    show ?thesis
    proof (cases s)
      case (Return e st')
      then show ?thesis using Some by (simp add: match_loop.simps)
    next
      case (Flush bb' st')
      then show ?thesis using Some 2(1) [OF Some Flush p(2) 2(5)] sk unfolding fl by (simp add: match_loop.simps)
    next
      case (Go cl bb1 st1)
      then have cl: "cl = 1" using top_entry_level [OF _ 2(5)] Some by blast
      have a: "agrees (cont_loop rec env ctx (flats ts) 1) (flats ts) (walk rec env ctx 1 ks bb1 st1)
          (cont_loop rec env ctx (flats ks @ flats ts) 1 bb1 st1)"
        using cont_loop_walk [OF p(1) _ stops_top [OF p(2)]] by simp
      note simps = Some Go cl fl sk skip_top [OF p(2)] cont_loop_top [OF p(2)]
      show ?thesis
      proof (cases "walk rec env ctx 1 ks bb1 st1")
        case None
        then show ?thesis using a by (simp add: simps agrees_def match_loop.simps)
      next
        case w: (Some w)
        show ?thesis
        proof (cases w)
          case (WReturn e st')
          then show ?thesis using a w by (simp add: simps agrees_def match_loop.simps)
        next
          case (WFlush bb' st')
          then obtain r' where "cont_loop rec env ctx (flats ks @ flats ts) 1 bb1 st1 = Some (LFlush r' bb' st')" "skip_sub r' = flats ts"
            using a w by (auto simp: agrees_def skip_top [OF p(2)])
          then show ?thesis using w WFlush 2(2) [OF Some Go w WFlush p(2) 2(5)] by (simp add: simps match_loop.simps)
        next
          case (WDone bb' st')
          then show ?thesis using a w 2(3) [OF Some Go w WDone refl _ p(2) 2(5)] by (auto simp: simps agrees_def match_loop.simps Let_def)
        qed
      qed
    qed
  qed
qed

text \<open>Every list of entries that starts at the top and goes down one level at a time is such a forest.\<close>

fun nested :: "nat \<Rightarrow> magic list \<Rightarrow> bool" where
  "nested l [] \<longleftrightarrow> True"
| "nested l (m # r) \<longleftrightarrow> unat (m_cont_level m) \<le> l \<and> nested (Suc (unat (m_cont_level m))) r"

lemma nested_forest:
  "nested l r \<Longrightarrow> \<exists>ts r'. r = flats ts @ r' \<and> list_all (placed l) ts \<and> nested l r' \<and> (r' = [] \<or> unat (m_cont_level (hd r')) < l)"
proof (induction "length r" arbitrary: l r rule: less_induct)
  case less
  show ?case
  proof (cases r)
    case Nil
    then show ?thesis by (intro exI [of _ "[] :: mtree list"]) simp
  next
    case (Cons m r1)
    show ?thesis
    proof (cases "unat (m_cont_level m) = l")
      case False
      then show ?thesis using less.prems Cons by (intro exI [of _ "[] :: mtree list"]) simp
    next
      case True
      obtain ks r2 where k: "r1 = flats ks @ r2" "list_all (placed (Suc l)) ks" "nested (Suc l) r2" "r2 = [] \<or> unat (m_cont_level (hd r2)) < Suc l"
        using less.hyps [of r1 "Suc l"] less.prems Cons True by auto
      have "nested l r2" using k(3,4) by (cases r2) auto
      moreover have "length r2 < length r" using k(1) Cons by simp
      ultimately obtain ts r' where "r2 = flats ts @ r'" "list_all (placed l) ts" "nested l r'" "r' = [] \<or> unat (m_cont_level (hd r')) < l"
        using less.hyps by blast
      then show ?thesis using k Cons True by (intro exI [of _ "Node m ks # ts"] exI [of _ r']) simp
    qed
  qed
qed

lemma nested_top: "nested 0 ml \<Longrightarrow> \<exists>ts. ml = flats ts \<and> list_all (placed 0) ts"
  using nested_forest [of 0 ml] by auto



end
