(* ===== verification/Numeric_Test.thy ===== *)
theory Numeric_Test
  imports Softmagic_Safe
begin

text \<open>
  What a numeric entry of the magic file tests.  The entry names a type (width, byte order), an offset, an optional
  mask and a relation with a number; \<^verbatim>\<open>mget\<close> copies and converts the bytes through the value union and \<^verbatim>\<open>magiccheck\<close>
  compares 64-bit words after extending them.  Here both are shown to compute the test on the integers that
  the bytes of the file denote.
\<close>

subsection \<open>Byte order\<close>

lemma take_nth:
  "2 \<le> length p \<Longrightarrow> take 2 p = [p ! 0, p ! 1]"
  "4 \<le> length p \<Longrightarrow> take 4 p = [p ! 0, p ! 1, p ! 2, p ! 3]"
  "8 \<le> length p \<Longrightarrow> take 8 p = [p ! 0, p ! 1, p ! 2, p ! 3, p ! 4, p ! 5, p ! 6, p ! 7]"
  by (simp_all add: list_eq_iff_nth_eq less_Suc_eq numeral_eq_Suc)

lemma shift_bytes:
  "word_of_nat (le_nat bs) = (fold (\<lambda>b l. push_bit 8 l OR ucast b) (rev bs) 0 :: 'a::len word)"
  using fold_shift8 [of "rev bs" 0, where 'a = 'a] by simp

lemma word_order:
  "2 \<le> length p \<Longrightarrow> BE16 p = word_of_nat (le_nat (rev (take 2 p)))"
  "2 \<le> length p \<Longrightarrow> LE16 p = word_of_nat (le_nat (take 2 p))"
  "4 \<le> length p \<Longrightarrow> BE32 p = word_of_nat (le_nat (rev (take 4 p)))"
  "4 \<le> length p \<Longrightarrow> LE32 p = word_of_nat (le_nat (take 4 p))"
  "4 \<le> length p \<Longrightarrow> ME32 p = word_of_nat (le_nat [p ! 2, p ! 3, p ! 0, p ! 1])"
  "8 \<le> length p \<Longrightarrow> BE64 p = word_of_nat (le_nat (rev (take 8 p)))"
  "8 \<le> length p \<Longrightarrow> LE64 p = word_of_nat (le_nat (take 8 p))"
  unfolding shift_bytes
  by (simp_all add: take_nth BE16_def LE16_def BE32_def LE32_def ME32_def BE64_def LE64_def push_bit_or push_bit_push_bit or.assoc)

subsection \<open>The number at an offset\<close>

text \<open>The width of a numeric type in bytes, and the number its bytes denote, most significant byte first or last,
  or in the order of a PDP-11; types without a byte order have that of the host, which is little-endian.\<close>

definition num_width :: "u8 \<Rightarrow> nat" where
  "num_width t = (if t = FILE_BYTE then 1
     else if t = FILE_SHORT \<or> t = FILE_BESHORT \<or> t = FILE_LESHORT then 2
     else if t = FILE_LONG \<or> t = FILE_BELONG \<or> t = FILE_LELONG \<or> t = FILE_MELONG then 4
     else if t = FILE_QUAD \<or> t = FILE_BEQUAD \<or> t = FILE_LEQUAD then 8 else 0)"

definition number :: "u8 \<Rightarrow> u8 list \<Rightarrow> nat" where
  "number t bs =
     (let b = take (num_width t) bs in
      le_nat (if t = FILE_BESHORT \<or> t = FILE_BELONG \<or> t = FILE_BEQUAD then rev b
              else if t = FILE_MELONG then [b ! 2, b ! 3, b ! 0, b ! 1] else b))"

text \<open>As the entry reads it: masked, and signed or not.\<close>

definition read_number :: "magic \<Rightarrow> u8 list \<Rightarrow> int" where
  "read_number m bs =
     (let w = 8 * num_width (m_type m); n = int (number (m_type m) bs);
          n = (if num_mask m = 0 then n else n AND uint (num_mask m)) in
      if has (m_flag m) UNSIGNED then n else signed_take_bit (w - 1) n)"

definition magic_number :: "magic \<Rightarrow> int" where
  "magic_number m = (if has (m_flag m) UNSIGNED then uint (val_q (m_value m)) else sint (val_q (m_value m)))"

text \<open>The relations of the magic file.\<close>

definition int_relation :: "u8 \<Rightarrow> int \<Rightarrow> int \<Rightarrow> bool" where
  "int_relation reln v l \<longleftrightarrow>
     (if reln = 0x78 then True
      else if reln = 0x21 then v \<noteq> l
      else if reln = 0x3d then v = l
      else if reln = 0x3e then l < v
      else if reln = 0x3c then v < l
      else if reln = 0x26 then v AND l = l
      else v AND l \<noteq> l)"

definition relations :: "u8 list" where
  "relations = [0x78, 0x21, 0x3d, 0x3e, 0x3c, 0x26, 0x5e]"

subsection \<open>The comparison\<close>

definition as_int :: "magic \<Rightarrow> 'a::len word \<Rightarrow> int" where
  "as_int m w = (if has (m_flag m) UNSIGNED then uint w else sint w)"

lemma as_int_eq: "as_int m v = as_int m l \<longleftrightarrow> v = l"
  by (simp add: as_int_def word_eq_iff_signed [symmetric] word_eq_iff_unsigned [symmetric])

lemma as_int_and: "as_int m (v AND l) = as_int m v AND as_int m l"
  by (simp add: as_int_def unsigned_and_eq signed_and_eq)

lemma int_reln_spec:
  assumes "m_reln m \<in> set relations"
  shows "int_reln ms m v l = (if int_relation (m_reln m) (as_int m v) (as_int m l) then 1 else 0, ms)"
proof -
  have "int_relation (m_reln m) (as_int m v) (as_int m l) \<longleftrightarrow>
      (if m_reln m = 0x78 then True else if m_reln m = 0x21 then v \<noteq> l else if m_reln m = 0x3d then v = l
       else if m_reln m = 0x3e then as_int m l < as_int m v else if m_reln m = 0x3c then as_int m v < as_int m l
       else if m_reln m = 0x26 then v AND l = l else v AND l \<noteq> l)"
    unfolding int_relation_def as_int_eq as_int_and [symmetric] by (rule refl)
  moreover have "as_int m v < as_int m l \<longleftrightarrow> (if has (m_flag m) UNSIGNED then v < l else sint v < sint l)" for v l :: u64
    by (simp add: as_int_def word_less_def)
  ultimately show ?thesis using assms by (auto simp: int_reln_def Let_def relations_def)
qed

text \<open>The extension to 64 bits keeps the number.\<close>

lemma as_int_word: "n < 2 ^ LENGTH('a::len) \<Longrightarrow>
    as_int m (word_of_nat n :: 'a word) = (if has (m_flag m) UNSIGNED then int n else signed_take_bit (LENGTH('a) - 1) (int n))"
  by (simp add: as_int_def unsigned_of_nat signed_of_nat take_bit_nat_eq_self)

lemma as_int_extend:
  "m_type m = FILE_BYTE \<Longrightarrow> as_int m (file_signextend m (ucast (b :: u8))) = as_int m b"
  "m_type m \<in> {FILE_SHORT, FILE_BESHORT, FILE_LESHORT} \<Longrightarrow> as_int m (file_signextend m (ucast (h :: u16))) = as_int m h"
  "m_type m \<in> {FILE_LONG, FILE_BELONG, FILE_LELONG, FILE_MELONG} \<Longrightarrow> as_int m (file_signextend m (ucast (w :: u32))) = as_int m w"
  "m_type m \<in> {FILE_QUAD, FILE_BEQUAD, FILE_LEQUAD} \<Longrightarrow> as_int m (file_signextend m q) = as_int m q"
proof -
  have down: "ucast (ucast b :: u64) = b" "ucast (ucast h :: u64) = h" "ucast (ucast w :: u64) = w"
    by (rule bit_word_eqI, simp add: bit_unsigned_iff)+
  have up: "uint (ucast b :: u64) = uint b" "uint (ucast h :: u64) = uint h" "uint (ucast w :: u64) = uint w"
    using uint_bounded [of b] uint_bounded [of h] uint_bounded [of w] by (simp_all add: unsigned_ucast_eq take_bit_int_eq_self_iff)
  have s: "signed_take_bit 63 (sint b) = sint b" "signed_take_bit 63 (sint h) = sint h" "signed_take_bit 63 (sint w) = sint w"
    using sint_greater_eq [of b] sint_less [of b] sint_greater_eq [of h] sint_less [of h] sint_greater_eq [of w] sint_less [of w]
    by (simp_all add: signed_take_bit_int_eq_self_iff)
  have s: "sint (scast b :: u64) = sint b" "sint (scast h :: u64) = sint h" "sint (scast w :: u64) = sint w"
    using s by (simp_all add: signed_scast_eq)
  show "m_type m = FILE_BYTE \<Longrightarrow> as_int m (file_signextend m (ucast b)) = as_int m b"
    by (simp add: as_int_def file_signextend_def Let_def down up s)
  show "m_type m \<in> {FILE_SHORT, FILE_BESHORT, FILE_LESHORT} \<Longrightarrow> as_int m (file_signextend m (ucast h)) = as_int m h"
    by (auto simp: as_int_def file_signextend_def Let_def down up s)
  show "m_type m \<in> {FILE_LONG, FILE_BELONG, FILE_LELONG, FILE_MELONG} \<Longrightarrow> as_int m (file_signextend m (ucast w)) = as_int m w"
    by (auto simp: as_int_def file_signextend_def Let_def down up s)
  show "m_type m \<in> {FILE_QUAD, FILE_BEQUAD, FILE_LEQUAD} \<Longrightarrow> as_int m (file_signextend m q) = as_int m q"
    by (auto simp: file_signextend_def Let_def)
qed

text \<open>Masking keeps the number of the masked bits.\<close>

lemma masked_word:
  assumes "n < 2 ^ LENGTH('a::len)"
  shows "as_int m (word_of_nat n AND ucast (k :: u64) :: 'a word) =
    (if has (m_flag m) UNSIGNED then int n AND uint k else signed_take_bit (LENGTH('a) - 1) (int n AND uint k))"
proof -
  let ?j = "int n AND uint k"
  have "word_of_nat n AND ucast k = (word_of_int ?j :: 'a word)"
    by (simp only: of_int_and_eq of_int_of_nat_eq ucast_eq)
  moreover have "int n < int (2 ^ LENGTH('a))" using assms by (simp only: of_nat_less_iff)
  then have "?j < 2 ^ LENGTH('a)" using AND_upper1 [of "int n" "uint k"] by simp
  then have "take_bit LENGTH('a) ?j = ?j" by (intro take_bit_int_eq_self) simp_all
  ultimately show ?thesis
    by (simp only: as_int_def unsigned_of_int signed_of_int of_int_eq_id id_apply) simp
qed

lemma number_less: "number t bs < 256 ^ num_width t"
proof (cases "t = FILE_MELONG")
  case True
  then show ?thesis using le_nat_less [of "[take 4 bs ! 2, take 4 bs ! 3, take 4 bs ! 0, take 4 bs ! 1]"]
    by (simp add: number_def num_width_def del: le_nat.simps)
next
  case False
  have "(256 :: nat) ^ length (take (num_width t) bs) \<le> 256 ^ num_width t" by (rule power_increasing) simp_all
  then have "le_nat (take (num_width t) bs) < 256 ^ num_width t" "le_nat (rev (take (num_width t) bs)) < 256 ^ num_width t"
    using le_nat_less [of "take (num_width t) bs"] le_nat_less [of "rev (take (num_width t) bs)"] by (auto intro: less_le_trans)
  then show ?thesis using False unfolding number_def Let_def by (simp only: if_False simp_thms split: if_split)
qed

text \<open>The word that the mask leaves.\<close>

definition masked :: "magic \<Rightarrow> 'a::len word \<Rightarrow> 'a word" where
  "masked m w = (if num_mask m = 0 then w else w AND ucast (num_mask m))"

lemma masked_number:
  assumes "LENGTH('a::len) = 8 * num_width (m_type m)"
  shows "as_int m (masked m (word_of_nat (number (m_type m) bs) :: 'a word)) = read_number m bs"
proof -
  have "number (m_type m) bs < 2 ^ LENGTH('a)"
    using number_less [of "m_type m" bs] by (simp add: assms power_mult)
  from as_int_word [OF this, of m] masked_word [OF this, of m "num_mask m"] show ?thesis
    by (simp add: masked_def read_number_def Let_def assms)
qed

lemma DO_CVT_mask: "m_mask_op m = 0 \<Longrightarrow> DO_CVT m w = Some (masked m w)"
  by (simp add: DO_CVT_def DO_CVT1_def masked_def has_def Let_def)

lemma val_put [simp]: "val_b (put_b b v) = b" "val_h (put_h h v) = h" "val_l (put_l l v) = l" "val_q (put_q q v) = q"
  by (simp_all add: val_b_def put_b_def val_h_def put_h_def val_l_def put_l_def val_q_def put_q_def host_word_bytes)

lemma cvt_put:
  assumes "m_mask_op m = 0"
  shows "cvt_8 p m = Some (put_b (masked m (val_b p)) p)" "cvt_16 p m = Some (put_h (masked m (val_h p)) p)"
    "cvt_32 p m = Some (put_l (masked m (val_l p)) p)" "cvt_64 p m = Some (put_q (masked m (val_q p)) p)"
  by (simp_all add: cvt_8_def cvt_16_def cvt_32_def cvt_64_def DO_CVT_mask assms)

lemma val_number:
  assumes "8 \<le> length p"
  shows "val_b p = word_of_nat (number FILE_BYTE p)" "val_h p = word_of_nat (number FILE_SHORT p)"
    "val_l p = word_of_nat (number FILE_LONG p)" "val_q p = word_of_nat (number FILE_QUAD p)"
    "BE16 p = word_of_nat (number FILE_BESHORT p)" "LE16 p = word_of_nat (number FILE_LESHORT p)"
    "BE32 p = word_of_nat (number FILE_BELONG p)" "LE32 p = word_of_nat (number FILE_LELONG p)"
    "ME32 p = word_of_nat (number FILE_MELONG p)"
    "BE64 p = word_of_nat (number FILE_BEQUAD p)" "LE64 p = word_of_nat (number FILE_LEQUAD p)"
proof -
  have "take 1 p = [p ! 0]" using assms by (cases p) auto
  then show "val_b p = word_of_nat (number FILE_BYTE p)" by (simp add: number_def num_width_def val_b_def)
  show "val_h p = word_of_nat (number FILE_SHORT p)" "val_l p = word_of_nat (number FILE_LONG p)"
    "val_q p = word_of_nat (number FILE_QUAD p)"
    by (simp_all add: number_def num_width_def val_h_def val_l_def val_q_def host_word_def)
  show "BE16 p = word_of_nat (number FILE_BESHORT p)" "LE16 p = word_of_nat (number FILE_LESHORT p)"
    "BE32 p = word_of_nat (number FILE_BELONG p)" "LE32 p = word_of_nat (number FILE_LELONG p)"
    "BE64 p = word_of_nat (number FILE_BEQUAD p)" "LE64 p = word_of_nat (number FILE_LEQUAD p)"
    using word_order [of p] assms by (simp_all add: number_def num_width_def)
  show "ME32 p = word_of_nat (number FILE_MELONG p)"
    using word_order(5) [of p] assms by (simp add: number_def num_width_def del: le_nat.simps)
qed

lemma num_width_cases:
  assumes "num_width t \<noteq> 0"
  obtains "t = FILE_BYTE" | "t = FILE_SHORT" | "t = FILE_BESHORT" | "t = FILE_LESHORT" | "t = FILE_LONG" | "t = FILE_BELONG"
    | "t = FILE_LELONG" | "t = FILE_MELONG" | "t = FILE_QUAD" | "t = FILE_BEQUAD" | "t = FILE_LEQUAD"
  using assms unfolding num_width_def by (auto split: if_splits)

text \<open>The conversion leaves the number in the union, and the comparison computes the relation.\<close>

lemma convert_and_check:
  assumes t: "num_width (m_type m) \<noteq> 0" and m: "m_mask_op m = 0" "m_reln m \<in> set relations" and v: "8 \<le> length (ms_value ms)"
  shows "\<exists>ms'. mconvert fop dop ms m False = (True, ms') \<and>
    magiccheck env ms' m = Some (if int_relation (m_reln m) (read_number m (ms_value ms)) (magic_number m) then 1 else 0, ms')"
proof -
  have l: "as_int m (val_q (m_value m)) = magic_number m" by (simp add: as_int_def magic_number_def)
  note simps = mconvert_def magiccheck_def Let_def cvt_flip_def cvt_put [OF m(1)] int_reln_spec [OF m(2)] l val_number [OF v]
  from t show ?thesis
  proof (cases rule: num_width_cases)
    case 1
    then show ?thesis using masked_number [where 'a = 8, of m "ms_value ms"] as_int_extend(1) [of m]
      by (simp add: simps num_width_def)
  qed (use masked_number [where 'a = 16, of m "ms_value ms"] as_int_extend(2) [of m]
        masked_number [where 'a = 32, of m "ms_value ms"] as_int_extend(3) [of m]
        masked_number [where 'a = 64, of m "ms_value ms"] as_int_extend(4) [of m] in \<open>simp_all add: simps num_width_def\<close>)
qed

lemma mconvert_value:
  assumes t: "num_width (m_type m) \<noteq> 0" and m: "m_mask_op m = 0" and c: "mconvert fop dop ms m False = (ok, ms')"
  obtains w where "ms' = ms\<lparr>ms_value := w\<rparr>"
  using c by (cases rule: num_width_cases [OF t]) (auto simp: mconvert_def Let_def cvt_flip_def cvt_put [OF m])

subsection \<open>The bytes of the file\<close>

lemma mcopy_numeric:
  assumes t: "num_width (m_type m) \<noteq> 0" and s: "unat off + num_width (m_type m) \<le> length s"
  shows "\<exists>v. mcopy ms (m_type m) False s off (length s) m = ms\<lparr>ms_value := v\<rparr> \<and> length v = MAXstring \<and>
    take (num_width (m_type m)) v = take (num_width (m_type m)) (drop (unat off) s)"
proof -
  let ?n = "min (length s - unat off) MAXstring"
  let ?v = "take ?n (drop (unat off) s) @ replicate (MAXstring - ?n) 0"
  have w: "num_width (m_type m) \<le> 8" by (simp add: num_width_def)
  have "mcopy ms (m_type m) False s off (length s) m = ms\<lparr>ms_value := ?v\<rparr>"
    using s t by (cases rule: num_width_cases [OF t]) (auto simp: mcopy_def Let_def min_def num_width_def)
  moreover have "take (num_width (m_type m)) ?v = take (num_width (m_type m)) (drop (unat off) s)" using s w by (simp add: min_def)
  ultimately show ?thesis by (intro exI [of _ ?v]) simp
qed

lemma read_number_take: "take (num_width (m_type m)) v = take (num_width (m_type m)) bs \<Longrightarrow> read_number m v = read_number m bs"
  by (simp add: read_number_def number_def Let_def)

text \<open>The entries that this theory is about: a numeric type at a direct offset, masked with AND or not at all, in a
  relation that numbers have.\<close>

definition numeric :: "magic \<Rightarrow> bool" where
  "numeric m \<longleftrightarrow> num_width (m_type m) \<noteq> 0 \<and> m_mask_op m = 0 \<and> m_reln m \<in> set relations \<and> \<not> has (m_flag m) INDIR"

definition can_get :: "mstate \<Rightarrow> bool" where
  "can_get st \<longleftrightarrow> st_ic st < ms_indir_max (st_ms st) \<and> st_nc st < ms_name_max (st_ms st)"

lemma numeric_not_special: "num_width t \<noteq> 0 \<Longrightarrow> t \<noteq> FILE_INDIRECT \<and> t \<noteq> FILE_USE \<and> t \<noteq> FILE_NAME"
  by (auto simp: num_width_def)

lemma oob_unat: "offset_oob n (uint (w :: u32)) k \<longleftrightarrow> n < unat w + k"
proof -
  have "uint w = int (unat w)" by simp
  then show ?thesis unfolding offset_oob_def by linarith
qed

lemma mget_numeric:
  assumes m: "numeric m" and g: "can_get st" and o: "c_o ctx = 0" "\<not> c_flip ctx" and s: "length s < 2 ^ 32"
    and fits: "unat (ms_offset (st_ms st)) + num_width (m_type m) \<le> length s"
  shows "\<exists>w. let ms' = (st_ms st)\<lparr>ms_value := w\<rparr> in mget rec env ctx s lvl m st = Some (1, st\<lparr>st_ms := ms'\<rparr>) \<and>
    magiccheck env ms' m =
      Some (if int_relation (m_reln m) (read_number m (drop (unat (ms_offset (st_ms st))) s)) (magic_number m) then 1 else 0, ms')"
proof -
  let ?ms = "st_ms st" and ?off = "ms_offset (st_ms st)"
  have t: "num_width (m_type m) \<noteq> 0" using m by (simp add: numeric_def)
  have n: "unat (word_of_nat (length s) :: u32) = length s" using s by (intro unat_word_of_nat) simp
  obtain v where c: "mcopy ?ms (m_type m) False s ?off (length s) m = ?ms\<lparr>ms_value := v\<rparr>" "length v = MAXstring"
      "take (num_width (m_type m)) v = take (num_width (m_type m)) (drop (unat ?off) s)"
    using mcopy_numeric [OF t fits] by blast
  obtain ms' where cc: "mconvert (e_fop env) (e_dop env) (?ms\<lparr>ms_value := v\<rparr>) m False = (True, ms')"
      "magiccheck env ms' m = Some (if int_relation (m_reln m) (read_number m v) (magic_number m) then 1 else 0, ms')"
    using convert_and_check [of m "?ms\<lparr>ms_value := v\<rparr>" "e_fop env" "e_dop env" env] m c(2) by (auto simp: numeric_def)
  obtain w where w: "ms' = ?ms\<lparr>ms_value := w\<rparr>" using mconvert_value [OF t _ cc(1)] m by (auto simp: numeric_def)
  have e: "enough_data m (length s) ?off"
    using fits by (cases rule: num_width_cases [OF t]) (auto simp: enough_data_def oob_unat num_width_def Let_def)
  have "mget rec env ctx s lvl m st = mget_value rec env ctx s m ?off (st\<lparr>st_ms := ?ms\<lparr>ms_value := v\<rparr>\<rparr>)"
    using m g o n c(1) by (simp add: mget_def Let_def numeric_def can_get_def not_le)
  also have "\<dots> = Some (1, st\<lparr>st_ms := ?ms\<lparr>ms_value := w\<rparr>\<rparr>)"
    using numeric_not_special [OF t] e cc(1) o(2) by (simp add: mget_value_def Let_def w)
  finally show ?thesis using cc(2) read_number_take [OF c(3)] w by (intro exI [of _ w]) (simp add: Let_def)
qed

lemma mget_numeric_short:
  assumes m: "numeric m" "num_width (m_type m) \<le> 4" and g: "can_get st"
    and short: "length s < unat (ms_offset (st_ms st)) + num_width (m_type m)"
  shows "\<exists>w. mget rec env ctx s lvl m st = Some (0, st\<lparr>st_ms := (st_ms st)\<lparr>ms_value := w\<rparr>\<rparr>)"
proof -
  have t: "num_width (m_type m) \<noteq> 0" using m by (simp add: numeric_def)
  have "\<not> enough_data m (length s) (ms_offset (st_ms st))"
    using short m(2) by (cases rule: num_width_cases [OF t]) (auto simp: enough_data_def oob_unat num_width_def Let_def)
  moreover obtain w where "mcopy (st_ms st) (m_type m) False s (ms_offset (st_ms st) + word_of_nat (c_o ctx))
      (unat (word_of_nat (length s) :: u32)) m = (st_ms st)\<lparr>ms_value := w\<rparr>"
    using t by (cases rule: num_width_cases [OF t]) (auto simp: mcopy_def Let_def)
  ultimately show ?thesis
    using m g by (intro exI [of _ w]) (simp add: mget_def mget_value_def Let_def numeric_def can_get_def not_le)
qed

text \<open>C5.  A numeric entry tests the number in the file.  When the file holds the bytes of the type at the offset, \<^verbatim>\<open>mget\<close>
  succeeds and \<^verbatim>\<open>magiccheck\<close> answers whether the number those bytes denote (in the byte order of the type, masked, signed
  unless the entry is unsigned) stands in the entry's relation to the entry's number; when the file is too
  short for a type of up to four bytes, the entry has no value.\<close>

theorem numeric_entry:
  assumes "numeric m" and "can_get st" and "c_o ctx = 0" and "\<not> c_flip ctx" and "length s < 2 ^ 32"
  shows "if unat (ms_offset (st_ms st)) + num_width (m_type m) \<le> length s
     then \<exists>st'. mget rec env ctx s lvl m st = Some (1, st') \<and>
       magiccheck env (st_ms st') m =
         Some (if int_relation (m_reln m) (read_number m (drop (unat (ms_offset (st_ms st))) s)) (magic_number m) then 1 else 0, st_ms st')
     else num_width (m_type m) \<le> 4 \<longrightarrow> (\<exists>st'. mget rec env ctx s lvl m st = Some (0, st'))"
  using mget_numeric [OF assms] mget_numeric_short [OF assms(1) _ assms(2)] by (fastforce simp: not_le Let_def)

theorem numeric_entry_witness:
  "\<exists>st'. mget (match_fuel 0 env0) env0 \<lparr>c_b = elf_file, c_o = 0, c_mode = BINTEST, c_text = False, c_flip = False\<rparr>
       [0x7f, 0x45, 0x4c, 0x46, 2] 0 elf_entry
       \<lparr>st_ms = ms_elf, st_ic = 0, st_nc = 0, st_printed = False, st_needsep = False, st_first = True, st_ret = 0, st_found = False\<rparr> = Some (1, st') \<and>
     magiccheck env0 (st_ms st') elf_entry = Some (1, st_ms st')"
proof -
  let ?ctx = "\<lparr>c_b = elf_file, c_o = 0, c_mode = BINTEST, c_text = False, c_flip = False\<rparr> :: mctx"
  let ?st = "\<lparr>st_ms = ms_elf, st_ic = 0, st_nc = 0, st_printed = False, st_needsep = False, st_first = True, st_ret = 0, st_found = False\<rparr>"
  have r: "replicate 4 (0 :: u8) = [0, 0, 0, 0]" by (simp add: numeral_eq_Suc)
  have e: "m_reln elf_entry = 0x3d" "m_type elf_entry = FILE_BELONG" "ms_offset ms_elf = 0"
    by (simp_all add: elf_entry_def m0_def ms_elf_def ms0_def)
  have n: "numeric elf_entry" by (simp add: numeric_def num_width_def relations_def elf_entry_def m0_def has_def)
  have g: "can_get ?st" by (simp add: can_get_def ms_elf_def ms0_def)
  have f: "read_number elf_entry [0x7f, 0x45, 0x4c, 0x46, 2] = 0x7f454c46"
    by (simp add: read_number_def number_def num_width_def elf_entry_def m0_def has_def)
  have v: "magic_number elf_entry = 0x7f454c46"
    by (simp add: r magic_number_def elf_entry_def m0_def has_def val_q_def host_word_def)
  show ?thesis
    using numeric_entry [OF n g, of ?ctx "[0x7f, 0x45, 0x4c, 0x46, 2]" "match_fuel 0 env0" env0 0]
    by (simp add: e f v int_relation_def num_width_def)
qed

end
