(* ===== verification/Ascmagic.thy ===== *)
theory Ascmagic
  imports Softmagic_Safe Utf8 Detectors
begin

text \<open>
  Text files (\<^verbatim>\<open>src/ascmagic.c\<close>, with \<^verbatim>\<open>file_replace\<close> of \<^verbatim>\<open>src/funcs.c\<close>): the trailing NULs are trimmed, the encoding is
  found, the text is converted to UTF-8 and searched with the text entries of the magic file, and a pass over the
  characters collects what the report says about line terminators, long lines, escapes and overstriking.

  A character is a 64-bit word, as \<^verbatim>\<open>file_unichar_t\<close>; \<^verbatim>\<open>size_t\<close> positions keep their 64 bits because \<^verbatim>\<open>last_line_end\<close>
  starts at -1 and the comparison with it wraps.  Allocations succeed; \<open>None\<close> is undefined behaviour or an
  exhausted bound of the nested soft magic search.
\<close>

definition MAXLINELEN :: u64 where "MAXLINELEN = 300"

text \<open>\<open>trim_nuls\<close>: the length that is left; at least one byte stays.\<close>

fun trim_nuls :: "u8 list \<Rightarrow> nat \<Rightarrow> nat" where
  "trim_nuls buf 0 = 0"
| "trim_nuls buf (Suc n) = (if Suc n > 1 \<and> buf ! n = 0 then trim_nuls buf n else Suc n)"

subsection \<open>Replacing in the output\<close>

text \<open>The loop of \<^verbatim>\<open>file_replace\<close>: the buffer is cut at the match and the replacement and what followed the match are
  printed.  \<open>None\<close> is a search in a null pointer, or no end.\<close>

partial_function (option) replace_loop :: "env \<Rightarrow> u8 list \<Rightarrow> u8 list \<Rightarrow> int \<Rightarrow> magic_set \<Rightarrow> (int \<times> magic_set) option" where
  "replace_loop env pat rep nm ms =
     (case ms_buf ms of
        None \<Rightarrow> None
      | Some b \<Rightarrow>
          (case e_regexec env pat False b of
             Rx_match so eo \<Rightarrow>
               (case file_printf (ms\<lparr>ms_buf := Some (take (nat so) b)\<rparr>) (rep @ (if eo \<noteq> 0 then drop (nat eo) b else [])) of
                  (r, ms) \<Rightarrow> if r = -1 then Some (nm, ms) else replace_loop env pat rep (nm + 1) ms)
           | _ \<Rightarrow> Some (nm, ms)))"

definition file_replace :: "env \<Rightarrow> magic_set \<Rightarrow> u8 list \<Rightarrow> u8 list \<Rightarrow> (int \<times> magic_set) option" where
  "file_replace env ms pat rep =
     (case file_regcomp env ms pat False of (nm, ms) \<Rightarrow>
        if nm \<noteq> 0 then Some (-1, ms) else replace_loop env pat rep nm ms)"

subsection \<open>The pass over the characters\<close>

record text_stats =
  ts_escapes :: bool
  ts_backspace :: bool
  ts_seen_cr :: bool
  ts_crlf :: nat
  ts_lf :: nat
  ts_cr :: nat
  ts_nel :: nat
  ts_last :: u64
  ts_long :: u64

definition stats0 :: text_stats where
  "stats0 = \<lparr>ts_escapes = False, ts_backspace = False, ts_seen_cr = False, ts_crlf = 0, ts_lf = 0, ts_cr = 0, ts_nel = 0,
     ts_last = -1, ts_long = 0\<rparr>"

text \<open>The body of the loop at position \<open>i\<close> with character \<open>c\<close>, one assignment after the other.\<close>

definition stats_step :: "u64 \<Rightarrow> u64 \<Rightarrow> text_stats \<Rightarrow> text_stats" where
  "stats_step i c t =
     (let t = (if c = 0x0a
               then (if ts_seen_cr t then t\<lparr>ts_crlf := Suc (ts_crlf t)\<rparr> else t\<lparr>ts_lf := Suc (ts_lf t)\<rparr>)\<lparr>ts_last := i\<rparr>
               else if ts_seen_cr t then t\<lparr>ts_cr := Suc (ts_cr t)\<rparr> else t);
          t = t\<lparr>ts_seen_cr := (c = 0x0d)\<rparr>;
          t = (if c = 0x0d then t\<lparr>ts_last := i\<rparr> else t);
          t = (if c = 0x85 then t\<lparr>ts_nel := Suc (ts_nel t), ts_last := i\<rparr> else t);
          t = (if ts_last t + MAXLINELEN < i
               then (let ll = i - ts_last t in if ts_long t < ll then t\<lparr>ts_long := ll\<rparr> else t) else t);
          t = (if c = 0x1b then t\<lparr>ts_escapes := True\<rparr> else t)
      in if c = 0x08 then t\<lparr>ts_backspace := True\<rparr> else t)"

fun stats_loop :: "u64 \<Rightarrow> u64 list \<Rightarrow> text_stats \<Rightarrow> text_stats" where
  "stats_loop i [] t = t"
| "stats_loop i (c # us) t = stats_loop (i + 1) us (stats_step i c t)"

definition collect_stats :: "u64 list \<Rightarrow> text_stats" where
  "collect_stats us =
     (let t = stats_loop 0 us stats0 in
      if ts_seen_cr t \<and> ts_cr t = 0 \<and> ts_crlf t = 0 then t\<lparr>ts_cr := Suc (ts_cr t)\<rparr> else t)"

subsection \<open>The report\<close>

text \<open>Texts printed one after the other until one fails.\<close>

fun printfs :: "magic_set \<Rightarrow> u8 list list \<Rightarrow> bool \<times> magic_set" where
  "printfs ms [] = (True, ms)"
| "printfs ms (t # ts) = (case file_printf ms t of (r, ms) \<Rightarrow> if r = -1 then (False, ms) else printfs ms ts)"

definition terminator_texts :: "text_stats \<Rightarrow> u8 list list" where
  "terminator_texts t =
     (let crlf = (ts_crlf t \<noteq> 0); cr = (ts_cr t \<noteq> 0); lf = (ts_lf t \<noteq> 0); nel = (ts_nel t \<noteq> 0); comma = bytes_of '','' in
      if \<not> crlf \<and> \<not> cr \<and> \<not> nel \<and> \<not> lf \<or> crlf \<or> cr \<or> nel then
        [bytes_of '', with''] @
        (if \<not> crlf \<and> \<not> cr \<and> \<not> nel \<and> \<not> lf then [bytes_of '' no'']
         else
           (if crlf then [bytes_of '' CRLF''] @ (if cr \<or> lf \<or> nel then [comma] else []) else []) @
           (if cr then [bytes_of '' CR''] @ (if lf \<or> nel then [comma] else []) else []) @
           (if lf then [bytes_of '' LF''] @ (if nel then [comma] else []) else []) @
           (if nel then [bytes_of '' NEL''] else [])) @
        [bytes_of '' line terminators'']
      else [])"

definition report_texts :: "u8 list \<Rightarrow> u8 list \<Rightarrow> bool \<Rightarrow> text_stats \<Rightarrow> u8 list list" where
  "report_texts code type executable t =
     [code, bytes_of '' '' @ type] @
     (if executable then [bytes_of '' executable''] else []) @
     (if ts_long t \<noteq> 0 then [bytes_of '', with very long lines ('' @ show_nat (unat (ts_long t)) @ bytes_of '')''] else []) @
     terminator_texts t @
     (if ts_escapes t then [bytes_of '', with escape sequences''] else []) @
     (if ts_backspace t then [bytes_of '', with overstriking''] else [])"

text \<open>What soft magic printed is made to read on: its final \<^verbatim>\<open>text\<close> becomes a comma.  The result is the flag
  \<^verbatim>\<open>executable\<close>, or \<open>Inl\<close> for \<^verbatim>\<open>goto done\<close>.\<close>

definition join_output :: "env \<Rightarrow> magic_set \<Rightarrow> ((unit + bool) \<times> magic_set) option" where
  "join_output env ms =
     (case file_replace env ms (bytes_of '' text$'') (bytes_of '', '') of
        None \<Rightarrow> None
      | Some (n, ms) \<Rightarrow>
          if n = -1 then Some (Inl (), ms)
          else if n \<noteq> 0 then Some (Inr False, ms)
          else (case file_replace env ms (bytes_of '' text executable$'') (bytes_of '', '') of
                  None \<Rightarrow> None
                | Some (n, ms) \<Rightarrow>
                    if n = -1 then Some (Inl (), ms)
                    else if n \<noteq> 0 then Some (Inr True, ms)
                    else (case file_printf ms (bytes_of '', '') of (r, ms) \<Rightarrow>
                            Some (if r = -1 then Inl () else Inr False, ms))))"

text \<open>From the pass over the characters to the end; \<open>rv\<close> is the answer when a print fails.\<close>

definition asc_report ::
  "env \<Rightarrow> magic_set \<Rightarrow> u64 list \<Rightarrow> u8 list \<Rightarrow> u8 list \<Rightarrow> int \<Rightarrow> bool \<Rightarrow> (int \<times> magic_set) option" where
  "asc_report env ms ubuf code type rv need_separator =
     (let t = collect_stats ubuf; mime = ms_flags ms AND MAGIC_MIME; len = ms_blen ms in
      if type = bytes_of ''binary'' then Some (0, ms)
      else if mime \<noteq> 0 then
        (if has mime MAGIC_MIME_TYPE then
           (if len \<noteq> 0 \<and> \<not> has (ms_flags ms) MAGIC_CONTINUE then Some (1, ms)
            else (case (if len \<noteq> 0 \<and> need_separator then file_separator ms else (0, ms)) of (r, ms) \<Rightarrow>
                    if r = -1 then Some (rv, ms)
                    else (case file_printf ms (bytes_of ''text/plain'') of (r, ms) \<Rightarrow> Some (if r = -1 then rv else 1, ms))))
         else Some (1, ms))
      else
        (case (if len \<noteq> 0 then join_output env ms else Some (Inr False, ms)) of
           None \<Rightarrow> None
         | Some (Inl _, ms) \<Rightarrow> Some (rv, ms)
         | Some (Inr executable, ms) \<Rightarrow>
             (case printfs ms (report_texts code type executable t) of (ok, ms) \<Rightarrow> Some (if ok then 1 else rv, ms))))"

definition file_ascmagic_with_encoding ::
  "nat \<Rightarrow> env \<Rightarrow> magic_set \<Rightarrow> buffer \<Rightarrow> u64 list \<Rightarrow> u8 list \<Rightarrow> u8 list \<Rightarrow> bool \<Rightarrow> (int \<times> magic_set) option" where
  "file_ascmagic_with_encoding fuel env ms b ubuf code type text =
     (let nbytes = trim_nuls (b_fbuf b) (length (b_fbuf b)); other = has (ms_flags ms) (MAGIC_APPLE OR MAGIC_EXTENSION) in
      if nbytes \<le> 1 then Some (0, ms)
      else if ubuf \<noteq> [] \<and> \<not> has (ms_flags ms) MAGIC_NO_CHECK_SOFT then
        (if (2 ^ 64 - 1) div 6 < length ubuf then Some (-1, ms)
         else case encode_utf8 (6 * length ubuf) ubuf of
             None \<Rightarrow> Some (0, ms)
           | Some utf8_buf \<Rightarrow>
               (case file_softmagic fuel env ms (b\<lparr>b_fbuf := utf8_buf\<rparr>) 0 0 TEXTTEST text of
                  None \<Rightarrow> None
                | Some (r, st) \<Rightarrow>
                    (let ms = st_ms st; rv = (if r = 0 then -1 else r) in
                     if other then Some (if rv = -1 then 0 else 1, ms)
                     else asc_report env ms ubuf code type rv (r \<noteq> 0))))
      else if other then Some (0, ms)
      else asc_report env ms ubuf code type (-1) False)"

text \<open>The buffer is trimmed, but not to an odd length when it was even.\<close>

definition asc_trim :: "u8 list \<Rightarrow> u8 list" where
  "asc_trim fbuf =
     (let n = trim_nuls fbuf (length fbuf) in take (if odd n \<and> even (length fbuf) then Suc n else n) fbuf)"

definition file_ascmagic :: "nat \<Rightarrow> env \<Rightarrow> bool \<Rightarrow> buffer \<Rightarrow> magic_set \<Rightarrow> (int \<times> magic_set) option" where
  "file_ascmagic fuel env text b ms =
     (let bb = b\<lparr>b_fbuf := asc_trim (b_fbuf b)\<rparr>;
          e = file_encoding (ms_encoding_max ms) (Some (b_fbuf bb))
                \<lparr>e_rv = 0, e_ubuf = [], e_code = [], e_code_mime = [], e_type = []\<rparr> in
      if e_rv e = 0 then Some (0, ms)
      else file_ascmagic_with_encoding fuel env ms bb (e_ubuf e) (bytes_of (e_code e)) (bytes_of (e_type e)) text)"

subsection \<open>Line terminators\<close>

text \<open>The pairs of a character and the one before it; the first has a NUL before it.\<close>

definition CR :: u64 where "CR = 0x0d"
definition LF :: u64 where "LF = 0x0a"
definition NEL :: u64 where "NEL = 0x85"

abbreviation after :: "u64 \<Rightarrow> u64 list \<Rightarrow> (u64 \<times> u64) list" where
  "after p us \<equiv> zip (p # us) us"

definition count :: "('a \<Rightarrow> bool) \<Rightarrow> 'a list \<Rightarrow> nat" where
  "count P xs = length (filter P xs)"

lemma count_simps [simp]: "count P [] = 0" "count P (x # xs) = (if P x then Suc (count P xs) else count P xs)"
  by (simp_all add: count_def)

lemma stats_step_counts:
  assumes "ts_seen_cr t \<longleftrightarrow> p = CR"
  shows "ts_seen_cr (stats_step i c t) \<longleftrightarrow> c = CR"
    "ts_crlf (stats_step i c t) = ts_crlf t + (if p = CR \<and> c = LF then 1 else 0)"
    "ts_lf (stats_step i c t) = ts_lf t + (if p \<noteq> CR \<and> c = LF then 1 else 0)"
    "ts_cr (stats_step i c t) = ts_cr t + (if p = CR \<and> c \<noteq> LF then 1 else 0)"
    "ts_nel (stats_step i c t) = ts_nel t + (if c = NEL then 1 else 0)"
    "ts_escapes (stats_step i c t) = (ts_escapes t \<or> c = 0x1b)"
    "ts_backspace (stats_step i c t) = (ts_backspace t \<or> c = 0x08)"
  using assms by (auto simp: stats_step_def Let_def CR_def LF_def NEL_def)

lemma stats_loop_counts:
  assumes "ts_seen_cr t \<longleftrightarrow> p = CR"
  shows "(ts_seen_cr (stats_loop i us t) \<longleftrightarrow> last (p # us) = CR) \<and>
    ts_crlf (stats_loop i us t) = ts_crlf t + count (\<lambda>(a, b). a = CR \<and> b = LF) (after p us) \<and>
    ts_lf (stats_loop i us t) = ts_lf t + count (\<lambda>(a, b). a \<noteq> CR \<and> b = LF) (after p us) \<and>
    ts_cr (stats_loop i us t) = ts_cr t + count (\<lambda>(a, b). a = CR \<and> b \<noteq> LF) (after p us) \<and>
    ts_nel (stats_loop i us t) = ts_nel t + count (\<lambda>c. c = NEL) us \<and>
    ts_escapes (stats_loop i us t) = (ts_escapes t \<or> 0x1b \<in> set us) \<and>
    ts_backspace (stats_loop i us t) = (ts_backspace t \<or> 0x08 \<in> set us)"
  using assms
proof (induction us arbitrary: i t p)
  case (Cons c us)
  from Cons.IH [OF stats_step_counts(1) [OF Cons.prems], of "i + 1"] show ?case
    by (auto simp: stats_step_counts [OF Cons.prems] split: if_splits)
qed simp

subsection \<open>Long lines\<close>

definition terminator :: "u64 \<Rightarrow> bool" where
  "terminator c \<longleftrightarrow> c = CR \<or> c = LF \<or> c = NEL"

text \<open>The length of the longest line, \<open>n\<close> characters of the current one having been read.\<close>

fun longest :: "nat \<Rightarrow> u64 list \<Rightarrow> nat" where
  "longest n [] = n"
| "longest n (c # us) = (if terminator c then max n (longest 0 us) else longest (Suc n) us)"

definition too_long_line :: "nat \<Rightarrow> nat" where
  "too_long_line n = (if 300 < n then n else 0)"

lemma longest_ge: "n \<le> longest n us"
  by (induction n us rule: longest.induct) auto

lemma too_long_mono: "m \<le> n \<Longrightarrow> too_long_line m \<le> too_long_line n"
  by (simp add: too_long_line_def)

lemma too_long_max: "too_long_line (max m n) = max (too_long_line m) (too_long_line n)"
  by (simp add: too_long_line_def max_def)

text \<open>The position of the last line end is kept so that the current line has \<open>n\<close> characters.\<close>

definition line_at :: "nat \<Rightarrow> nat \<Rightarrow> text_stats \<Rightarrow> bool" where
  "line_at k n t \<longleftrightarrow> n \<le> k \<and> ts_last t = word_of_nat k - 1 - word_of_nat n \<and> too_long_line n \<le> unat (ts_long t)"

lemma line_words:
  assumes "n \<le> k" "k + 301 < 2 ^ 64"
  shows "(word_of_nat k - 1 - word_of_nat n) + MAXLINELEN < (word_of_nat k :: u64) \<longleftrightarrow> 300 < Suc n"
    "word_of_nat k - (word_of_nat k - 1 - word_of_nat n) = (word_of_nat (Suc n) :: u64)"
    "unat (word_of_nat (Suc n) :: u64) = Suc n"
    "\<not> word_of_nat k + MAXLINELEN < (word_of_nat k :: u64)"
proof -
  have u: "unat (word_of_nat j :: u64) = j" if "j < 2 ^ 64" for j using that by (intro unat_word_of_nat) simp
  have "(word_of_nat k - 1 - word_of_nat n) + MAXLINELEN = (word_of_nat (k + 299 - n) :: u64)"
    using assms(1) by (simp add: MAXLINELEN_def of_nat_diff)
  moreover have "unat (word_of_nat (k + 299 - n) :: u64) = k + 299 - n" using assms by (intro u) simp
  moreover have "unat (word_of_nat k :: u64) = k" using assms by (intro u) simp
  ultimately show "(word_of_nat k - 1 - word_of_nat n) + MAXLINELEN < (word_of_nat k :: u64) \<longleftrightarrow> 300 < Suc n"
    using assms(1) by (simp only: word_less_nat_alt) linarith
  have "word_of_nat k + MAXLINELEN = (word_of_nat (k + 300) :: u64)" by (simp add: MAXLINELEN_def)
  moreover have "unat (word_of_nat (k + 300) :: u64) = k + 300" "unat (word_of_nat k :: u64) = k" using assms by (simp_all only: u)
  ultimately show "\<not> word_of_nat k + MAXLINELEN < (word_of_nat k :: u64)" by (simp only: word_less_nat_alt)
  show "word_of_nat k - (word_of_nat k - 1 - word_of_nat n) = (word_of_nat (Suc n) :: u64)" by simp
  show "unat (word_of_nat (Suc n) :: u64) = Suc n" using assms by (intro u) simp
qed

lemma stats_step_line:
  assumes l: "line_at k n t" and k: "k + 301 < 2 ^ 64"
  shows "line_at (Suc k) (if terminator c then 0 else Suc n) (stats_step (word_of_nat k) c t) \<and>
    unat (ts_long (stats_step (word_of_nat k) c t)) =
      max (unat (ts_long t)) (too_long_line (if terminator c then 0 else Suc n))"
proof -
  have n: "n \<le> k" and la: "ts_last t = word_of_nat k - 1 - word_of_nat n" using l by (simp_all add: line_at_def)
  note w = line_words [OF n k]
  let ?t = "stats_step (word_of_nat k) c t"
  have last: "ts_last ?t = (if terminator c then word_of_nat k else ts_last t)"
    by (simp add: stats_step_def Let_def terminator_def CR_def LF_def NEL_def)
  have long: "ts_long ?t = (if ts_last ?t + MAXLINELEN < word_of_nat k \<and> ts_long t < word_of_nat k - ts_last ?t
      then word_of_nat k - ts_last ?t else ts_long t)"
    by (simp add: stats_step_def Let_def)
  show ?thesis
  proof (cases "terminator c")
    case True
    then show ?thesis using w(4) by (simp add: last long line_at_def too_long_line_def)
  next
    case False
    have "unat (ts_long ?t) = max (unat (ts_long t)) (too_long_line (Suc n))"
      using False w(1) unfolding long last la
      by (simp add: w(2) w(3) word_less_nat_alt [of "ts_long t"] too_long_line_def max_def del: of_nat_Suc)
    then show ?thesis using False n last la by (simp add: line_at_def)
  qed
qed

lemma stats_loop_long:
  "line_at k n t \<Longrightarrow> k + length us + 301 < 2 ^ 64 \<Longrightarrow>
   unat (ts_long (stats_loop (word_of_nat k) us t)) = max (unat (ts_long t)) (too_long_line (longest n us))"
proof (induction us arbitrary: k n t)
  case Nil
  then show ?case by (simp add: line_at_def)
next
  case (Cons c us)
  have k: "k + 301 < 2 ^ 64" using Cons.prems(2) by simp
  note s = stats_step_line [OF Cons.prems(1) k, of c]
  have e: "stats_loop (word_of_nat k) (c # us) t = stats_loop (word_of_nat (Suc k)) us (stats_step (word_of_nat k) c t)"
    by (simp add: add.commute)
  have "too_long_line n \<le> unat (ts_long t)" using Cons.prems(1) by (simp add: line_at_def)
  moreover have "too_long_line (Suc n) \<le> too_long_line (longest (Suc n) us)" using longest_ge too_long_mono by blast
  ultimately show ?case
    unfolding e using Cons.IH [OF conjunct1 [OF s]] Cons.prems(2) conjunct2 [OF s]
    by (auto simp: too_long_max too_long_line_def max_def split: if_splits)
qed

lemma collect_stats_long:
  assumes "length us + 301 < 2 ^ 64"
  shows "unat (ts_long (collect_stats us)) = too_long_line (longest 0 us)"
proof -
  have "line_at 0 0 stats0" by (simp add: line_at_def stats0_def too_long_line_def)
  from stats_loop_long [OF this, of us] assms show ?thesis
    by (simp add: collect_stats_def Let_def stats0_def)
qed

subsection \<open>What is reported\<close>

text \<open>The kinds of line terminators of a text, in the order of the report.  A carriage return at the very end counts only
  when the text has no other and no CRLF.\<close>

definition has_crlf :: "u64 list \<Rightarrow> bool" where
  "has_crlf us \<longleftrightarrow> (\<exists>xs ys. us = xs @ [CR, LF] @ ys)"

definition has_cr :: "u64 list \<Rightarrow> bool" where
  "has_cr us \<longleftrightarrow> (\<exists>xs c ys. us = xs @ [CR, c] @ ys \<and> c \<noteq> LF)"

definition has_lf :: "u64 list \<Rightarrow> bool" where
  "has_lf us \<longleftrightarrow> (\<exists>xs ys. us = xs @ LF # ys \<and> (xs = [] \<or> last xs \<noteq> CR))"

definition line_ends :: "u64 list \<Rightarrow> u8 list list" where
  "line_ends us =
     (if has_crlf us then [bytes_of ''CRLF''] else []) @
     (if has_cr us \<or> us \<noteq> [] \<and> last us = CR \<and> \<not> has_crlf us then [bytes_of ''CR''] else []) @
     (if has_lf us then [bytes_of ''LF''] else []) @
     (if NEL \<in> set us then [bytes_of ''NEL''] else [])"

fun commas :: "u8 list list \<Rightarrow> u8 list" where
  "commas [] = []"
| "commas [x] = x"
| "commas (x # xs) = x @ bytes_of '', '' @ commas xs"

definition text_report :: "u8 list \<Rightarrow> u64 list \<Rightarrow> u8 list" where
  "text_report code us =
     code @ bytes_of '' text'' @
     (if 300 < longest 0 us then bytes_of '', with very long lines ('' @ show_nat (longest 0 us) @ bytes_of '')'' else []) @
     (if line_ends us = [] then bytes_of '', with no line terminators''
      else if line_ends us = [bytes_of ''LF''] then []
      else bytes_of '', with '' @ commas (line_ends us) @ bytes_of '' line terminators'') @
     (if 0x1b \<in> set us then bytes_of '', with escape sequences'' else []) @
     (if 0x08 \<in> set us then bytes_of '', with overstriking'' else [])"

text \<open>A pair of neighbours, and the pairs of the pass.\<close>

lemma after_pair: "(a, b) \<in> set (after p us) \<longleftrightarrow> (\<exists>xs ys. p # us = xs @ [a, b] @ ys)"
proof (induction us arbitrary: p)
  case Nil
  then show ?case by (auto simp: append_eq_Cons_conv Cons_eq_append_conv)
next
  case (Cons c us)
  have "(\<exists>xs ys. p # c # us = xs @ [a, b] @ ys) \<longleftrightarrow> (p = a \<and> c = b) \<or> (\<exists>xs ys. c # us = xs @ [a, b] @ ys)"
    by (auto simp: Cons_eq_append_conv)
  then show ?case using Cons by auto
qed

lemma count_pos: "0 < count P xs \<longleftrightarrow> (\<exists>x \<in> set xs. P x)"
  by (simp add: count_def filter_empty_conv)

lemma pair_after_nul: "p \<noteq> a \<Longrightarrow> (\<exists>xs ys. p # us = xs @ [a, b] @ ys) \<longleftrightarrow> (\<exists>xs ys. us = xs @ [a, b] @ ys)"
  by (auto simp: Cons_eq_append_conv)

lemma nul_not_CR: "0 \<noteq> CR" "CR \<noteq> LF"
  by (simp_all add: CR_def LF_def)

lemma stats_kinds:
  shows "ts_crlf (stats_loop 0 us stats0) \<noteq> 0 \<longleftrightarrow> has_crlf us"
    "ts_cr (stats_loop 0 us stats0) \<noteq> 0 \<longleftrightarrow> has_cr us"
    "ts_lf (stats_loop 0 us stats0) \<noteq> 0 \<longleftrightarrow> has_lf us"
    "ts_nel (stats_loop 0 us stats0) \<noteq> 0 \<longleftrightarrow> NEL \<in> set us"
    "ts_seen_cr (stats_loop 0 us stats0) \<longleftrightarrow> us \<noteq> [] \<and> last us = CR"
proof -
  have p: "ts_seen_cr stats0 \<longleftrightarrow> 0 = CR" by (simp add: stats0_def CR_def)
  note c = stats_loop_counts [OF p, of 0 us]
  have z: "ts_crlf stats0 = 0" "ts_cr stats0 = 0" "ts_lf stats0 = 0" "ts_nel stats0 = 0" by (simp_all add: stats0_def)
  show "ts_crlf (stats_loop 0 us stats0) \<noteq> 0 \<longleftrightarrow> has_crlf us"
    using c z pair_after_nul [OF nul_not_CR(1), of us LF] after_pair [of CR LF 0 us] by (auto simp: count_pos has_crlf_def)
  show "ts_nel (stats_loop 0 us stats0) \<noteq> 0 \<longleftrightarrow> NEL \<in> set us"
    using c z by (simp add: count_pos)
  show "ts_seen_cr (stats_loop 0 us stats0) \<longleftrightarrow> us \<noteq> [] \<and> last us = CR"
    using c nul_not_CR by auto
  have "ts_cr (stats_loop 0 us stats0) \<noteq> 0 \<longleftrightarrow> (\<exists>b. b \<noteq> LF \<and> (CR, b) \<in> set (after 0 us))"
    using c z by (auto simp: count_pos)
  also have "\<dots> \<longleftrightarrow> has_cr us"
    unfolding after_pair pair_after_nul [OF nul_not_CR(1)] has_cr_def by blast
  finally show "ts_cr (stats_loop 0 us stats0) \<noteq> 0 \<longleftrightarrow> has_cr us" .
  have "ts_lf (stats_loop 0 us stats0) \<noteq> 0 \<longleftrightarrow> (\<exists>a. a \<noteq> CR \<and> (a, LF) \<in> set (after 0 us))"
    using c z by (auto simp: count_pos)
  also have "\<dots> \<longleftrightarrow> has_lf us"
  proof -
    have e1: "(\<exists>xs ys. 0 # us = xs @ [a, LF] @ ys) \<longleftrightarrow> (a = 0 \<and> (\<exists>ys. us = LF # ys)) \<or> (\<exists>xs ys. us = xs @ [a] @ LF # ys)" for a
      by (auto simp: Cons_eq_append_conv)
    have e2: "has_lf us \<longleftrightarrow> (\<exists>ys. us = LF # ys) \<or> (\<exists>xs a ys. us = (xs @ [a]) @ LF # ys \<and> a \<noteq> CR)"
    proof
      assume "has_lf us"
      then obtain xs ys where x: "us = xs @ LF # ys" "xs = [] \<or> last xs \<noteq> CR" by (auto simp: has_lf_def)
      then show "(\<exists>ys. us = LF # ys) \<or> (\<exists>xs a ys. us = (xs @ [a]) @ LF # ys \<and> a \<noteq> CR)"
        by (cases xs rule: rev_cases) auto
    next
      assume "(\<exists>ys. us = LF # ys) \<or> (\<exists>xs a ys. us = (xs @ [a]) @ LF # ys \<and> a \<noteq> CR)"
      then show "has_lf us" unfolding has_lf_def by (metis append_Nil last_snoc)
    qed
    show ?thesis unfolding after_pair e1 e2 append_assoc using nul_not_CR(1) by blast
  qed
  finally show "ts_lf (stats_loop 0 us stats0) \<noteq> 0 \<longleftrightarrow> has_lf us" .
qed

lemma collect_kinds:
  shows "ts_crlf (collect_stats us) \<noteq> 0 \<longleftrightarrow> has_crlf us"
    "ts_cr (collect_stats us) \<noteq> 0 \<longleftrightarrow> has_cr us \<or> us \<noteq> [] \<and> last us = CR \<and> \<not> has_crlf us"
    "ts_lf (collect_stats us) \<noteq> 0 \<longleftrightarrow> has_lf us"
    "ts_nel (collect_stats us) \<noteq> 0 \<longleftrightarrow> NEL \<in> set us"
    "ts_escapes (collect_stats us) \<longleftrightarrow> 0x1b \<in> set us"
    "ts_backspace (collect_stats us) \<longleftrightarrow> 0x08 \<in> set us"
proof -
  have p: "ts_seen_cr stats0 \<longleftrightarrow> 0 = CR" by (simp add: stats0_def CR_def)
  have e: "ts_escapes (stats_loop 0 us stats0) \<longleftrightarrow> 0x1b \<in> set us" "ts_backspace (stats_loop 0 us stats0) \<longleftrightarrow> 0x08 \<in> set us"
    using stats_loop_counts [OF p, of 0 us] by (simp_all add: stats0_def)
  note k = stats_kinds [of us] e
  show "ts_crlf (collect_stats us) \<noteq> 0 \<longleftrightarrow> has_crlf us" "ts_lf (collect_stats us) \<noteq> 0 \<longleftrightarrow> has_lf us"
    "ts_nel (collect_stats us) \<noteq> 0 \<longleftrightarrow> NEL \<in> set us" "ts_escapes (collect_stats us) \<longleftrightarrow> 0x1b \<in> set us"
    "ts_backspace (collect_stats us) \<longleftrightarrow> 0x08 \<in> set us"
    unfolding k [symmetric] by (simp_all add: collect_stats_def Let_def)
  show "ts_cr (collect_stats us) \<noteq> 0 \<longleftrightarrow> has_cr us \<or> us \<noteq> [] \<and> last us = CR \<and> \<not> has_crlf us"
    using k by (cases "ts_crlf (stats_loop 0 us stats0) = 0"; cases "ts_cr (stats_loop 0 us stats0) = 0")
      (simp_all add: collect_stats_def Let_def)
qed

lemma terminator_report:
  "concat (terminator_texts (collect_stats us)) =
     (if line_ends us = [] then bytes_of '', with no line terminators''
      else if line_ends us = [bytes_of ''LF''] then []
      else bytes_of '', with '' @ commas (line_ends us) @ bytes_of '' line terminators'')"
  unfolding terminator_texts_def line_ends_def Let_def collect_kinds
  by (simp add: bytes_of_def)

lemma report_concat:
  assumes "length us + 301 < 2 ^ 64"
  shows "concat (report_texts code (bytes_of ''text'') False (collect_stats us)) = text_report code us"
proof -
  have "ts_long (collect_stats us) \<noteq> 0 \<longleftrightarrow> 300 < longest 0 us"
    using collect_stats_long [OF assms] by (simp add: too_long_line_def unat_eq_zero [symmetric] split: if_splits)
  then show ?thesis
    using collect_stats_long [OF assms] terminator_report [of us]
    by (simp add: report_texts_def text_report_def collect_kinds too_long_line_def bytes_of_def)
qed

subsection \<open>The whole test\<close>

text \<open>Printing short texts without NULs to a query without errors appends them.\<close>

lemma printfs_append:
  assumes "\<not> had_err ms" "out_ok ms" "\<forall>t \<in> set ts. length t \<le> 1024 \<and> 0 \<notin> set t" "ms_blen ms + length (concat ts) \<le> 1024 * 1024"
  shows "\<exists>ms'. printfs ms ts = (True, ms') \<and> printed ms' = printed ms @ concat ts \<and> \<not> had_err ms' \<and> out_only ms ms'"
  using assms
proof (induction ts arbitrary: ms)
  case (Cons t ts)
  let ?ms = "append_out ms t"
  have t: "length t \<le> 1024" "cstr t = t" using Cons.prems(3) by (auto simp: cstr_def takeWhile_eq_all_conv)
  have p: "file_printf ms t = (0, ?ms)" using Cons.prems t by (simp add: file_printf_def too_long_def)
  have ok: "out_ok ?ms" using Cons.prems t by (intro out_ok_append) (simp_all add: too_long_def)
  have b: "ms_blen ?ms \<le> ms_blen ms + length t"
    using Cons.prems(2) t by (auto simp: append_out_def out_ok_def split: option.splits)
  obtain ms' where "printfs ?ms ts = (True, ms')" "printed ms' = printed ?ms @ concat ts" "\<not> had_err ms'" "out_only ?ms ms'"
    using Cons.IH [of ?ms] Cons.prems ok b by auto
  moreover have "printed ?ms = printed ms @ t" using t by (simp add: printed_append)
  moreover have "out_only ms ms'" using out_only_trans [OF out_only_append] calculation(4) by blast
  ultimately show ?case using p by simp
qed simp

lemma file_encoding_code:
  "length (bytes_of (e_code (file_encoding mx (Some b) e))) \<le> 64 \<and> 0 \<notin> set (bytes_of (e_code (file_encoding mx (Some b) e)))"
  by (auto simp: file_encoding_def Let_def bytes_of_def split: prod.splits)

text \<open>A plain query on text that no entry of the magic file knows: the flags ask for the description only, nothing has been
  printed, and the soft magic search is switched off or finds and prints nothing.\<close>

definition plain_query :: "magic_set \<Rightarrow> bool" where
  "plain_query ms \<longleftrightarrow> ms_flags ms AND (MAGIC_MIME OR MAGIC_APPLE OR MAGIC_EXTENSION) = 0 \<and>
     \<not> had_err ms \<and> ms_buf ms = None \<and> ms_blen ms = 0"

definition soft_finds_nothing :: "nat \<Rightarrow> env \<Rightarrow> magic_set \<Rightarrow> buffer \<Rightarrow> u64 list \<Rightarrow> bool \<Rightarrow> bool" where
  "soft_finds_nothing fuel env ms b us tx \<longleftrightarrow>
     us = [] \<or> has (ms_flags ms) MAGIC_NO_CHECK_SOFT \<or>
     (\<exists>utf8 st. encode_utf8 (6 * length us) us = Some utf8 \<and>
        file_softmagic fuel env ms (b\<lparr>b_fbuf := utf8\<rparr>) 0 0 TEXTTEST tx = Some (0, st) \<and> plain_query (st_ms st))"

lemma and_zero_sub: "w AND a = 0 \<Longrightarrow> b AND a = b \<Longrightarrow> w AND b = (0 :: 'a::len word)"
  by (metis and.assoc and.commute and_zero_eq)

lemma plain_flags:
  assumes "plain_query ms"
  shows "ms_flags ms AND MAGIC_MIME = 0" "\<not> has (ms_flags ms) (MAGIC_APPLE OR MAGIC_EXTENSION)"
proof -
  have z: "ms_flags ms AND (MAGIC_MIME OR MAGIC_APPLE OR MAGIC_EXTENSION) = 0" using assms by (simp add: plain_query_def)
  show "ms_flags ms AND MAGIC_MIME = 0" by (rule and_zero_sub [OF z]) simp
  have "ms_flags ms AND (MAGIC_APPLE OR MAGIC_EXTENSION) = 0" by (rule and_zero_sub [OF z]) simp
  then show "\<not> has (ms_flags ms) (MAGIC_APPLE OR MAGIC_EXTENSION)" by (simp add: has_def)
qed

lemma dec_digits_no_nul: "0 \<notin> set (dec_digits k n)"
proof (induction k arbitrary: n)
  case (Suc k)
  have "word_of_nat (48 + n mod 10) \<noteq> (0 :: u8)"
    using unat_word_of_nat [of "48 + n mod 10", where 'a = 8] by (auto simp: unat_eq_zero [symmetric])
  then show ?case using Suc by (simp add: Let_def)
qed simp

lemma report_short:
  assumes "length code \<le> 64" "0 \<notin> set code"
  shows "\<forall>t \<in> set (report_texts code (bytes_of ''text'') False s). length t \<le> 1024 \<and> 0 \<notin> set t"
    "length (concat (report_texts code (bytes_of ''text'') False s)) \<le> 1024"
proof -
  have n: "length (show_nat k) \<le> 20" "0 \<notin> set (show_nat k)" for k
    by (rule length_show_nat) (simp add: show_nat_def dec_digits_no_nul)
  have b: "0 \<notin> set (bytes_of w)" if "list_all (\<lambda>c. of_char c \<noteq> (0 :: u8)) w" for w
    using that by (auto simp: bytes_of_def list_all_iff)
  show "\<forall>t \<in> set (report_texts code (bytes_of ''text'') False s). length t \<le> 1024 \<and> 0 \<notin> set t"
    using assms n(1) [of "unat (ts_long s)"] n(2) by (auto simp: report_texts_def terminator_texts_def Let_def b)
  show "length (concat (report_texts code (bytes_of ''text'') False s)) \<le> 1024"
    using assms n(1) [of "unat (ts_long s)"] by (simp add: report_texts_def terminator_texts_def Let_def)
qed

lemma asc_report_plain:
  assumes q: "plain_query ms" and c: "length code \<le> 64" "0 \<notin> set code" and us: "length us + 301 < 2 ^ 64"
  shows "\<exists>ms'. asc_report env ms us code (bytes_of ''text'') rv nsep = Some (1, ms') \<and> printed ms' = text_report code us \<and> out_only ms ms'"
proof -
  have ok: "out_ok ms" "\<not> had_err ms" "printed ms = []" "ms_blen ms = 0" using q by (simp_all add: plain_query_def out_ok_def printed_def)
  let ?ts = "report_texts code (bytes_of ''text'') False (collect_stats us)"
  obtain ms' where "printfs ms ?ts = (True, ms')" "printed ms' = printed ms @ concat ?ts" "out_only ms ms'"
    using printfs_append [OF ok(2,1) report_short(1) [OF c], of "collect_stats us"] report_short(2) [OF c, of "collect_stats us"] ok(4) by auto
  then show ?thesis
    using report_concat [OF us, of code] plain_flags [OF q] ok by (simp add: asc_report_def Let_def bytes_of_def)
qed

lemma with_encoding_plain:
  assumes q: "plain_query ms" and c: "length code \<le> 64" "0 \<notin> set code" and us: "length us < 2 ^ 60"
    and b: "1 < trim_nuls (b_fbuf b) (length (b_fbuf b))" and s: "soft_finds_nothing fuel env ms b us tx"
  shows "\<exists>ms'. file_ascmagic_with_encoding fuel env ms b us code (bytes_of ''text'') tx = Some (1, ms') \<and> printed ms' = text_report code us"
proof (cases "us \<noteq> [] \<and> \<not> has (ms_flags ms) MAGIC_NO_CHECK_SOFT")
  case True
  then obtain utf8 st where e: "encode_utf8 (6 * length us) us = Some utf8"
      "file_softmagic fuel env ms (b\<lparr>b_fbuf := utf8\<rparr>) 0 0 TEXTTEST tx = Some (0, st)" "plain_query (st_ms st)"
    using s by (auto simp: soft_finds_nothing_def)
  obtain ms' where "asc_report env (st_ms st) us code (bytes_of ''text'') (-1) False = Some (1, ms')" "printed ms' = text_report code us"
    using asc_report_plain [OF e(3) c, of us env "-1" False] us by auto
  then show ?thesis
    using True e b us plain_flags(2) [OF q] by (simp add: file_ascmagic_with_encoding_def Let_def)
next
  case False
  obtain ms' where "asc_report env ms us code (bytes_of ''text'') (-1) False = Some (1, ms')" "printed ms' = text_report code us"
    using asc_report_plain [OF q c, of us env "-1" False] us by auto
  moreover have "file_ascmagic_with_encoding fuel env ms b us code (bytes_of ''text'') tx = asc_report env ms us code (bytes_of ''text'') (-1) False"
    unfolding file_ascmagic_with_encoding_def Let_def using False b plain_flags(2) [OF q] by (simp only: if_False simp_thms not_le [symmetric])
  ultimately show ?thesis by simp
qed

definition enc0 :: enc where
  "enc0 = \<lparr>e_rv = 0, e_ubuf = [], e_code = [], e_code_mime = [], e_type = []\<rparr>"

text \<open>C17.  What \<^verbatim>\<open>file\<close> says about a text that no entry of the magic file recognises, in a plain query: the name of the
  encoding and \<^verbatim>\<open>text\<close>; the length of the longest line when it exceeds 300 characters; the kinds of line terminators,
  each named once in the order CRLF, CR, LF, NEL, or that there are none, but nothing when all are LF; and whether there are
  escape sequences or backspaces.\<close>

theorem ascmagic_text_report:
  assumes "plain_query ms" and "1 < trim_nuls (asc_trim (b_fbuf b)) (length (asc_trim (b_fbuf b)))"
    and "e = file_encoding (ms_encoding_max ms) (Some (asc_trim (b_fbuf b))) enc0" and "e_rv e \<noteq> 0" and "e_type e = ''text''"
    and "length (e_ubuf e) < 2 ^ 60" and "soft_finds_nothing fuel env ms (b\<lparr>b_fbuf := asc_trim (b_fbuf b)\<rparr>) (e_ubuf e) tx"
  shows "\<exists>ms'. file_ascmagic fuel env tx b ms = Some (1, ms') \<and> printed ms' = text_report (bytes_of (e_code e)) (e_ubuf e)"
proof -
  have c: "length (bytes_of (e_code e)) \<le> 64" "0 \<notin> set (bytes_of (e_code e))"
    unfolding assms(3) using file_encoding_code by blast+
  have "file_ascmagic fuel env tx b ms = file_ascmagic_with_encoding fuel env ms (b\<lparr>b_fbuf := asc_trim (b_fbuf b)\<rparr>) (e_ubuf e)
      (bytes_of (e_code e)) (bytes_of ''text'') tx"
    using assms(3-5) by (simp add: file_ascmagic_def Let_def enc0_def)
  with with_encoding_plain [OF assms(1) c assms(6) _ assms(7)] assms(2) show ?thesis by simp
qed

definition dos_text :: buffer where
  "dos_text = \<lparr>b_fbuf = bytes_of ''hi'' @ [0x0d, 0x0a, 0x41, 0x0a], b_fd = -1, b_regular = False, b_file = None\<rparr>"

theorem ascmagic_text_report_witness:
  "\<exists>ms'. file_ascmagic 0 env0 True dos_text (ms0\<lparr>ms_flags := MAGIC_NO_CHECK_SOFT, ms_encoding_max := 99\<rparr>) = Some (1, ms') \<and>
     printed ms' = bytes_of ''ASCII text, with CRLF, LF line terminators''"
proof -
  let ?ms = "ms0\<lparr>ms_flags := MAGIC_NO_CHECK_SOFT, ms_encoding_max := 99\<rparr>"
  let ?e = "file_encoding 99 (Some (asc_trim (b_fbuf dos_text))) enc0"
  let ?us = "[0x68, 0x69, 0x0d, 0x0a, 0x41, 0x0a] :: u64 list"
  have t: "asc_trim (b_fbuf dos_text) = b_fbuf dos_text" by code_simp
  have e: "e_rv ?e = 1" "e_type ?e = ''text''" "e_ubuf ?e = ?us" "e_code ?e = ''ASCII''" by code_simp+
  have l: "longest 0 ?us \<le> 300" by code_simp
  have k: "has_crlf ?us" "\<not> has_cr ?us"
    by (auto simp: has_crlf_def has_cr_def CR_def LF_def Cons_eq_append_conv append_eq_Cons_conv)
  have "has_lf ?us"
    unfolding has_lf_def by (rule exI [of _ "[0x68, 0x69, 0x0d, 0x0a, 0x41]"], rule exI [of _ "[]"]) (simp add: CR_def LF_def)
  have "text_report (bytes_of ''ASCII'') ?us = bytes_of ''ASCII text, with CRLF, LF line terminators''"
    using l k \<open>has_lf ?us\<close> by (simp add: text_report_def line_ends_def NEL_def CR_def bytes_of_def)
  moreover have "plain_query ?ms" by (simp add: plain_query_def ms0_def had_err_def has_def)
  moreover have "1 < trim_nuls (asc_trim (b_fbuf dos_text)) (length (asc_trim (b_fbuf dos_text)))" by code_simp
  moreover have "soft_finds_nothing 0 env0 ?ms b us True" for b us by (simp add: soft_finds_nothing_def has_def)
  ultimately show ?thesis
    using ascmagic_text_report [of ?ms dos_text ?e 0 env0 True] e by simp
qed

end
