(* ===== verification/Magic_Db.thy ===== *)
theory Magic_Db
  imports Values
begin

text \<open>
  The compiled magic database (\<^verbatim>\<open>src/apprentice.c\<close>): the bytes of a \<^verbatim>\<open>struct magic\<close>, the file that
  \<^verbatim>\<open>apprentice_compile\<close> writes, its name (\<^verbatim>\<open>mkdbname\<close>), and \<^verbatim>\<open>check_buffer\<close>, which checks a file that was read
  and swaps the entries of one written on a host of the other byte order (\<^verbatim>\<open>byteswap\<close>, \<^verbatim>\<open>bs1\<close>).

  \<open>big\<close> is the byte order of the host that writes; the host that reads is little-endian, as everywhere in the
  model.  Reading and writing the file are not modelled: the file is the list of its bytes.
\<close>

subsection \<open>The layout of an entry\<close>

abbreviation (input) FILE_MAGICSIZE :: nat where "FILE_MAGICSIZE \<equiv> 432"
abbreviation (input) MAXDESC :: nat where "MAXDESC \<equiv> 64"
abbreviation (input) MAXMIME :: nat where "MAXMIME \<equiv> 80"
abbreviation (input) MAXEXT :: nat where "MAXEXT \<equiv> 120"
abbreviation (input) MAGIC_SETS :: nat where "MAGIC_SETS \<equiv> 2"
definition MAGICNO :: u32 where "MAGICNO = 0xF11E041C"
definition VERSIONNO :: u32 where "VERSIONNO = 21"

text \<open>The arrays of an entry have their declared sizes.\<close>

definition sized :: "magic \<Rightarrow> bool" where
  "sized m \<longleftrightarrow> length (m_value m) = MAXstring \<and> length (m_desc m) = MAXDESC \<and> length (m_mimetype m) = MAXMIME \<and>
     length (m_apple m) = 8 \<and> length (m_ext m) = MAXEXT"

text \<open>The union \<^verbatim>\<open>_u\<close> holds two 32-bit words for the string types and one 64-bit word for the others.\<close>

definition u_bytes :: "bool \<Rightarrow> magic \<Rightarrow> u8 list" where
  "u_bytes big m = (if IS_STRING (m_type m) then host_bytes big 4 (str_range m) @ host_bytes big 4 (str_flags m)
     else host_bytes big 8 (m_u m))"

definition struct_bytes :: "bool \<Rightarrow> magic \<Rightarrow> u8 list" where
  "struct_bytes big m =
     host_bytes big 2 (m_flag m) @
     [m_cont_level m, m_factor m, m_reln m, m_vallen m, m_type m, m_in_type m, m_in_op m, m_mask_op m, m_cond m, m_factor_op m] @
     host_bytes big 4 (m_offset m) @ host_bytes big 4 (m_in_offset m) @ host_bytes big 4 (m_lineno m) @
     u_bytes big m @ m_value m @ m_desc m @ m_mimetype m @ m_apple m @ m_ext m"

definition chunk :: "nat \<Rightarrow> nat \<Rightarrow> u8 list \<Rightarrow> u8 list" where
  "chunk off len bs = take len (drop off bs)"

definition struct_magic :: "u8 list \<Rightarrow> magic" where
  "struct_magic bs =
     \<lparr>m_flag = host_word False (chunk 0 2 bs), m_cont_level = bs ! 2, m_factor = bs ! 3, m_reln = bs ! 4, m_vallen = bs ! 5,
      m_type = bs ! 6, m_in_type = bs ! 7, m_in_op = bs ! 8, m_mask_op = bs ! 9, m_cond = bs ! 10, m_factor_op = bs ! 11,
      m_offset = host_word False (chunk 12 4 bs), m_in_offset = host_word False (chunk 16 4 bs),
      m_lineno = host_word False (chunk 20 4 bs), m_u = host_word False (chunk 24 8 bs),
      m_value = chunk 32 128 bs, m_desc = chunk 160 64 bs, m_mimetype = chunk 224 80 bs, m_apple = chunk 304 8 bs,
      m_ext = chunk 312 120 bs\<rparr>"

subsection \<open>Swapping the byte order\<close>

text \<open>Storing into the two halves of the union.\<close>

definition set_str :: "u32 \<Rightarrow> u32 \<Rightarrow> magic \<Rightarrow> magic" where
  "set_str rng fl m = m\<lparr>m_u := push_bit 32 (ucast fl) OR ucast rng\<rparr>"

definition bs1 :: "magic \<Rightarrow> magic" where
  "bs1 m =
     (let m = m\<lparr>m_flag := file_swap2 False (m_flag m), m_offset := file_swap4 False (m_offset m),
                m_in_offset := file_swap4 False (m_in_offset m), m_lineno := file_swap4 False (m_lineno m)\<rparr>
      in if IS_STRING (m_type m) then set_str (file_swap4 False (str_range m)) (file_swap4 False (str_flags m)) m
         else m\<lparr>m_value := put_q (file_swap8 False (val_q (m_value m))) (m_value m), m_u := file_swap8 False (m_u m)\<rparr>)"

definition byteswap :: "magic list \<Rightarrow> magic list" where
  "byteswap ml = map bs1 ml"

subsection \<open>Writing\<close>

text \<open>\<^verbatim>\<open>apprentice_compile\<close> with every write successful: the header, padded to the size of an entry, and the two
  arrays.\<close>

definition db_header :: "bool \<Rightarrow> u32 \<Rightarrow> u32 \<Rightarrow> u8 list" where
  "db_header big n0 n1 =
     (let h = host_bytes big 4 MAGICNO @ host_bytes big 4 VERSIONNO @ host_bytes big 4 n0 @ host_bytes big 4 n1
      in h @ replicate (FILE_MAGICSIZE - length h) 0)"

definition apprentice_compile :: "bool \<Rightarrow> magic list \<Rightarrow> magic list \<Rightarrow> u8 list" where
  "apprentice_compile big magic0 magic1 =
     db_header big (word_of_nat (length magic0)) (word_of_nat (length magic1)) @
     concat (map (struct_bytes big) magic0) @ concat (map (struct_bytes big) magic1)"

text \<open>\<^verbatim>\<open>mkdbname\<close>: \<open>readable\<close> is \<^verbatim>\<open>access(buf, R_OK)\<close>.  The loops that look for the suffix compare from the
  terminator backwards.\<close>

definition dot_mgc :: "u8 list" where "dot_mgc = bytes_of ''.mgc''"

definition base_name :: "u8 list \<Rightarrow> u8 list" where
  "base_name fn = (if 0x2f \<in> set fn then rev (takeWhile (\<lambda>c. c \<noteq> 0x2f) (rev fn)) else fn)"

definition cut_mgc :: "u8 list \<Rightarrow> u8 list" where
  "cut_mgc fn = (if length fn \<ge> 4 \<and> drop (length fn - 4) fn = dot_mgc then take (length fn - 4) fn else fn)"

fun contains :: "u8 list \<Rightarrow> u8 list \<Rightarrow> bool" where
  "contains pat [] = (pat = [])"
| "contains pat (c # s) = (take (length pat) (c # s) = pat \<or> contains pat s)"

definition mkdbname :: "(u8 list \<Rightarrow> bool) \<Rightarrow> magic_set \<Rightarrow> u8 list \<Rightarrow> bool \<Rightarrow> u8 list \<times> magic_set" where
  "mkdbname readable ms fn strip =
     (let fn = (if strip then base_name fn else fn); stem = cut_mgc fn;
          mime = stem @ bytes_of ''.mime'' @ dot_mgc
      in if has (ms_flags ms) MAGIC_MIME \<and> readable mime
         then (mime, ms\<lparr>ms_flags := ms_flags ms AND MAGIC_MIME_TYPE\<rparr>)
         else (stem @ dot_mgc,
               if contains (bytes_of ''.mime'') fn then ms\<lparr>ms_flags := ms_flags ms AND MAGIC_MIME_TYPE\<rparr> else ms))"

subsection \<open>Reading\<close>

text \<open>\<open>version\<close> is the version text of the program, which the build defines.\<close>

definition bad_db :: "magic_set \<Rightarrow> u8 list \<Rightarrow> (magic list \<times> magic list) option \<times> magic_set" where
  "bad_db ms msg = (None, file_error0 ms msg)"

definition quoted :: "u8 list \<Rightarrow> u8 list" where
  "quoted s = [0x60] @ s @ [0x27]"

definition show_int32 :: "u32 \<Rightarrow> u8 list" where
  "show_int32 w = (if sint w < 0 then 0x2d # show_nat (nat (- sint w)) else show_nat (nat (sint w)))"

definition word_at :: "u8 list \<Rightarrow> nat \<Rightarrow> u32" where
  "word_at p i = host_word False (chunk (4 * i) 4 p)"

definition entries_at :: "u8 list \<Rightarrow> nat \<Rightarrow> nat \<Rightarrow> magic list" where
  "entries_at p a n = map (\<lambda>i. struct_magic (chunk (FILE_MAGICSIZE * i) FILE_MAGICSIZE p)) [a..<a + n]"

definition map_sets :: "bool \<Rightarrow> u8 list \<Rightarrow> u32 \<Rightarrow> u32 \<Rightarrow> magic list \<times> magic list" where
  "map_sets swap p n0 n1 =
     (let magic0 = entries_at p 1 (unat n0); magic1 = entries_at p (1 + unat n0) (unat n1)
      in if swap then (byteswap magic0, byteswap magic1) else (magic0, magic1))"

definition too_large_msg :: "nat \<Rightarrow> u8 list \<Rightarrow> u8 list" where
  "too_large_msg i dbname = bytes_of ''nmagic['' @ show_nat i @ bytes_of ''] too large in '' @ quoted dbname"

definition check_buffer :: "u8 list \<Rightarrow> magic_set \<Rightarrow> u8 list \<Rightarrow> u8 list \<Rightarrow> (magic list \<times> magic list) option \<times> magic_set" where
  "check_buffer version ms p dbname =
     (let entries = word_of_nat (length p div FILE_MAGICSIZE) :: u32 in
      if unat entries < MAGIC_SETS
      then bad_db ms (bytes_of ''Too few magic entries '' @ show_nat (unat entries) @ bytes_of '' in '' @ quoted dbname)
      else if unat entries * FILE_MAGICSIZE \<noteq> length p
      then bad_db ms (bytes_of ''Size of '' @ quoted dbname @ [0x20] @ show_nat (length p) @
        bytes_of '' is not a multiple of '' @ show_nat FILE_MAGICSIZE)
      else if word_at p 0 \<noteq> MAGICNO \<and> file_swap4 False (word_at p 0) \<noteq> MAGICNO
      then bad_db ms (bytes_of ''bad magic in '' @ quoted dbname)
      else
        (let needsbyteswap = (word_at p 0 \<noteq> MAGICNO);
             rd = (\<lambda>i. if needsbyteswap then file_swap4 False (word_at p i) else word_at p i);
             n0 = rd 2; n1 = rd 3
         in if rd 1 \<noteq> VERSIONNO
            then bad_db ms (bytes_of ''File '' @ version @ bytes_of '' supports only version '' @ show_int32 VERSIONNO @
              bytes_of '' magic files. '' @ quoted dbname @ bytes_of '' is version '' @ show_int32 (rd 1))
            else if n0 > entries then bad_db ms (too_large_msg 0 dbname)
            else if n1 > entries then bad_db ms (too_large_msg 1 dbname)
            else if entries \<noteq> n0 + n1 + 1
            then bad_db ms (bytes_of ''Inconsistent entries in '' @ quoted dbname @ [0x20] @ show_nat (unat entries) @
              bytes_of '' != '' @ show_nat (unat (n0 + n1 + 1)))
            else (Some (map_sets needsbyteswap p n0 n1), ms)))"

subsection \<open>Layout lemmas\<close>

lemma length_u_bytes [simp]: "length (u_bytes big m) = 8"
  by (simp add: u_bytes_def)

lemma length_struct_bytes [simp]: "sized m \<Longrightarrow> length (struct_bytes big m) = FILE_MAGICSIZE"
  by (simp add: struct_bytes_def sized_def)

lemma chunk_append: "length xs \<le> off \<Longrightarrow> chunk off len (xs @ ys) = chunk (off - length xs) len ys"
  by (simp add: chunk_def)

lemma chunk_prefix: "length xs = len \<Longrightarrow> chunk 0 len (xs @ ys) = xs"
  by (simp add: chunk_def)

lemma chunk_all: "length xs = len \<Longrightarrow> chunk 0 len xs = xs"
  by (simp add: chunk_def)

lemma chunk_Cons: "0 < off \<Longrightarrow> chunk off len (x # xs) = chunk (off - 1) len xs"
  by (cases off) (simp_all add: chunk_def)

lemmas chunk_simps = chunk_append chunk_prefix chunk_all chunk_Cons

lemma host_word_rev: "host_word False (rev bs) = host_word True bs"
  by (simp add: host_word_def)

lemma two_four_eight:
  "length bs = 2 \<longleftrightarrow> (\<exists>a b. bs = [a, b])" "length bs = 4 \<longleftrightarrow> (\<exists>a b c d. bs = [a, b, c, d])"
  "length bs = 8 \<longleftrightarrow> (\<exists>a b c d e f g h. bs = [a, b, c, d, e, f, g, h])"
  by (auto simp: numeral_eq_Suc length_Suc_conv)

text \<open>Swapping a word read with one byte order gives the word read with the other.\<close>

lemma swap2_read:
  assumes "length bs = 2"
  shows "file_swap2 False (host_word False bs) = host_word True bs"
proof -
  have "host_bytes False 2 (host_word False bs :: u16) = bs"
    using host_bytes_word [where 'a = 16, of bs False] assms by simp
  moreover have "[bs ! 1, bs ! 0] = rev bs" using assms by (auto simp: two_four_eight)
  ultimately show ?thesis by (simp add: file_swap2_def Let_def host_word_rev del: One_nat_def)
qed

lemma swap4_read:
  assumes "length bs = 4"
  shows "file_swap4 False (host_word False bs) = host_word True bs"
proof -
  have "host_bytes False 4 (host_word False bs :: u32) = bs"
    using host_bytes_word [where 'a = 32, of bs False] assms by simp
  moreover have "[bs ! 3, bs ! 2, bs ! 1, bs ! 0] = rev bs" using assms by (auto simp: two_four_eight)
  ultimately show ?thesis by (simp add: file_swap4_def Let_def host_word_rev del: One_nat_def)
qed

lemma swap8_bytes:
  assumes "length bs = 8"
  shows "file_swap8 False (host_word False bs) = host_word False (rev bs)"
proof -
  have "host_bytes False 8 (host_word False bs :: u64) = bs"
    using host_bytes_word [where 'a = 64, of bs False] assms by simp
  moreover have "[bs ! 7, bs ! 6, bs ! 5, bs ! 4, bs ! 3, bs ! 2, bs ! 1, bs ! 0] = rev bs"
    using assms by (auto simp: two_four_eight)
  ultimately show ?thesis by (simp add: file_swap8_def Let_def del: One_nat_def)
qed

lemmas swap8_read = swap8_bytes [unfolded host_word_rev]

text \<open>The fields of a written entry.\<close>

lemma struct_fields:
  "chunk 0 2 (struct_bytes big m) = host_bytes big 2 (m_flag m)"
  "chunk 12 4 (struct_bytes big m) = host_bytes big 4 (m_offset m)"
  "chunk 16 4 (struct_bytes big m) = host_bytes big 4 (m_in_offset m)"
  "chunk 20 4 (struct_bytes big m) = host_bytes big 4 (m_lineno m)"
  "chunk 24 8 (struct_bytes big m) = u_bytes big m"
  by (simp_all add: struct_bytes_def chunk_simps)

lemma struct_arrays:
  assumes "sized m"
  shows "chunk 32 128 (struct_bytes big m) = m_value m" "chunk 160 64 (struct_bytes big m) = m_desc m"
    "chunk 224 80 (struct_bytes big m) = m_mimetype m" "chunk 304 8 (struct_bytes big m) = m_apple m"
    "chunk 312 120 (struct_bytes big m) = m_ext m"
  using assms by (simp_all add: struct_bytes_def chunk_simps sized_def)

lemma struct_chars:
  "struct_bytes big m ! 2 = m_cont_level m" "struct_bytes big m ! 3 = m_factor m" "struct_bytes big m ! 4 = m_reln m"
  "struct_bytes big m ! 5 = m_vallen m" "struct_bytes big m ! 6 = m_type m" "struct_bytes big m ! 7 = m_in_type m"
  "struct_bytes big m ! 8 = m_in_op m" "struct_bytes big m ! 9 = m_mask_op m" "struct_bytes big m ! 10 = m_cond m"
  "struct_bytes big m ! 11 = m_factor_op m"
  by (simp_all add: struct_bytes_def nth_append)

lemma unat_halves: "unat (ucast w :: u32) = unat (w :: u64) mod 2 ^ 32" "unat (ucast (drop_bit 32 w) :: u32) = unat w div 2 ^ 32"
proof -
  show "unat (ucast w :: u32) = unat w mod 2 ^ 32" by (simp add: unsigned_ucast_eq take_bit_eq_mod)
  have "unat w < 2 ^ LENGTH(64)" by (rule unsigned_less)
  then have "unat w div 2 ^ 32 < 2 ^ 32" by (simp add: less_mult_imp_div_less)
  then show "unat (ucast (drop_bit 32 w) :: u32) = unat w div 2 ^ 32"
    by (simp add: unsigned_ucast_eq take_bit_eq_mod unat_drop_bit)
qed

text \<open>The two halves of the union, and a union read from eight bytes.\<close>

lemma union_read:
  assumes "length xs = 4" "length ys = 4"
  shows "ucast (host_word False (xs @ ys) :: u64) = (host_word False xs :: u32)"
    "ucast (drop_bit 32 (host_word False (xs @ ys) :: u64)) = (host_word False ys :: u32)"
proof -
  have l: "le_nat xs < 2 ^ 32" "le_nat ys < 2 ^ 32" using le_nat_less [of xs] le_nat_less [of ys] assms by simp_all
  have u: "unat (host_word False (xs @ ys) :: u64) = le_nat xs + 2 ^ 32 * le_nat ys"
    using l assms by (simp add: host_word_def le_nat_append unat_word_of_nat del: of_nat_add of_nat_mult)
  have w: "unat (host_word False xs :: u32) = le_nat xs" "unat (host_word False ys :: u32) = le_nat ys"
    using l by (simp_all add: host_word_def unat_word_of_nat)
  show "ucast (host_word False (xs @ ys) :: u64) = (host_word False xs :: u32)"
    using l by (simp add: word_unat_eq_iff unat_halves u w)
  show "ucast (drop_bit 32 (host_word False (xs @ ys) :: u64)) = (host_word False ys :: u32)"
    using l by (simp add: word_unat_eq_iff unat_halves(2) u w)
qed

lemma halves_join: "push_bit 32 (ucast (ucast (drop_bit 32 w) :: u32)) OR ucast (ucast w :: u32) = (w :: u64)"
proof (rule bit_word_eqI)
  fix n :: nat
  assume n: "n < LENGTH(64)"
  show "bit (push_bit 32 (ucast (ucast (drop_bit 32 w) :: u32)) OR ucast (ucast w :: u32) :: u64) n \<longleftrightarrow> bit w n"
    using n by (cases "n < 32") (auto simp: bit_or_iff bit_push_bit_iff bit_unsigned_iff bit_drop_bit_eq dest: bit_imp_le_length)
qed

lemma union_written: "host_word False (host_bytes False 4 (str_range m) @ host_bytes False 4 (str_flags m)) = m_u m"
proof -
  let ?w = "host_word False (host_bytes False 4 (str_range m) @ host_bytes False 4 (str_flags m)) :: u64"
  have "ucast ?w = str_range m" "ucast (drop_bit 32 ?w) = str_flags m" by (simp_all add: union_read host_word_bytes)
  then show ?thesis using halves_join [of ?w] halves_join [of "m_u m"] by (simp add: str_range_def str_flags_def)
qed

subsection \<open>An entry read back\<close>

text \<open>What the entry compares the file with: the bytes of a string, or the 64-bit number that the value holds in the
  byte order of the host whose memory it is, with the rest of the value.\<close>

definition value_of :: "bool \<Rightarrow> magic \<Rightarrow> u8 list + u64 \<times> u8 list" where
  "value_of big m = (if IS_STRING (m_type m) then Inl (m_value m) else Inr (host_word big (take 8 (m_value m)), drop 8 (m_value m)))"

lemma struct_magic_same: "sized m \<Longrightarrow> struct_magic (struct_bytes False m) = m"
  by (simp add: struct_magic_def struct_fields struct_arrays struct_chars host_word_bytes u_bytes_def union_written)

lemma struct_magic_swapped:
  assumes "sized m"
  shows "bs1 (struct_magic (struct_bytes True m)) =
    (if IS_STRING (m_type m) then m else m\<lparr>m_value := rev (take 8 (m_value m)) @ drop 8 (m_value m)\<rparr>)"
proof -
  have l: "length (take 8 (m_value m)) = 8" using assms by (simp add: sized_def)
  have q: "put_q (file_swap8 False (val_q (m_value m))) (m_value m) = rev (take 8 (m_value m)) @ drop 8 (m_value m)"
    using host_bytes_word [where 'a = 64, of "rev (take 8 (m_value m))" False] l
    by (simp add: put_q_def val_q_def swap8_bytes)
  show ?thesis
    using assms
    by (simp add: bs1_def struct_magic_def Let_def struct_fields struct_arrays struct_chars swap2_read swap4_read swap8_read
        host_word_bytes u_bytes_def q set_str_def str_range_def str_flags_def union_read halves_join)
qed

text \<open>An entry as the reading host has it after the swap, if any.\<close>

definition reread :: "bool \<Rightarrow> magic \<Rightarrow> magic" where
  "reread big m = (if big then bs1 (struct_magic (struct_bytes True m)) else struct_magic (struct_bytes False m))"

lemma reread_meaning:
  assumes "sized m"
  shows "(reread big m)\<lparr>m_value := []\<rparr> = m\<lparr>m_value := []\<rparr>" "value_of False (reread big m) = value_of big m"
  using assms
  by (auto simp: reread_def struct_magic_same struct_magic_swapped value_of_def host_word_rev sized_def)

subsection \<open>A database read back\<close>

lemma chunk_concat:
  assumes "list_all (\<lambda>x. length x = k) xs" "i < length xs" "0 < k"
  shows "chunk (k * i) k (concat xs @ ys) = xs ! i"
  using assms
proof (induction xs arbitrary: i)
  case (Cons x xs)
  show ?case
  proof (cases i)
    case 0
    then show ?thesis using Cons.prems by (simp add: chunk_prefix)
  next
    case (Suc j)
    then show ?thesis using Cons.IH [of j] Cons.prems by (simp add: chunk_append)
  qed
qed simp

lemma length_db_header [simp]: "length (db_header big n0 n1) = FILE_MAGICSIZE"
  by (simp add: db_header_def Let_def)

lemma header_words:
  "chunk 0 4 (db_header big n0 n1 @ r) = host_bytes big 4 MAGICNO" "chunk 4 4 (db_header big n0 n1 @ r) = host_bytes big 4 VERSIONNO"
  "chunk 8 4 (db_header big n0 n1 @ r) = host_bytes big 4 n0" "chunk 12 4 (db_header big n0 n1 @ r) = host_bytes big 4 n1"
  by (simp_all add: db_header_def Let_def chunk_simps)

lemma entries_at_compiled:
  assumes "list_all sized ml" "a = Suc (length (concat xs) div FILE_MAGICSIZE)" "FILE_MAGICSIZE dvd length (concat xs)"
  shows "entries_at (db_header big n0 n1 @ concat xs @ concat (map (struct_bytes big) ml) @ r) a (length ml) =
    map (\<lambda>m. struct_magic (struct_bytes big m)) ml"
proof (rule nth_equalityI)
  fix i
  assume "i < length (entries_at (db_header big n0 n1 @ concat xs @ concat (map (struct_bytes big) ml) @ r) a (length ml))"
  then have i: "i < length ml" by (simp add: entries_at_def)
  have k: "list_all (\<lambda>x. length x = FILE_MAGICSIZE) (map (struct_bytes big) ml)"
    using assms(1) by (simp add: list_all_iff)
  have o: "FILE_MAGICSIZE * (a + i) - length (db_header big n0 n1 @ concat xs) = FILE_MAGICSIZE * i"
    using assms(2,3) by (simp add: algebra_simps)
  have "chunk (FILE_MAGICSIZE * (a + i)) FILE_MAGICSIZE ((db_header big n0 n1 @ concat xs) @ concat (map (struct_bytes big) ml) @ r) =
      struct_bytes big (ml ! i)"
    using chunk_concat [OF k, of i r] i o assms(2,3) by (subst chunk_append) (simp_all add: algebra_simps)
  then show "entries_at (db_header big n0 n1 @ concat xs @ concat (map (struct_bytes big) ml) @ r) a (length ml) ! i =
      map (\<lambda>m. struct_magic (struct_bytes big m)) ml ! i"
    using i by (simp add: entries_at_def)
qed (simp add: entries_at_def)

lemma word_at_header:
  "word_at (db_header big n0 n1 @ r) 0 = host_word False (host_bytes big 4 MAGICNO)"
  "word_at (db_header big n0 n1 @ r) (Suc 0) = host_word False (host_bytes big 4 VERSIONNO)"
  "word_at (db_header big n0 n1 @ r) 2 = host_word False (host_bytes big 4 n0)"
  "word_at (db_header big n0 n1 @ r) 3 = host_word False (host_bytes big 4 n1)"
  by (simp_all add: word_at_def header_words)

lemma swap4_written: "file_swap4 False (host_word False (host_bytes True 4 w)) = w"
  by (simp add: swap4_read host_word_bytes)

lemma to_le_4: "to_le 4 n = [word_of_nat (n mod 256), word_of_nat (n div 256 mod 256), word_of_nat (n div 65536 mod 256),
    word_of_nat (n div 16777216 mod 256)]"
  by (simp add: numeral_eq_Suc [of "num.Bit0 (num.Bit0 num.One)"] numeral_3_eq_3 div_mult2_eq [symmetric])

lemma magicno_swapped: "host_word False (host_bytes True 4 MAGICNO) \<noteq> MAGICNO"
  by (simp add: MAGICNO_def host_word_def host_bytes_def Let_def to_le_4)

lemma length_structs: "list_all sized ml \<Longrightarrow> length (concat (map (struct_bytes big) ml)) = FILE_MAGICSIZE * length ml"
  by (induction ml) simp_all

lemma length_compiled:
  "list_all sized e0 \<Longrightarrow> list_all sized e1 \<Longrightarrow>
   length (apprentice_compile big e0 e1) = FILE_MAGICSIZE * (1 + length e0 + length e1)"
  by (simp add: apprentice_compile_def length_structs)

lemma map_sets_compiled:
  assumes "list_all sized e0" "list_all sized e1" "length e0 < 2 ^ 32" "length e1 < 2 ^ 32"
  shows "map_sets big (apprentice_compile big e0 e1) (word_of_nat (length e0)) (word_of_nat (length e1)) =
    (map (reread big) e0, map (reread big) e1)"
proof -
  let ?n0 = "word_of_nat (length e0) :: u32" and ?n1 = "word_of_nat (length e1) :: u32"
  have l: "length (concat (map (struct_bytes big) e0)) = FILE_MAGICSIZE * length e0"
    using assms(1) by (rule length_structs)
  have "entries_at (apprentice_compile big e0 e1) 1 (length e0) = map (\<lambda>m. struct_magic (struct_bytes big m)) e0"
    using entries_at_compiled [OF assms(1), of 1 "[]" big ?n0 ?n1 "concat (map (struct_bytes big) e1)"]
    by (simp add: apprentice_compile_def)
  moreover have "entries_at (apprentice_compile big e0 e1) (1 + length e0) (length e1) = map (\<lambda>m. struct_magic (struct_bytes big m)) e1"
    using entries_at_compiled [OF assms(2), of "1 + length e0" "map (struct_bytes big) e0" big ?n0 ?n1 "[]"] l
    by (simp add: apprentice_compile_def)
  ultimately show ?thesis
    using assms(3,4) by (simp add: map_sets_def Let_def unat_word_of_nat byteswap_def reread_def)
qed

lemma check_buffer_compiled:
  assumes "list_all sized e0" "list_all sized e1" "e0 \<noteq> [] \<or> e1 \<noteq> []" "length e0 + length e1 + 1 < 2 ^ 32"
  shows "check_buffer version ms (apprentice_compile big e0 e1) dbname = (Some (map (reread big) e0, map (reread big) e1), ms)"
proof -
  let ?p = "apprentice_compile big e0 e1" and ?n = "length e0 + length e1 + 1"
  have e: "word_of_nat (length ?p div FILE_MAGICSIZE) = (word_of_nat ?n :: u32)" "unat (word_of_nat ?n :: u32) = ?n"
    using assms by (simp_all add: length_compiled unat_word_of_nat del: of_nat_add of_nat_Suc)
  have r: "(if word_at ?p 0 \<noteq> MAGICNO then file_swap4 False (word_at ?p i) else word_at ?p i) =
      [MAGICNO, VERSIONNO, word_of_nat (length e0), word_of_nat (length e1)] ! i" if "i < 4" for i
  proof -
    have "i = 0 \<or> i = 1 \<or> i = 2 \<or> i = 3" using that by auto
    then show ?thesis
      by (cases big) (auto simp: apprentice_compile_def word_at_header swap4_written magicno_swapped host_word_bytes)
  qed
  have b: "(word_at ?p 0 \<noteq> MAGICNO) = big"
    by (cases big) (simp_all add: apprentice_compile_def word_at_header magicno_swapped host_word_bytes)
  have "(word_of_nat (length e0) :: u32) \<le> word_of_nat ?n" "(word_of_nat (length e1) :: u32) \<le> word_of_nat ?n"
    using assms(4) by (simp_all add: word_le_nat_alt unat_word_of_nat del: of_nat_add of_nat_Suc)
  moreover have "word_of_nat ?n = (word_of_nat (length e0) + word_of_nat (length e1) + 1 :: u32)" by simp
  moreover have "2 \<le> ?n" using assms(3) by (cases e0; cases e1) simp_all
  ultimately show ?thesis
    unfolding check_buffer_def Let_def e
    using r [of 0] r [of 1] r [of 2] r [of 3] b map_sets_compiled [OF assms(1,2), of big] assms(4)
    by (auto simp: length_compiled [OF assms(1,2)] simp del: of_nat_add of_nat_Suc)
qed

subsection \<open>Properties\<close>


text \<open>A top-level entry for the ELF magic number as a big-endian host stores it.\<close>

definition sized0 :: magic where
  "sized0 = m0\<lparr>m_value := replicate 128 0, m_desc := replicate 64 0, m_mimetype := replicate 80 0, m_apple := replicate 8 0,
     m_ext := replicate 120 0\<rparr>"

definition be_elf :: magic where
  "be_elf = sized0\<lparr>m_type := FILE_BELONG, m_reln := 0x3d, m_value := [0, 0, 0, 0, 0x7f, 0x45, 0x4c, 0x46] @ replicate 120 0\<rparr>"

lemma be_elf_sized: "list_all sized [be_elf]" "list_all sized []"
  by (simp_all add: be_elf_def sized0_def m0_def sized_def)

lemma be_elf_value: "value_of True be_elf = Inr (0x7f454c46, replicate 120 0)"
  by (simp add: be_elf_def sized0_def m0_def value_of_def IS_STRING_def host_word_def)


text \<open>C39.  The same swap is wrong for the types whose value is neither a string by \<^verbatim>\<open>IS_STRING\<close> nor a 64-bit number: it
  reverses the first eight characters of a DER pattern, and it moves a floating-point number that was stored in the
  first four bytes to the four bytes after, so that a non-zero number reads as zero.\<close>

theorem bs1_der_float:
  assumes "sized m"
  shows "(m_type m = FILE_DER \<longrightarrow>
           take 8 (m_value (bs1 (struct_magic (struct_bytes True m)))) = rev (take 8 (m_value m))) \<and>
         (m_type m = FILE_FLOAT \<and> chunk 4 4 (m_value m) = [0, 0, 0, 0] \<longrightarrow>
           val_l (m_value (bs1 (struct_magic (struct_bytes True m)))) = 0)"
proof -
  have l: "length (m_value m) = 128" using assms by (simp add: sized_def)
  have "take 4 (rev (take 8 (m_value m))) = rev (chunk 4 4 (m_value m))"
    using l by (simp add: chunk_def take_rev min_def drop_take)
  then show ?thesis
    using l by (auto simp: struct_magic_swapped [OF assms] IS_STRING_def val_l_def host_word_def)
qed

theorem bs1_der_float_witness:
  "take 8 (m_value (bs1 (struct_magic (struct_bytes True (sized0\<lparr>m_type := FILE_DER, m_value := bytes_of ''seq1234='' @ replicate 120 0\<rparr>)))))
     = bytes_of ''=4321qes''"
  using bs1_der_float [of "sized0\<lparr>m_type := FILE_DER, m_value := bytes_of ''seq1234='' @ replicate 120 0\<rparr>"]
  by (simp add: sized0_def m0_def sized_def bytes_of_def)

lemma had_err_error0 [simp]: "had_err (file_error0 ms msg)"
  by (simp add: file_error0_def file_error_def file_error_core_def Let_def)

text \<open>C30.  A file that is not a compiled database is refused with an error.  Every answer is either an error that has been
  recorded, or two arrays that together with the header fill the file exactly, so that no entry is read from behind it.
  The file is smaller than 864 GiB; beyond, the 32-bit sum of the two counts could wrap.\<close>

theorem check_buffer_error:
  assumes "check_buffer version ms p dbname = (r, ms')" "length p < 2 ^ 31 * FILE_MAGICSIZE"
  shows "case r of None \<Rightarrow> had_err ms' | Some (l0, l1) \<Rightarrow> ms' = ms \<and> length p = FILE_MAGICSIZE * (1 + length l0 + length l1)"
proof (cases r)
  case None
  then show ?thesis using assms(1) by (auto simp: check_buffer_def bad_db_def Let_def split: if_splits)
next
  case (Some l)
  define e where "e = (word_of_nat (length p div FILE_MAGICSIZE) :: u32)"
  obtain sw n0 n1 where l: "unat e * FILE_MAGICSIZE = length p" "n0 \<le> e" "n1 \<le> e" "e = n0 + n1 + 1" "l = map_sets sw p n0 n1" "ms' = ms"
    using assms(1) Some unfolding check_buffer_def e_def [symmetric]
    by (auto simp: bad_db_def Let_def not_less split: if_splits)
  have "unat e < 2 ^ 31" using l(1) assms(2) by (simp add: mult.commute)
  moreover have "unat n0 \<le> unat e" "unat n1 \<le> unat e" using l(2,3) by (simp_all add: word_le_nat_alt)
  ultimately have "unat e = unat n0 + unat n1 + 1"
    using l(4) by (simp add: unat_word_ariths)
  then show ?thesis using Some l(1,5,6) by (auto simp: map_sets_def Let_def entries_at_def byteswap_def)
qed

theorem check_buffer_error_witness: "had_err (snd (check_buffer [] ms0 (bytes_of ''# magic'') (bytes_of ''x.mgc'')))"
proof -
  have "fst (check_buffer [] ms0 (bytes_of ''# magic'') (bytes_of ''x.mgc'')) = None" by (simp add: check_buffer_def Let_def bad_db_def)
  then show ?thesis
    using check_buffer_error [of "[]" ms0 "bytes_of ''# magic''" "bytes_of ''x.mgc''"]
    by (cases "check_buffer [] ms0 (bytes_of ''# magic'') (bytes_of ''x.mgc'')") auto
qed

end
