(* ===== verification/Strength.thy ===== *)
theory Strength
  imports Magic_Db Encoding Magiccheck "HOL-Library.Multiset"
begin

text \<open>
  The order in which entries are tried (\<^verbatim>\<open>src/apprentice.c\<close>): the strength of an entry (\<^verbatim>\<open>nonmagic\<close>, \<^verbatim>\<open>typesize\<close>,
  \<^verbatim>\<open>apprentice_magic_strength_1\<close>, \<^verbatim>\<open>file_magic_strength\<close>), the comparison that \<^verbatim>\<open>qsort\<close> is given
  (\<^verbatim>\<open>apprentice_sort\<close>), the text or binary flag of an entry (\<^verbatim>\<open>set_test_type\<close>, \<^verbatim>\<open>set_text_binary\<close>), the check that a default
  entry is last (\<^verbatim>\<open>set_last_default\<close>) and the joining of the entries into one array (\<^verbatim>\<open>coalesce_entries\<close>).

  A \<^verbatim>\<open>struct magic_entry\<close> is the list of its \<^verbatim>\<open>cont_count\<close> entries: the top-level one and its continuations.  The
  branches that call \<^verbatim>\<open>abort\<close>, and the division by zero, are values of the type \<open>fatal\<close>.
\<close>

type_synonym magic_entry = "magic list"

datatype fatal = Bad_size | Bad_type | Bad_relation | Bad_factor_op | Division_by_zero | Bad_number_format | Bad_file_format | Bad_width | Outside_levels

subsection \<open>Strength\<close>

function nonmagic_loop :: "u8 list \<Rightarrow> nat" where
  "nonmagic_loop [] = 0"
| "nonmagic_loop (c # p) =
     (if c = 0x5c then (case p of [] \<Rightarrow> 1 | _ # p' \<Rightarrow> Suc (nonmagic_loop p'))
      else if c = 0x3f \<or> c = 0x2a \<or> c = 0x2e \<or> c = 0x2b \<or> c = 0x5e \<or> c = 0x24 then nonmagic_loop p
      else if c = 0x5b then nonmagic_loop (dropWhile (\<lambda>c. c \<noteq> 0x5d) p)
      else if c = 0x7b then nonmagic_loop (drop 1 (dropWhile (\<lambda>c. c \<noteq> 0x7d) p))
      else Suc (nonmagic_loop p))"
  by pat_completeness auto
termination
  by (relation "measure length") (auto simp: less_Suc_eq_le intro: length_dropWhile_le le_trans [OF diff_le_self])

definition nonmagic :: "u8 list \<Rightarrow> nat" where
  "nonmagic str = (let rv = nonmagic_loop (cstr str) in if rv = 0 then 1 else rv)"

text \<open>\<open>None\<close> is \<^verbatim>\<open>FILE_BADSIZE\<close>.\<close>

definition typesize :: "u8 \<Rightarrow> nat option" where
  "typesize t =
     (if t = FILE_BYTE then Some 1
      else if t = FILE_SHORT \<or> t = FILE_LESHORT \<or> t = FILE_BESHORT \<or> t = FILE_MSDOSDATE \<or> t = FILE_BEMSDOSDATE \<or>
              t = FILE_LEMSDOSDATE \<or> t = FILE_MSDOSTIME \<or> t = FILE_BEMSDOSTIME \<or> t = FILE_LEMSDOSTIME then Some 2
      else if t = FILE_LONG \<or> t = FILE_LELONG \<or> t = FILE_BELONG \<or> t = FILE_MELONG then Some 4
      else if t = FILE_DATE \<or> t = FILE_LEDATE \<or> t = FILE_BEDATE \<or> t = FILE_MEDATE \<or> t = FILE_LDATE \<or> t = FILE_LELDATE \<or>
              t = FILE_BELDATE \<or> t = FILE_MELDATE \<or> t = FILE_FLOAT \<or> t = FILE_BEFLOAT \<or> t = FILE_LEFLOAT \<or>
              t = FILE_BEID3 \<or> t = FILE_LEID3 then Some 4
      else if t = FILE_QUAD \<or> t = FILE_BEQUAD \<or> t = FILE_LEQUAD \<or> t = FILE_QDATE \<or> t = FILE_LEQDATE \<or> t = FILE_BEQDATE \<or>
              t = FILE_QLDATE \<or> t = FILE_LEQLDATE \<or> t = FILE_BEQLDATE \<or> t = FILE_QWDATE \<or> t = FILE_LEQWDATE \<or>
              t = FILE_BEQWDATE \<or> t = FILE_DOUBLE \<or> t = FILE_BEDOUBLE \<or> t = FILE_LEDOUBLE \<or> t = FILE_OFFSET \<or>
              t = FILE_BEVARINT \<or> t = FILE_LEVARINT then Some 8
      else if t = FILE_LEGUID \<or> t = FILE_BEGUID \<or> t = FILE_GUID then Some 16
      else None)"

text \<open>The labels of the first branch of the switch.\<close>

definition sized_type :: "u8 \<Rightarrow> bool" where
  "sized_type t \<longleftrightarrow>
     t = FILE_BYTE \<or> t = FILE_SHORT \<or> t = FILE_LESHORT \<or> t = FILE_BESHORT \<or> t = FILE_LONG \<or> t = FILE_LELONG \<or> t = FILE_BELONG \<or>
     t = FILE_MELONG \<or> t = FILE_DATE \<or> t = FILE_LEDATE \<or> t = FILE_BEDATE \<or> t = FILE_MEDATE \<or> t = FILE_LDATE \<or>
     t = FILE_LELDATE \<or> t = FILE_BELDATE \<or> t = FILE_MELDATE \<or> t = FILE_FLOAT \<or> t = FILE_BEFLOAT \<or> t = FILE_LEFLOAT \<or>
     t = FILE_QUAD \<or> t = FILE_BEQUAD \<or> t = FILE_LEQUAD \<or> t = FILE_QDATE \<or> t = FILE_LEQDATE \<or> t = FILE_BEQDATE \<or>
     t = FILE_QLDATE \<or> t = FILE_LEQLDATE \<or> t = FILE_BEQLDATE \<or> t = FILE_QWDATE \<or> t = FILE_LEQWDATE \<or> t = FILE_BEQWDATE \<or>
     t = FILE_DOUBLE \<or> t = FILE_BEDOUBLE \<or> t = FILE_LEDOUBLE \<or> t = FILE_BEVARINT \<or> t = FILE_LEVARINT \<or> t = FILE_GUID \<or>
     t = FILE_LEGUID \<or> t = FILE_BEGUID \<or> t = FILE_BEID3 \<or> t = FILE_LEID3 \<or> t = FILE_OFFSET \<or> t = FILE_MSDOSDATE \<or>
     t = FILE_BEMSDOSDATE \<or> t = FILE_LEMSDOSDATE \<or> t = FILE_MSDOSTIME \<or> t = FILE_BEMSDOSTIME \<or> t = FILE_LEMSDOSTIME"

abbreviation (input) MULT :: int where "MULT \<equiv> 10"

text \<open>What the type contributes to the strength, and what the relation does to it.\<close>

definition type_strength :: "magic \<Rightarrow> fatal + int" where
  "type_strength m =
     (let t = m_type m; vallen = uint (m_vallen m) in
      if sized_type t then (case typesize t of None \<Rightarrow> Inl Bad_size | Some ts \<Rightarrow> Inr (int ts * MULT))
      else if t = FILE_PSTRING \<or> t = FILE_STRING \<or> t = FILE_OCTAL then Inr (vallen * MULT)
      else if t = FILE_BESTRING16 \<or> t = FILE_LESTRING16 then Inr (vallen * MULT div 2)
      else if t = FILE_SEARCH then Inr (if vallen = 0 then 0 else vallen * max (MULT div vallen) 1)
      else if t = FILE_REGEX then (let v = int (nonmagic (m_value m)) in Inr (v * max (MULT div v) 1))
      else if t = FILE_INDIRECT \<or> t = FILE_NAME \<or> t = FILE_USE \<or> t = FILE_CLEAR then Inr 0
      else if t = FILE_DER then Inr MULT
      else Inl Bad_type)"

definition reln_strength :: "u8 \<Rightarrow> int \<Rightarrow> fatal + int" where
  "reln_strength reln val =
     (if reln = 0x78 \<or> reln = 0x21 then Inr 0
      else if reln = 0x3d then Inr (val + MULT)
      else if reln = 0x3e \<or> reln = 0x3c then Inr (val - 2 * MULT)
      else if reln = 0x5e \<or> reln = 0x26 then Inr (val - MULT)
      else Inl Bad_relation)"

definition apprentice_magic_strength_1 :: "magic \<Rightarrow> fatal + int" where
  "apprentice_magic_strength_1 m =
     (if m_type m = FILE_DEFAULT then Inr 0
      else case type_strength m of Inl e \<Rightarrow> Inl e | Inr v \<Rightarrow> reln_strength (m_reln m) (2 * MULT + v))"

definition apply_factor :: "u8 \<Rightarrow> int \<Rightarrow> int \<Rightarrow> fatal + int" where
  "apply_factor op factor val =
     (if op = FILE_FACTOR_OP_NONE then Inr val
      else if op = FILE_FACTOR_OP_PLUS then Inr (val + factor)
      else if op = FILE_FACTOR_OP_MINUS then Inr (val - factor)
      else if op = FILE_FACTOR_OP_TIMES then Inr (val * factor)
      else if op = FILE_FACTOR_OP_DIV then (if factor = 0 then Inl Division_by_zero else Inr (val sdiv factor))
      else Inl Bad_factor_op)"

definition no_desc :: "magic \<Rightarrow> bool" where
  "no_desc m \<longleftrightarrow> cstr (m_desc m) = []"

definition file_magic_strength :: "magic \<Rightarrow> fatal + nat" where
  "file_magic_strength m =
     (case apprentice_magic_strength_1 m of
        Inl e \<Rightarrow> Inl e
      | Inr val \<Rightarrow>
          (case apply_factor (m_factor_op m) (uint (m_factor m)) val of
             Inl e \<Rightarrow> Inl e
           | Inr val \<Rightarrow> (let val = (if val \<le> 0 then 1 else val) in Inr (nat (if no_desc m then val + 1 else val)))))"

subsection \<open>Sorting\<close>

text \<open>The warning about a duplicate goes to standard error.\<close>

definition key_bytes :: "magic \<Rightarrow> u8 list" where
  "key_bytes m = struct_bytes False (m\<lparr>m_lineno := 0\<rparr>)"

definition compare_strength :: "nat \<Rightarrow> nat \<Rightarrow> u8 list \<Rightarrow> u8 list \<Rightarrow> int" where
  "compare_strength sa sb mpa mpb =
     (if sa = sb then (let x = memcmp mpa mpb in if x = 0 then 0 else if x > 0 then -1 else 1)
      else if sa > sb then -1 else 1)"

definition apprentice_sort :: "magic_entry \<Rightarrow> magic_entry \<Rightarrow> fatal + int" where
  "apprentice_sort ma mb =
     (case file_magic_strength (hd ma) of
        Inl e \<Rightarrow> Inl e
      | Inr sa \<Rightarrow>
          (case file_magic_strength (hd mb) of
             Inl e \<Rightarrow> Inl e
           | Inr sb \<Rightarrow> Inr (compare_strength sa sb (key_bytes (hd ma)) (key_bytes (hd mb)))))"

subsection \<open>Text or binary\<close>

definition binary_type :: "u8 \<Rightarrow> bool" where
  "binary_type t \<longleftrightarrow>
     t = FILE_BYTE \<or> t = FILE_SHORT \<or> t = FILE_LONG \<or> t = FILE_DATE \<or> t = FILE_BESHORT \<or> t = FILE_BELONG \<or> t = FILE_BEDATE \<or>
     t = FILE_LESHORT \<or> t = FILE_LELONG \<or> t = FILE_LEDATE \<or> t = FILE_LDATE \<or> t = FILE_BELDATE \<or> t = FILE_LELDATE \<or>
     t = FILE_MEDATE \<or> t = FILE_MELDATE \<or> t = FILE_MELONG \<or> t = FILE_QUAD \<or> t = FILE_LEQUAD \<or> t = FILE_BEQUAD \<or>
     t = FILE_QDATE \<or> t = FILE_LEQDATE \<or> t = FILE_BEQDATE \<or> t = FILE_QLDATE \<or> t = FILE_LEQLDATE \<or> t = FILE_BEQLDATE \<or>
     t = FILE_QWDATE \<or> t = FILE_LEQWDATE \<or> t = FILE_BEQWDATE \<or> t = FILE_FLOAT \<or> t = FILE_BEFLOAT \<or> t = FILE_LEFLOAT \<or>
     t = FILE_DOUBLE \<or> t = FILE_BEDOUBLE \<or> t = FILE_LEDOUBLE \<or> t = FILE_BEVARINT \<or> t = FILE_LEVARINT \<or> t = FILE_DER \<or>
     t = FILE_GUID \<or> t = FILE_LEGUID \<or> t = FILE_BEGUID \<or> t = FILE_OFFSET \<or> t = FILE_MSDOSDATE \<or> t = FILE_BEMSDOSDATE \<or>
     t = FILE_LEMSDOSDATE \<or> t = FILE_MSDOSTIME \<or> t = FILE_BEMSDOSTIME \<or> t = FILE_LEMSDOSTIME \<or> t = FILE_OCTAL"

text \<open>\<open>mstart\<close> and \<open>m\<close> are the same entry in every call, see \<open>set_text_binary\<close>.\<close>

definition string_test_flags :: "magic \<Rightarrow> magic \<Rightarrow> u16" where
  "string_test_flags mstart m =
     (let fl = m_flag mstart;
          fl = (if has (str_flags mstart) STRING_BINTEST then fl OR BINTEST else fl);
          fl = (if has (str_flags mstart) STRING_TEXTTEST then fl OR TEXTTEST else fl)
      in if has fl (TEXTTEST OR BINTEST) then fl
         else if m_type m \<noteq> FILE_REGEX \<and> m_type m \<noteq> FILE_SEARCH then fl OR BINTEST
         else if fst (file_looks_utf8 (take (unat (m_vallen m)) (m_value m)) []) \<le> 0 then fl OR BINTEST
         else fl OR TEXTTEST)"

definition set_test_type :: "magic \<Rightarrow> magic \<Rightarrow> magic" where
  "set_test_type mstart m =
     (let t = m_type m in
      if binary_type t then mstart\<lparr>m_flag := m_flag mstart OR BINTEST\<rparr>
      else if t = FILE_STRING \<or> t = FILE_PSTRING \<or> t = FILE_BESTRING16 \<or> t = FILE_LESTRING16 \<or> t = FILE_REGEX \<or> t = FILE_SEARCH
      then mstart\<lparr>m_flag := string_test_flags mstart m\<rparr>
      else mstart)"

text \<open>The loops of \<^verbatim>\<open>apprentice_load\<close> and \<^verbatim>\<open>set_text_binary\<close>: an entry at the top level starts a group that extends over the
  entries at deeper levels behind it, each of which sets the flags of the first; entries in front of every group are
  passed over.  The debugging output is not modelled.\<close>

fun set_text_binary :: "magic_entry \<Rightarrow> magic_entry list \<Rightarrow> magic_entry list \<times> magic_entry list" where
  "set_text_binary start [] = ([start], [])"
| "set_text_binary start (e # es) =
     (if m_cont_level (hd e) = 0 then ([start], e # es)
      else case set_text_binary (set_test_type (hd start) (hd e) # tl start) es of (s # g, r) \<Rightarrow> (s # e # g, r) | ([], r) \<Rightarrow> ([], r))"

lemma set_text_binary_length:
  "length (fst (set_text_binary s es)) + length (snd (set_text_binary s es)) = Suc (length es) \<and> fst (set_text_binary s es) \<noteq> []"
proof (induction s es rule: set_text_binary.induct)
  case (2 start e es)
  then show ?case
    by (cases "set_text_binary (set_test_type (hd start) (hd e) # tl start) es"; cases "fst (set_text_binary (set_test_type (hd start) (hd e) # tl start) es)") auto
qed simp

lemma set_text_binary_shorter: "set_text_binary s es = (g, r) \<Longrightarrow> length r \<le> length es"
  using set_text_binary_length [of s es] by (cases g) auto

function set_test_types :: "magic_entry list \<Rightarrow> magic_entry list" where
  "set_test_types [] = []"
| "set_test_types (e # es) =
     (if m_cont_level (hd e) \<noteq> 0 then e # set_test_types es
      else case set_text_binary (set_test_type (hd e) (hd e) # tl e) es of (g, r) \<Rightarrow> g @ set_test_types r)"
  by pat_completeness auto
termination
  by (relation "measure length") (auto dest!: sym [where t = "set_text_binary _ _"] set_text_binary_shorter simp: less_Suc_eq_le)

subsection \<open>The default entry and the array\<close>

definition default_top :: "magic_entry \<Rightarrow> bool" where
  "default_top e \<longleftrightarrow> m_cont_level (hd e) = 0 \<and> m_type (hd e) = FILE_DEFAULT"

definition set_last_default :: "magic_set \<Rightarrow> magic_entry list \<Rightarrow> magic_set" where
  "set_last_default ms me =
     (case dropWhile (\<lambda>e. \<not> default_top e) me of
        [] \<Rightarrow> ms
      | _ # es \<Rightarrow>
          (case dropWhile (\<lambda>e. m_cont_level (hd e) \<noteq> 0) es of
             [] \<Rightarrow> ms
           | e # _ \<Rightarrow> file_magwarn (ms\<lparr>ms_line := unat (m_lineno (hd e))\<rparr>)))"

text \<open>\<open>None\<close> is the answer -1.  The counts are 32-bit; the loop that sums them is not, and the allocation succeeds.\<close>

definition coalesce_entries :: "magic_set \<Rightarrow> magic_entry list \<Rightarrow> magic list option \<times> magic_set" where
  "coalesce_entries ms me =
     (let mentrycount = sum_list (map length me) in
      if mentrycount > (2 ^ 32 - 1) div FILE_MAGICSIZE
      then (None, file_error0 ms (bytes_of ''too many magic entries ('' @ show_nat mentrycount @ bytes_of '')''))
      else (Some (concat me), ms))"

subsection \<open>Strengths are defined and bounded\<close>

definition known_type :: "u8 \<Rightarrow> bool" where
  "known_type t \<longleftrightarrow> FILE_INVALID < t \<and> t \<le> FILE_OCTAL"

definition known_reln :: "u8 \<Rightarrow> bool" where
  "known_reln r \<longleftrightarrow> r = 0x78 \<or> r = 0x21 \<or> r = 0x3d \<or> r = 0x3e \<or> r = 0x3c \<or> r = 0x5e \<or> r = 0x26"

definition known_factor :: "u8 \<Rightarrow> u8 \<Rightarrow> bool" where
  "known_factor op f \<longleftrightarrow> op = FILE_FACTOR_OP_NONE \<or> op = FILE_FACTOR_OP_PLUS \<or> op = FILE_FACTOR_OP_MINUS \<or>
     op = FILE_FACTOR_OP_TIMES \<or> op = FILE_FACTOR_OP_DIV \<and> f \<noteq> 0"

text \<open>The entries whose strength is computed without \<^verbatim>\<open>abort\<close> and without dividing by zero.\<close>

definition rated :: "magic \<Rightarrow> bool" where
  "rated m \<longleftrightarrow> known_type (m_type m) \<and> known_reln (m_reln m) \<and> known_factor (m_factor_op m) (m_factor m)"

lemma typesize_sized: "sized_type t \<Longrightarrow> \<exists>n. typesize t = Some n \<and> n \<le> 16"
  unfolding sized_type_def typesize_def by (elim disjE) simp_all

lemma known_type_cases:
  "known_type t \<Longrightarrow> t = FILE_DEFAULT \<or> sized_type t \<or> t = FILE_PSTRING \<or> t = FILE_STRING \<or> t = FILE_OCTAL \<or>
     t = FILE_BESTRING16 \<or> t = FILE_LESTRING16 \<or> t = FILE_SEARCH \<or> t = FILE_REGEX \<or> t = FILE_INDIRECT \<or> t = FILE_NAME \<or>
     t = FILE_USE \<or> t = FILE_CLEAR \<or> t = FILE_DER"
proof -
  assume t: "known_type t"
  then have "unat t \<in> set [1..<62]" by (simp add: known_type_def word_less_nat_alt word_le_nat_alt)
  then have "t \<in> set (map word_of_nat [1..<62])" unfolding set_map by (intro image_eqI [where x = "unat t"]) simp_all
  then show ?thesis
    by (simp add: sized_type_def upt_rec) (elim disjE; simp)
qed

lemma nonmagic_pos: "1 \<le> nonmagic str"
  by (simp add: nonmagic_def Let_def)

lemma nonmagic_loop_le: "nonmagic_loop p \<le> length p"
proof (induction p rule: nonmagic_loop.induct)
  case (2 c p)
  have "length (dropWhile Q p) \<le> length p" for Q by (rule length_dropWhile_le)
  then have d: "n \<le> length (dropWhile Q p) \<Longrightarrow> n \<le> Suc (length p)" "n \<le> length (dropWhile Q p) - Suc 0 \<Longrightarrow> n \<le> Suc (length p)" for n Q
    by (meson diff_le_self le_SucI le_trans)+
  show ?case
  proof (cases "c = 0x5c")
    case True
    then show ?thesis using "2.IH"(1) by (cases p) auto
  next
    case False
    then show ?thesis using "2.IH"(2-5) d by (auto simp: le_Suc_eq)
  qed
qed simp

lemma nonmagic_le: "nonmagic str \<le> max 1 (length str)"
  using nonmagic_loop_le [of "cstr str"] length_cstr_le [of str] by (auto simp: nonmagic_def Let_def)

lemma type_strength_ok:
  assumes "known_type (m_type m)" "m_type m \<noteq> FILE_DEFAULT"
  shows "\<exists>v. type_strength m = Inr v \<and> 0 \<le> v \<and> v \<le> 10 * max 255 (int (length (m_value m)))"
proof (cases "sized_type (m_type m)")
  case True
  then show ?thesis using typesize_sized [OF True] by (auto simp: type_strength_def Let_def)
next
  case False
  define B where "B = 10 * max 255 (int (length (m_value m)))"
  have l: "0 \<le> uint (m_vallen m)" "uint (m_vallen m) \<le> 255"
    using unsigned_less [of "m_vallen m", where 'a = int] by simp_all
  have m: "v * (10 div v) \<le> (10::int)" if "0 < v" for v
    using mult_div_mod_eq [of v 10] pos_mod_sign [OF that, of 10] by linarith
  have n: "0 \<le> v * max (10 div v) 1 \<and> v * max (10 div v) 1 \<le> B" if "0 < v" "v \<le> max 255 (int (length (m_value m)))" for v :: int
    using that m [of v] unfolding B_def
    by (auto simp: max_def)
  have "0 < int (nonmagic (m_value m))" "int (nonmagic (m_value m)) \<le> max 255 (int (length (m_value m)))"
    using nonmagic_pos [of "m_value m"] nonmagic_le [of "m_value m"] by linarith+
  note r = n [OF this]
  have v: "uint (m_vallen m) \<noteq> 0 \<Longrightarrow> 0 \<le> uint (m_vallen m) * max (10 div uint (m_vallen m)) 1 \<and>
      uint (m_vallen m) * max (10 div uint (m_vallen m)) 1 \<le> B"
    using l by (intro n) (auto simp: order_less_le)
  have d: "0 \<le> uint (m_vallen m) * 10 div 2" "uint (m_vallen m) * 10 div 2 \<le> B" "uint (m_vallen m) * 10 \<le> B" "10 \<le> B" "0 \<le> B"
    using l by (auto simp: B_def max_def)
  show ?thesis
    unfolding B_def [symmetric]
    using known_type_cases [OF assms(1)] assms(2) False l(1) d v r
    by (elim disjE) (simp_all add: type_strength_def Let_def)
qed

lemma reln_strength_ok: "known_reln r \<Longrightarrow> \<exists>v'. reln_strength r v = Inr v' \<and> v' \<le> max 0 (v + 10)"
  by (auto simp: known_reln_def reln_strength_def max_def)

lemma strength_1_ok:
  assumes "known_type (m_type m)" "known_reln (m_reln m)"
  shows "\<exists>v. apprentice_magic_strength_1 m = Inr v \<and> v \<le> 30 + 10 * max 255 (int (length (m_value m)))"
proof (cases "m_type m = FILE_DEFAULT")
  case False
  then obtain v where v: "type_strength m = Inr v" "0 \<le> v" "v \<le> 10 * max 255 (int (length (m_value m)))"
    using type_strength_ok [OF assms(1)] by blast
  obtain v' where "reln_strength (m_reln m) (20 + v) = Inr v'" "v' \<le> max 0 (20 + v + 10)"
    using reln_strength_ok [OF assms(2)] by blast
  then show ?thesis using v False by (auto simp: apprentice_magic_strength_1_def max_def)
qed (auto simp: apprentice_magic_strength_1_def)

lemma sdiv_le: "0 < f \<Longrightarrow> (v :: int) sdiv f \<le> max 0 v"
  by (auto simp: signed_divide_int_def sgn_if max_def pos_imp_zdiv_nonneg_iff intro: order_trans [OF zdiv_mono2 [of v 1]])

lemma apply_factor_ok:
  assumes "known_factor op f" "v \<le> b" "0 \<le> b"
  shows "\<exists>v'. apply_factor op (uint f) v = Inr v' \<and> v' \<le> 255 * b + 255"
proof -
  have f: "0 \<le> uint f" "uint f \<le> 255" using unsigned_less [of f, where 'a = int] by simp_all
  have "v * uint f \<le> b * 255"
    using f assms(2,3) by (meson mult_mono mult_right_mono order_trans)
  moreover have "f \<noteq> 0 \<Longrightarrow> v sdiv uint f \<le> b"
    using f(1) sdiv_le [of "uint f" v] assms(2,3) by (auto simp: order_less_le uint_0_iff)
  moreover have "v - uint f \<le> 255 * b + 255" using assms(2,3) f by linarith
  ultimately show ?thesis
    using assms f(2) by (auto simp: known_factor_def apply_factor_def uint_0_iff)
qed

lemma strength_ok:
  assumes "rated m" "length (m_value m) \<le> 255"
  shows "\<exists>s. file_magic_strength m = Inr s \<and> 1 \<le> s \<and> s \<le> 658156"
proof -
  obtain v where v: "apprentice_magic_strength_1 m = Inr v" "v \<le> 2580"
    using strength_1_ok [of m] assms by (auto simp: rated_def max_def split: if_splits)
  obtain v' where "apply_factor (m_factor_op m) (uint (m_factor m)) v = Inr v'" "v' \<le> 658155"
    using apply_factor_ok [OF _ v(2)] assms(1) by (auto simp: rated_def)
  then show ?thesis using v(1) by (auto simp: file_magic_strength_def Let_def)
qed

subsection \<open>The comparison is an order\<close>

lemma memcmp_swap: "length xs = length ys \<Longrightarrow> memcmp ys xs = - memcmp xs ys"
  by (induction xs ys rule: list_induct2) auto

lemma memcmp_eq_0: "length xs = length ys \<Longrightarrow> memcmp xs ys = 0 \<longleftrightarrow> xs = ys"
  by (induction xs ys rule: list_induct2) (auto simp: not_less_iff_gr_or_eq)

lemma memcmp_trans:
  assumes "length xs = length ys" "length ys = length zs" "0 \<le> memcmp xs ys" "0 \<le> memcmp ys zs"
  shows "0 \<le> memcmp xs zs"
  using assms by (induction xs ys zs rule: list_induct3) (auto split: if_splits dest: less_trans)

lemma length_key_bytes: "sized m \<Longrightarrow> length (key_bytes m) = FILE_MAGICSIZE"
  unfolding key_bytes_def by (rule length_struct_bytes) (simp add: sized_def)

lemma key_bytes_inj:
  assumes "sized m" "sized m'"
  shows "key_bytes m = key_bytes m' \<longleftrightarrow> m\<lparr>m_lineno := 0\<rparr> = m'\<lparr>m_lineno := 0\<rparr>"
proof -
  have "struct_magic (key_bytes x) = x\<lparr>m_lineno := 0\<rparr>" if "sized x" for x
    unfolding key_bytes_def using that by (intro struct_magic_same) (simp add: sized_def)
  with assms show ?thesis by (metis key_bytes_def)
qed

lemma compare_strength_le: "compare_strength sa sb ka kb \<le> 0 \<longleftrightarrow> sb < sa \<or> sa = sb \<and> 0 \<le> memcmp ka kb"
  by (auto simp: compare_strength_def Let_def)

lemma compare_strength_swap:
  "length ka = length kb \<Longrightarrow> compare_strength sb sa kb ka = - compare_strength sa sb ka kb"
  using memcmp_swap [of ka kb] by (auto simp: compare_strength_def Let_def)

text \<open>What the strength of an entry does not look at.\<close>

lemma strength_lineno: "file_magic_strength (m\<lparr>m_lineno := n\<rparr>) = file_magic_strength m"
proof -
  have "no_desc (m\<lparr>m_lineno := n\<rparr>) = no_desc m" by (simp add: no_desc_def)
  moreover have "type_strength (m\<lparr>m_lineno := n\<rparr>) = type_strength m" by (simp add: type_strength_def Let_def)
  ultimately show ?thesis by (simp add: file_magic_strength_def apprentice_magic_strength_1_def cong: sum.case_cong)
qed

text \<open>An entry that can be sorted.\<close>

definition sortable :: "magic_entry \<Rightarrow> bool" where
  "sortable e \<longleftrightarrow> e \<noteq> [] \<and> sized (hd e) \<and> rated (hd e)"

definition strength :: "magic_entry \<Rightarrow> nat" where
  "strength e = (case file_magic_strength (hd e) of Inr s \<Rightarrow> s | Inl _ \<Rightarrow> 0)"

definition sort_cmp :: "magic_entry \<Rightarrow> magic_entry \<Rightarrow> int" where
  "sort_cmp a b = compare_strength (strength a) (strength b) (key_bytes (hd a)) (key_bytes (hd b))"

lemma apprentice_sort_cmp:
  assumes "sortable a" "sortable b"
  shows "apprentice_sort a b = Inr (sort_cmp a b)"
proof -
  have "\<exists>s. file_magic_strength (hd e) = Inr s" if "sortable e" for e
    using strength_ok [of "hd e"] that by (auto simp: sortable_def sized_def)
  from this [OF assms(1)] this [OF assms(2)] show ?thesis by (auto simp: apprentice_sort_def sort_cmp_def strength_def)
qed

lemma sort_cmp_swap: "sortable a \<Longrightarrow> sortable b \<Longrightarrow> sort_cmp b a = - sort_cmp a b"
  unfolding sort_cmp_def by (rule compare_strength_swap) (simp add: sortable_def length_key_bytes)

lemma sort_cmp_trans:
  assumes "sortable a" "sortable b" "sortable c" "sort_cmp a b \<le> 0" "sort_cmp b c \<le> 0"
  shows "sort_cmp a c \<le> 0"
  using assms memcmp_trans [of "key_bytes (hd a)" "key_bytes (hd b)" "key_bytes (hd c)"]
  by (auto simp: sort_cmp_def compare_strength_le sortable_def length_key_bytes)

lemma sort_cmp_0:
  assumes "sortable a" "sortable b"
  shows "sort_cmp a b = 0 \<longleftrightarrow> (hd a)\<lparr>m_lineno := 0\<rparr> = (hd b)\<lparr>m_lineno := 0\<rparr>"
proof -
  have "strength a = strength b" if "(hd a)\<lparr>m_lineno := 0\<rparr> = (hd b)\<lparr>m_lineno := 0\<rparr>"
    using strength_lineno [where m = "hd a" and n = 0] strength_lineno [where m = "hd b" and n = 0] that by (simp add: strength_def)
  then show ?thesis
    using assms memcmp_eq_0 [of "key_bytes (hd a)" "key_bytes (hd b)"] key_bytes_inj [of "hd a" "hd b"]
    by (auto simp: sort_cmp_def compare_strength_def Let_def sortable_def length_key_bytes)
qed

subsection \<open>Properties\<close>

text \<open>C18.  The comparison of \<^verbatim>\<open>apprentice_sort\<close> is one that \<^verbatim>\<open>qsort\<close> can use: on entries with known types, relations and
  factors it never aborts, reversing the arguments reverses the sign, it is transitive, it puts the stronger entry
  first, and only entries that differ in nothing but their line numbers are equal.\<close>

theorem apprentice_sort_order:
  assumes "sortable a" "sortable b" "sortable c"
  shows "\<exists>x y z. apprentice_sort a b = Inr x \<and> apprentice_sort b a = Inr (- x) \<and>
    apprentice_sort b c = Inr y \<and> apprentice_sort a c = Inr z \<and> (x \<le> 0 \<and> y \<le> 0 \<longrightarrow> z \<le> 0) \<and>
    (x < 0 \<longrightarrow> strength b \<le> strength a) \<and> (x = 0 \<longleftrightarrow> (hd a)\<lparr>m_lineno := 0\<rparr> = (hd b)\<lparr>m_lineno := 0\<rparr>)"
proof -
  have "sort_cmp a b < 0 \<Longrightarrow> strength b \<le> strength a"
    by (auto simp: sort_cmp_def compare_strength_def split: if_splits)
  with assms show ?thesis
    using sort_cmp_swap [of a b] sort_cmp_trans [of a b c] sort_cmp_0 [of a b] by (simp add: apprentice_sort_cmp)
qed

text \<open>The entry of the ELF magic number, and the same entry with a wider description.\<close>

definition elf_top :: magic_entry where
  "elf_top = [be_elf]"

lemma elf_top_sortable: "sortable elf_top" "sortable [be_elf\<lparr>m_reln := 0x78\<rparr>]"
  by (simp_all add: sortable_def elf_top_def be_elf_def sized0_def m0_def sized_def rated_def known_type_def known_reln_def known_factor_def)

theorem apprentice_sort_order_witness:
  "\<exists>x. apprentice_sort elf_top [be_elf\<lparr>m_reln := 0x78\<rparr>] = Inr x \<and> apprentice_sort [be_elf\<lparr>m_reln := 0x78\<rparr>] elf_top = Inr (- x)"
  using apprentice_sort_order [OF elf_top_sortable elf_top_sortable(1)] by blast

text \<open>C38.  The strength of an entry is at least 1, for a default entry too, although the comment beside the code reserves
  0 for it; it is at most 658156, so nothing in it overflows; and an entry that matches anything is never
  stronger than one that compares for equality, unless a factor says so.\<close>

theorem file_magic_strength_range:
  assumes "rated m" "sized m"
  shows "\<exists>s. file_magic_strength m = Inr s \<and> 1 \<le> s \<and> s \<le> 658156 \<and>
    (m_factor_op m = FILE_FACTOR_OP_NONE \<longrightarrow> 
       (m_type m = FILE_DEFAULT \<or> m_reln m = 0x78 \<or> m_reln m = 0x21 \<longrightarrow> s = (if no_desc m then 2 else 1)) \<and>
       (m_type m \<noteq> FILE_DEFAULT \<and> m_reln m = 0x3d \<longrightarrow> 30 \<le> s))"
proof -
  obtain s where s: "file_magic_strength m = Inr s" "1 \<le> s" "s \<le> 658156"
    using strength_ok [OF assms(1)] assms(2) by (auto simp: sized_def)
  have k: "known_type (m_type m)" using assms(1) by (simp add: rated_def)
  show ?thesis
  proof (cases "m_type m = FILE_DEFAULT")
    case True
    then show ?thesis
      using s by (auto simp: file_magic_strength_def apprentice_magic_strength_1_def apply_factor_def)
  next
    case False
    obtain v where "type_strength m = Inr v" "0 \<le> v" using type_strength_ok [OF k False] by blast
    then show ?thesis
      using s False by (auto simp: file_magic_strength_def apprentice_magic_strength_1_def apply_factor_def reln_strength_def)
  qed
qed

theorem file_magic_strength_range_witness: "\<exists>s. file_magic_strength be_elf = Inr s \<and> 30 \<le> s \<and> s \<le> 658156"
  using file_magic_strength_range [of be_elf] elf_top_sortable(1)
  by (auto simp: sortable_def elf_top_def) (auto simp: be_elf_def sized0_def m0_def)

end
