(* ===== verification/Magic_Lex.thy ===== *)
theory Magic_Lex
  imports Strength
begin

text \<open>
  The lexical part of the magic file parser (\<^verbatim>\<open>src/apprentice.c\<close>): numbers as \<^verbatim>\<open>strtol\<close>, \<^verbatim>\<open>strtoul\<close> and \<^verbatim>\<open>strtoull\<close> with base 0
  read them, the tables of type names, the operators and conditions, strings with C escapes (\<^verbatim>\<open>getstr\<close>,
  \<^verbatim>\<open>file_showstr\<close>), the suffix of a number, the modifiers of a type and the check of a description's format.

  A C string is the list of its characters, so that \<open>ch\<close> is the character a pointer points at, the terminator at
  the end, and \<open>tl\<close> moves the pointer.  A warning goes to standard error; the model keeps the count of warnings,
  which \<^verbatim>\<open>load_1\<close> looks at.
\<close>

definition ch :: "u8 list \<Rightarrow> u8" where
  "ch l = (case l of [] \<Rightarrow> 0 | c # _ \<Rightarrow> c)"

lemma ch_simps [simp]: "ch [] = 0" "ch (c # l) = c"
  by (simp_all add: ch_def)

lemma ch_replicate [simp]: "0 < n \<Longrightarrow> ch (replicate n c) = c"
  by (cases n) simp_all

definition has_prefix :: "u8 list \<Rightarrow> u8 list \<Rightarrow> bool" where
  "has_prefix p l \<longleftrightarrow> take (length p) l = p"

definition check_warn :: "magic_set \<Rightarrow> magic_set" where
  "check_warn ms = (if has (ms_flags ms) MAGIC_CHECK then file_magwarn ms else ms)"

definition isascii :: "u8 \<Rightarrow> bool" where "isascii c \<longleftrightarrow> c < 0x80"

definition isalnum :: "u8 \<Rightarrow> bool" where "isalnum c \<longleftrightarrow> isalpha c \<or> isdigit c"

definition EATAB :: "u8 list \<Rightarrow> u8 list" where
  "EATAB l = dropWhile (\<lambda>c. c \<noteq> 0 \<and> isascii c \<and> isspace c) l"

subsection \<open>Numbers\<close>

definition isxdigit :: "u8 \<Rightarrow> bool" where
  "isxdigit c \<longleftrightarrow> isdigit c \<or> 0x61 \<le> c \<and> c \<le> 0x66 \<or> 0x41 \<le> c \<and> c \<le> 0x46"

definition digit_value :: "u8 \<Rightarrow> nat" where
  "digit_value c = (if isdigit c then unat c - 0x30 else unat (tolower c) - 0x57)"

definition base_number :: "nat \<Rightarrow> u8 list \<Rightarrow> nat" where
  "base_number b ds = foldl (\<lambda>v d. v * b + digit_value d) 0 ds"

definition digits_of :: "u8 list \<Rightarrow> nat \<times> (u8 \<Rightarrow> bool) \<times> u8 list" where
  "digits_of u =
     (if ch u = 0x30 \<and> (ch (tl u) = 0x78 \<or> ch (tl u) = 0x58) \<and> isxdigit (ch (tl (tl u))) then (16, isxdigit, tl (tl u))
      else if ch u = 0x30 then (8, (\<lambda>c. 0x30 \<le> c \<and> c \<le> 0x37), u)
      else (10, isdigit, u))"

text \<open>The sign, the magnitude and the rest of a number in base 0, or \<open>None\<close> when there is none.\<close>

definition scan_number :: "u8 list \<Rightarrow> (bool \<times> nat \<times> u8 list) option" where
  "scan_number s =
     (let t = dropWhile isspace s; neg = (ch t = 0x2d); u = (if ch t = 0x2d \<or> ch t = 0x2b then tl t else t)
      in case digits_of u of (b, isd, v) \<Rightarrow>
         if takeWhile isd v = [] then None else Some (neg, base_number b (takeWhile isd v), dropWhile isd v))"

text \<open>The value, the rest, and whether \<^verbatim>\<open>errno\<close> is \<^verbatim>\<open>ERANGE\<close>; without digits the rest is the whole string.\<close>

definition strtol :: "u8 list \<Rightarrow> int \<times> u8 list" where
  "strtol s = (case scan_number s of
     None \<Rightarrow> (0, s)
   | Some (neg, n, r) \<Rightarrow> (if neg then max (- (2 ^ 63)) (- int n) else min (2 ^ 63 - 1) (int n), r))"

definition strtoull :: "u8 list \<Rightarrow> u64 \<times> u8 list \<times> bool" where
  "strtoull s = (case scan_number s of
     None \<Rightarrow> (0, s, False)
   | Some (neg, n, r) \<Rightarrow>
       if n \<ge> 2 ^ 64 then (-1, r, True) else (if neg then - word_of_nat n else word_of_nat n, r, False))"

text \<open>\<^verbatim>\<open>strtoul\<close>: \<^verbatim>\<open>long\<close> and \<^verbatim>\<open>long long\<close> have 64 bits.\<close>

abbreviation (input) strtoul :: "u8 list \<Rightarrow> u64 \<times> u8 list \<times> bool" where "strtoul \<equiv> strtoull"

definition LOWCASE :: "u8 \<Rightarrow> u8" where "LOWCASE l = (if isupper l then tolower l else l)"

definition eatsize :: "u8 list \<Rightarrow> u8 list" where
  "eatsize p =
     (let l = (if LOWCASE (ch p) = 0x75 then tl p else p); c = LOWCASE (ch l)
      in if c = 0x6c \<or> c = 0x73 \<or> c = 0x68 \<or> c = 0x62 \<or> c = 0x63 then tl l else l)"

subsection \<open>Types\<close>

datatype fmt = FILE_FMT_NONE | FILE_FMT_NUM | FILE_FMT_STR | FILE_FMT_QUAD | FILE_FMT_FLOAT | FILE_FMT_DOUBLE

type_synonym type_tbl_s = "u8 list \<times> u8 \<times> fmt"

definition type_tbl :: "type_tbl_s list" where
  "type_tbl =
     [(bytes_of ''invalid'', FILE_INVALID, FILE_FMT_NONE),
      (bytes_of ''byte'', FILE_BYTE, FILE_FMT_NUM),
      (bytes_of ''short'', FILE_SHORT, FILE_FMT_NUM),
      (bytes_of ''default'', FILE_DEFAULT, FILE_FMT_NONE),
      (bytes_of ''long'', FILE_LONG, FILE_FMT_NUM),
      (bytes_of ''string'', FILE_STRING, FILE_FMT_STR),
      (bytes_of ''date'', FILE_DATE, FILE_FMT_STR),
      (bytes_of ''beshort'', FILE_BESHORT, FILE_FMT_NUM),
      (bytes_of ''belong'', FILE_BELONG, FILE_FMT_NUM),
      (bytes_of ''bedate'', FILE_BEDATE, FILE_FMT_STR),
      (bytes_of ''leshort'', FILE_LESHORT, FILE_FMT_NUM),
      (bytes_of ''lelong'', FILE_LELONG, FILE_FMT_NUM),
      (bytes_of ''ledate'', FILE_LEDATE, FILE_FMT_STR),
      (bytes_of ''pstring'', FILE_PSTRING, FILE_FMT_STR),
      (bytes_of ''ldate'', FILE_LDATE, FILE_FMT_STR),
      (bytes_of ''beldate'', FILE_BELDATE, FILE_FMT_STR),
      (bytes_of ''leldate'', FILE_LELDATE, FILE_FMT_STR),
      (bytes_of ''regex'', FILE_REGEX, FILE_FMT_STR),
      (bytes_of ''bestring16'', FILE_BESTRING16, FILE_FMT_STR),
      (bytes_of ''lestring16'', FILE_LESTRING16, FILE_FMT_STR),
      (bytes_of ''search'', FILE_SEARCH, FILE_FMT_STR),
      (bytes_of ''medate'', FILE_MEDATE, FILE_FMT_STR),
      (bytes_of ''meldate'', FILE_MELDATE, FILE_FMT_STR),
      (bytes_of ''melong'', FILE_MELONG, FILE_FMT_NUM),
      (bytes_of ''quad'', FILE_QUAD, FILE_FMT_QUAD),
      (bytes_of ''lequad'', FILE_LEQUAD, FILE_FMT_QUAD),
      (bytes_of ''bequad'', FILE_BEQUAD, FILE_FMT_QUAD),
      (bytes_of ''qdate'', FILE_QDATE, FILE_FMT_STR),
      (bytes_of ''leqdate'', FILE_LEQDATE, FILE_FMT_STR),
      (bytes_of ''beqdate'', FILE_BEQDATE, FILE_FMT_STR),
      (bytes_of ''qldate'', FILE_QLDATE, FILE_FMT_STR),
      (bytes_of ''leqldate'', FILE_LEQLDATE, FILE_FMT_STR),
      (bytes_of ''beqldate'', FILE_BEQLDATE, FILE_FMT_STR),
      (bytes_of ''float'', FILE_FLOAT, FILE_FMT_FLOAT),
      (bytes_of ''befloat'', FILE_BEFLOAT, FILE_FMT_FLOAT),
      (bytes_of ''lefloat'', FILE_LEFLOAT, FILE_FMT_FLOAT),
      (bytes_of ''double'', FILE_DOUBLE, FILE_FMT_DOUBLE),
      (bytes_of ''bedouble'', FILE_BEDOUBLE, FILE_FMT_DOUBLE),
      (bytes_of ''ledouble'', FILE_LEDOUBLE, FILE_FMT_DOUBLE),
      (bytes_of ''leid3'', FILE_LEID3, FILE_FMT_NUM),
      (bytes_of ''beid3'', FILE_BEID3, FILE_FMT_NUM),
      (bytes_of ''indirect'', FILE_INDIRECT, FILE_FMT_NUM),
      (bytes_of ''qwdate'', FILE_QWDATE, FILE_FMT_STR),
      (bytes_of ''leqwdate'', FILE_LEQWDATE, FILE_FMT_STR),
      (bytes_of ''beqwdate'', FILE_BEQWDATE, FILE_FMT_STR),
      (bytes_of ''name'', FILE_NAME, FILE_FMT_NONE),
      (bytes_of ''use'', FILE_USE, FILE_FMT_NONE),
      (bytes_of ''clear'', FILE_CLEAR, FILE_FMT_NONE),
      (bytes_of ''der'', FILE_DER, FILE_FMT_STR),
      (bytes_of ''guid'', FILE_GUID, FILE_FMT_STR),
      (bytes_of ''leguid'', FILE_LEGUID, FILE_FMT_STR),
      (bytes_of ''beguid'', FILE_BEGUID, FILE_FMT_STR),
      (bytes_of ''offset'', FILE_OFFSET, FILE_FMT_QUAD),
      (bytes_of ''bevarint'', FILE_BEVARINT, FILE_FMT_STR),
      (bytes_of ''levarint'', FILE_LEVARINT, FILE_FMT_STR),
      (bytes_of ''msdosdate'', FILE_MSDOSDATE, FILE_FMT_STR),
      (bytes_of ''lemsdosdate'', FILE_LEMSDOSDATE, FILE_FMT_STR),
      (bytes_of ''bemsdosdate'', FILE_BEMSDOSDATE, FILE_FMT_STR),
      (bytes_of ''msdostime'', FILE_MSDOSTIME, FILE_FMT_STR),
      (bytes_of ''lemsdostime'', FILE_LEMSDOSTIME, FILE_FMT_STR),
      (bytes_of ''bemsdostime'', FILE_BEMSDOSTIME, FILE_FMT_STR),
      (bytes_of ''octal'', FILE_OCTAL, FILE_FMT_STR)]"

definition special_tbl :: "type_tbl_s list" where
  "special_tbl =
     [(bytes_of ''der'', FILE_DER, FILE_FMT_STR),
      (bytes_of ''name'', FILE_NAME, FILE_FMT_STR),
      (bytes_of ''use'', FILE_USE, FILE_FMT_STR),
      (bytes_of ''octal'', FILE_OCTAL, FILE_FMT_STR)]"

text \<open>\<open>t\<close> is what \<^verbatim>\<open>*t\<close> was before the call.\<close>

fun get_type :: "type_tbl_s list \<Rightarrow> u8 list \<Rightarrow> u8 list \<Rightarrow> u8 \<times> u8 list" where
  "get_type [] l t = (FILE_INVALID, t)"
| "get_type ((name, ty, _) # tbl) l t = (if has_prefix name l then (ty, drop (length name) l) else get_type tbl l t)"

text \<open>\<^verbatim>\<open>file_formats\<close>, filled from the table by \<^verbatim>\<open>init_file_tables\<close>.\<close>

fun format_in :: "type_tbl_s list \<Rightarrow> u8 \<Rightarrow> fmt" where
  "format_in [] ty = FILE_FMT_NONE"
| "format_in ((_, ty', f) # tbl) ty = (if ty' = ty then f else format_in tbl ty)"

definition file_formats :: "u8 \<Rightarrow> fmt" where "file_formats ty = format_in type_tbl ty"

definition int_type_of :: "u8 \<Rightarrow> u8 list \<Rightarrow> u8" where
  "int_type_of c l =
     (if isalpha c then
        (if c = 0x43 then FILE_BYTE else if c = 0x53 then FILE_SHORT else if c = 0x49 \<or> c = 0x4c then FILE_LONG
         else if c = 0x51 then FILE_QUAD else FILE_INVALID)
      else if isdigit (ch (tl (tl l))) then FILE_INVALID
      else if c = 0x31 then FILE_BYTE else if c = 0x32 then FILE_SHORT else if c = 0x34 then FILE_LONG
      else if c = 0x38 then FILE_QUAD else FILE_INVALID)"

definition get_standard_integer_type :: "u8 list \<Rightarrow> u8 \<times> u8 list" where
  "get_standard_integer_type l =
     (let c = ch (tl l) in
      if ch l = 0 \<or> c = 0 then (FILE_INVALID, l)
      else if isalpha c \<or> isdigit c
      then (let ty = int_type_of c l in (ty, if ty = FILE_INVALID then l else tl (tl l)))
      else (FILE_LONG, tl l))"

definition get_op :: "u8 \<Rightarrow> u8 option" where
  "get_op c =
     (if c = 0x26 then Some FILE_OPAND else if c = 0x7c then Some FILE_OPOR else if c = 0x5e then Some FILE_OPXOR
      else if c = 0x2b then Some FILE_OPADD else if c = 0x2d then Some FILE_OPMINUS else if c = 0x2a then Some FILE_OPMULTIPLY
      else if c = 0x2f then Some FILE_OPDIVIDE else if c = 0x25 then Some FILE_OPMODULO else None)"

subsection \<open>Conditions\<close>

definition get_cond :: "u8 list \<Rightarrow> u8 \<times> u8 list" where
  "get_cond l =
     (if has_prefix (bytes_of ''if'') l \<and> isspace (ch (drop 2 l)) then (COND_IF, drop 2 l)
      else if has_prefix (bytes_of ''elif'') l \<and> isspace (ch (drop 4 l)) then (COND_ELIF, drop 4 l)
      else if has_prefix (bytes_of ''else'') l \<and> isspace (ch (drop 4 l)) then (COND_ELSE, drop 4 l)
      else (COND_NONE, l))"

text \<open>The next state of a level after a condition; \<open>None\<close> is a syntax error.\<close>

definition next_cond :: "u8 \<Rightarrow> u8 \<Rightarrow> u8 option" where
  "next_cond last_cond cond =
     (if cond = COND_IF then (if last_cond \<noteq> COND_NONE \<and> last_cond \<noteq> COND_ELIF then None else Some COND_IF)
      else if cond = COND_ELIF then (if last_cond \<noteq> COND_IF \<and> last_cond \<noteq> COND_ELIF then None else Some COND_ELIF)
      else if cond = COND_ELSE then (if last_cond \<noteq> COND_IF \<and> last_cond \<noteq> COND_ELIF then None else Some COND_NONE)
      else if cond = COND_NONE then Some COND_NONE
      else Some last_cond)"

definition check_cond :: "magic_set \<Rightarrow> u8 \<Rightarrow> nat \<Rightarrow> bool \<times> magic_set" where
  "check_cond ms cond cont_level =
     (let li = ms_li ms ! cont_level in
      case next_cond (li_last_cond li) cond of
        None \<Rightarrow> (False, check_warn ms)
      | Some lc \<Rightarrow> (True, ms\<lparr>ms_li := (ms_li ms)[cont_level := li\<lparr>li_last_cond := lc\<rparr>]\<rparr>))"

subsection \<open>Strings\<close>

definition hextoint :: "u8 \<Rightarrow> int" where
  "hextoint c =
     (if \<not> isascii c then -1
      else if isdigit c then uint c - 0x30
      else if 0x61 \<le> c \<and> c \<le> 0x66 then uint c + 10 - 0x61
      else if 0x41 \<le> c \<and> c \<le> 0x46 then uint c + 10 - 0x41
      else -1)"

definition isoctal :: "u8 \<Rightarrow> bool" where "isoctal c \<longleftrightarrow> 0x30 \<le> c \<and> c \<le> 0x37"

text \<open>After a backslash and an octal digit, and after a backslash and an x.\<close>

definition octal_escape :: "u8 \<Rightarrow> u8 list \<Rightarrow> u8 \<times> u8 list" where
  "octal_escape c s =
     (let val = c - 0x30 in
      if isoctal (ch s) then
        (let val = push_bit 3 val OR (ch s - 0x30) in
         if isoctal (ch (tl s)) then (push_bit 3 val OR (ch (tl s) - 0x30), tl (tl s)) else (val, tl s))
      else (val, s))"

definition hex_escape :: "u8 list \<Rightarrow> u8 \<times> u8 list" where
  "hex_escape s =
     (let c = hextoint (ch s) in
      if c \<ge> 0 then
        (let d = hextoint (ch (tl s)) in
         if d \<ge> 0 then (push_bit 4 (word_of_int c) + word_of_int d, tl (tl s)) else (word_of_int c, tl s))
      else (0x78, s))"

definition control_escape :: "u8 \<Rightarrow> u8 option" where
  "control_escape c =
     (if c = 0x61 then Some 0x07 else if c = 0x62 then Some 0x08 else if c = 0x66 then Some 0x0c else if c = 0x6e then Some 0x0a
      else if c = 0x72 then Some 0x0d else if c = 0x74 then Some 0x09 else if c = 0x76 then Some 0x0b else None)"

text \<open>The warnings of an escape: whether one is given, and whether warnings stay on.\<close>

definition plain_escape :: "u8 \<Rightarrow> bool" where
  "plain_escape c \<longleftrightarrow> c = 0x20 \<or> c = 0x3e \<or> c = 0x3c \<or> c = 0x26 \<or> c = 0x5e \<or> c = 0x3d \<or> c = 0x21 \<or> c = 0x5c"

definition escape_warns :: "u8 \<Rightarrow> nat \<Rightarrow> bool \<Rightarrow> u8 \<Rightarrow> bool \<times> bool" where
  "escape_warns ty nest warn c =
     (if c = 0x2e then (ty = FILE_REGEX \<and> nest = 0 \<and> warn, False)
      else if c = 0x09 then (warn, False)
      else if plain_escape c \<or> control_escape c \<noteq> None \<or> isoctal c \<or> c = 0x78 then (False, warn)
      else (warn \<and> (isprint c \<longrightarrow> c \<notin> set (bytes_of ''<>&^=!'') \<and>
             (ty \<noteq> FILE_REGEX \<or> c \<notin> set (bytes_of ''[]().*?^$|{}''))), warn))"

definition escape_byte :: "u8 \<Rightarrow> u8 list \<Rightarrow> u8 \<times> u8 list" where
  "escape_byte c s =
     (if isoctal c then octal_escape c s
      else if c = 0x78 then hex_escape s
      else case control_escape c of Some b \<Rightarrow> (b, s) | None \<Rightarrow> (c, s))"

definition nesting :: "u8 \<Rightarrow> nat \<Rightarrow> nat" where
  "nesting c n = (if c = 0x5b then Suc n else if c = 0x5d \<and> n > 0 then n - 1 else n)"

lemma escape_byte_shorter: "escape_byte c s = (b, r) \<Longrightarrow> length r \<le> length s"
  by (auto simp: escape_byte_def octal_escape_def hex_escape_def Let_def split: if_splits option.splits)

text \<open>The loop: \<open>p\<close> is what has been written, \<open>Inl\<close> the answer \<^verbatim>\<open>NULL\<close> for a string that is too long.\<close>

function getstr_loop ::
  "u8 \<Rightarrow> bool \<Rightarrow> nat \<Rightarrow> u8 list \<Rightarrow> magic_set \<Rightarrow> u8 list \<Rightarrow> (u8 list \<times> magic_set) + u8 list \<times> u8 list \<times> magic_set" where
  "getstr_loop ty warn nest p ms [] = Inr (p, [], ms)"
| "getstr_loop ty warn nest p ms (c # s) =
     (if isspace c then Inr (p, c # s, ms)
      else if length p \<ge> MAXstring - 1 then Inl (p, ms)
      else if c \<noteq> 0x5c then getstr_loop ty warn (nesting c nest) (p @ [c]) ms s
      else case s of
          [] \<Rightarrow> Inr (p, [], if warn then file_magwarn ms else ms)
        | e # s' \<Rightarrow>
            (case (escape_warns ty nest warn e, escape_byte e s') of
               ((w, warn'), (b, r)) \<Rightarrow> getstr_loop ty warn' nest (p @ [b]) (if w then file_magwarn ms else ms) r))"
  by pat_completeness auto
termination
  by (relation "measure (\<lambda>(ty, warn, nest, p, ms, s). length s)")
    (auto dest!: sym [where t = "escape_byte _ _"] escape_byte_shorter)

text \<open>\<open>Inl\<close> is the answer \<^verbatim>\<open>NULL\<close>, with the entry as it was left.\<close>

definition store_string :: "u8 list \<Rightarrow> magic \<Rightarrow> magic" where
  "store_string p m = m\<lparr>m_value := p @ [0] @ drop (Suc (length p)) (m_value m), m_vallen := word_of_nat (length p)\<rparr>"

definition getstr :: "magic_set \<Rightarrow> magic \<Rightarrow> u8 list \<Rightarrow> bool \<Rightarrow> u8 list option \<times> magic \<times> magic_set" where
  "getstr ms m s warn =
     (case getstr_loop (m_type m) warn 0 [] ms s of
        Inl (p, ms) \<Rightarrow> (None, m\<lparr>m_value := p @ drop (length p) (m_value m)\<rparr>, file_error0 ms (bytes_of ''string too long: '' @ quoted s))
      | Inr (p, r, ms) \<Rightarrow>
          (let m = store_string p m in
           if m_type m \<noteq> FILE_PSTRING then (Some r, m, ms)
           else case file_pstring_length_size ms m of (l, ms) \<Rightarrow>
             if l = FILE_BADSIZE \<or> unat (m_vallen m) + unat l > MAXstring then (None, m, ms)
             else (Some r, m\<lparr>m_vallen := m_vallen m + ucast l\<rparr>, ms)))"

text \<open>\<^verbatim>\<open>file_showstr\<close>: what is printed for the given characters.\<close>

definition show_control :: "u8 \<Rightarrow> u8 option" where
  "show_control c =
     (if c = 0x07 then Some 0x61 else if c = 0x08 then Some 0x62 else if c = 0x0c then Some 0x66 else if c = 0x0a then Some 0x6e
      else if c = 0x0d then Some 0x72 else if c = 0x09 then Some 0x74 else if c = 0x0b then Some 0x76 else None)"

definition showchar :: "u8 \<Rightarrow> u8 list" where
  "showchar c =
     (if 0x20 \<le> c \<and> c \<le> 0x7e then [c]
      else case show_control c of Some e \<Rightarrow> [0x5c, e] | None \<Rightarrow> octalify c)"

definition file_showstr :: "u8 list \<Rightarrow> u8 list" where
  "file_showstr s = concat (map showchar s)"

subsection \<open>Modifiers\<close>

text \<open>\<^verbatim>\<open>parse_indirect_modifier\<close>; the argument is the text after the slash.\<close>

fun parse_indirect_modifier :: "magic_set \<Rightarrow> magic \<Rightarrow> u8 list \<Rightarrow> bool \<times> magic \<times> u8 list \<times> magic_set" where
  "parse_indirect_modifier ms m [] = (False, m, [], check_warn ms)"
| "parse_indirect_modifier ms m (c # l) =
     (if isspace c then (True, m, c # l, ms)
      else if c = 0x72 then parse_indirect_modifier ms (set_str (str_range m) (str_flags m OR INDIRECT_RELATIVE) m) l
      else (False, m, c # l, check_warn ms))"

text \<open>The flag of a modifier letter that every string type takes, and the length of a Pascal string.\<close>

definition string_flag :: "u8 \<Rightarrow> u32 option" where
  "string_flag c =
     (if c = 0x57 then Some STRING_COMPACT_WHITESPACE else if c = 0x77 then Some STRING_COMPACT_OPTIONAL_WHITESPACE
      else if c = 0x63 then Some STRING_IGNORE_LOWERCASE else if c = 0x43 then Some STRING_IGNORE_UPPERCASE
      else if c = 0x73 then Some REGEX_OFFSET_START else if c = 0x62 then Some STRING_BINTEST
      else if c = 0x74 then Some STRING_TEXTTEST else if c = 0x54 then Some STRING_TRIM
      else if c = 0x66 then Some STRING_FULL_WORD else None)"

definition length_flag :: "u8 \<Rightarrow> u8 \<Rightarrow> u32 option" where
  "length_flag ty c =
     (if c = 0x6c \<and> (ty = FILE_PSTRING \<or> ty = FILE_REGEX) then Some PSTRING_4_LE
      else if ty \<noteq> FILE_PSTRING then None
      else if c = 0x42 then Some PSTRING_1_LE else if c = 0x48 then Some PSTRING_2_BE else if c = 0x68 then Some PSTRING_2_LE
      else if c = 0x4c then Some PSTRING_4_BE else None)"

definition add_flag :: "u32 \<Rightarrow> magic \<Rightarrow> magic" where
  "add_flag f m = set_str (str_range m) (str_flags m OR f) m"

definition SET_LENGTH :: "u32 \<Rightarrow> magic \<Rightarrow> magic" where
  "SET_LENGTH a m = set_str (str_range m) ((str_flags m AND NOT PSTRING_LEN) OR a) m"

text \<open>One modifier letter; \<open>None\<close> is the branch \<^verbatim>\<open>bad\<close>.\<close>

definition string_letter :: "magic \<Rightarrow> u8 \<Rightarrow> magic option" where
  "string_letter m c =
     (case string_flag c of
        Some f \<Rightarrow> Some (add_flag f m)
      | None \<Rightarrow>
          (case length_flag (m_type m) c of
             Some a \<Rightarrow> Some (SET_LENGTH a m)
           | None \<Rightarrow> if c = 0x4a \<and> m_type m = FILE_PSTRING then Some (add_flag PSTRING_LENGTH_INCLUDES_ITSELF m) else None))"

definition string_modifier_check :: "magic_set \<Rightarrow> magic \<Rightarrow> bool \<times> magic \<times> magic_set" where
  "string_modifier_check ms m =
     (let t = m_type m; fl = str_flags m; warned = (False, m, file_magwarn ms) in
      if \<not> has (ms_flags ms) MAGIC_CHECK then (True, m, ms)
      else if (t \<noteq> FILE_REGEX \<or> \<not> has fl REGEX_LINE_COUNT) \<and> t \<noteq> FILE_PSTRING \<and> has fl PSTRING_LEN then warned
      else if t = FILE_BESTRING16 \<or> t = FILE_LESTRING16 then (if fl \<noteq> 0 then warned else (True, m, ms))
      else if t = FILE_STRING \<or> t = FILE_PSTRING then (if has fl REGEX_OFFSET_START then warned else (True, m, ms))
      else if t = FILE_SEARCH
      then (if str_range m = 0 then (False, set_str 100 fl m, file_magwarn ms) else (True, m, ms))
      else if t = FILE_REGEX
      then (if has fl STRING_COMPACT_WHITESPACE \<or> has fl STRING_COMPACT_OPTIONAL_WHITESPACE then warned else (True, m, ms))
      else warned)"

lemma scan_digits_shorter:
  assumes "isdigit (ch l)" "scan_number l = Some (neg, n, r)"
  shows "length r < length l"
proof -
  have l: "l \<noteq> []" "\<not> isspace (ch l)" "ch l \<noteq> 0x2d" "ch l \<noteq> 0x2b"
    using assms(1) by (auto simp: isdigit_def isspace_def word_le_nat_alt)
  then have t: "dropWhile isspace l = l" by (cases l) simp_all
  have d: "length (dropWhile P v) < length v" if "takeWhile P v \<noteq> []" for P and v :: "u8 list"
    using that by (cases v) (auto split: if_splits simp: less_Suc_eq_le length_dropWhile_le)
  have "length (snd (snd (digits_of l))) \<le> length l"
    using l by (cases l; cases "tl l") (simp_all add: digits_of_def)
  then show ?thesis
    using assms(2) l t d by (fastforce simp: scan_number_def Let_def split: prod.splits if_splits)
qed

lemma strtoull_shorter:
  assumes "isdigit c" "strtoull (c # l) = (v, r, e)" "r \<noteq> c # l"
  shows "length r \<le> length l"
  using assms scan_digits_shorter [of "c # l"]
  by (fastforce simp: strtoull_def split: option.splits prod.splits if_splits)

text \<open>After a modifier a slash may follow for readability.\<close>

definition skip_slash :: "u8 list \<Rightarrow> u8 list" where
  "skip_slash l = (if ch l = 0x2f \<and> \<not> isspace (ch (tl l)) then tl l else l)"

lemma skip_slash_shorter: "length (skip_slash l) \<le> length l"
  by (simp add: skip_slash_def)

text \<open>The loop of \<^verbatim>\<open>parse_string_modifier\<close>; the argument is the text at \<^verbatim>\<open>*++l\<close>.  A digit is always the start of a number.\<close>

definition range_warns :: "magic_set \<Rightarrow> bool \<Rightarrow> u32 \<Rightarrow> magic_set" where
  "range_warns ms have_range rng =
     (let ms = (if have_range then check_warn ms else ms) in if rng = 0 then file_magwarn ms else ms)"

function string_modifiers :: "magic_set \<Rightarrow> magic \<Rightarrow> bool \<Rightarrow> u8 list \<Rightarrow> bool \<times> magic \<times> u8 list \<times> magic_set" where
  "string_modifiers ms m have_range [] = (False, m, [], check_warn ms)"
| "string_modifiers ms m have_range (c # l) =
     (if isspace c then (True, m, c # l, ms)
      else if isdigit c
      then (case strtoul (c # l) of (v, t, _) \<Rightarrow>
         if t = c # l then (False, m, c # l, ms)
         else string_modifiers (range_warns ms have_range (ucast v)) (set_str (ucast v) (str_flags m) m) True (skip_slash t))
      else case string_letter m c of
          Some m \<Rightarrow> string_modifiers ms m have_range (skip_slash l)
        | None \<Rightarrow> (False, m, c # l, check_warn ms))"
  by pat_completeness auto
termination
  by (relation "measure (\<lambda>(ms, m, h, l). length l)")
    (auto simp: less_Suc_eq_le dest!: sym [where t = "strtoull _"] dest: strtoull_shorter intro: le_trans [OF skip_slash_shorter])

definition parse_string_modifier :: "magic_set \<Rightarrow> magic \<Rightarrow> u8 list \<Rightarrow> bool \<times> magic \<times> u8 list \<times> magic_set" where
  "parse_string_modifier ms m l =
     (case string_modifiers ms m False l of
        (False, m, l, ms) \<Rightarrow> (False, m, l, ms)
      | (True, m, l, ms) \<Rightarrow> (case string_modifier_check ms m of (ok, m, ms) \<Rightarrow> (ok, m, l, ms)))"

definition parse_op_modifier :: "magic \<Rightarrow> u8 list \<Rightarrow> u8 \<Rightarrow> magic \<times> u8 list" where
  "parse_op_modifier m l op =
     (let m = m\<lparr>m_mask_op := m_mask_op m OR op\<rparr> in
      case strtoull l of (val, t, _) \<Rightarrow> (m\<lparr>m_u := file_signextend m val\<rparr>, eatsize t))"

subsection \<open>The format of a description\<close>

text \<open>\<^verbatim>\<open>CHECKLEN\<close>: \<open>None\<close> is the jump to \<^verbatim>\<open>toolong\<close>.\<close>

definition CHECKLEN :: "u8 list \<Rightarrow> u8 list option" where
  "CHECKLEN ptr =
     (let ds = takeWhile isdigit ptr in
      if length ds > 5 \<or> base_number 10 ds > 1024 then None else Some (dropWhile isdigit ptr))"

definition skip_dot :: "u8 list \<Rightarrow> u8 list" where
  "skip_dot ptr = (if ch ptr = 0x2e then tl ptr else ptr)"

definition field_width :: "u8 list \<Rightarrow> u8 list option" where
  "field_width ptr = (case CHECKLEN ptr of None \<Rightarrow> None | Some ptr \<Rightarrow> CHECKLEN (skip_dot ptr))"

definition num_h :: "u8 \<Rightarrow> fatal + nat" where
  "num_h ty =
     (if ty = FILE_BYTE then Inr 2
      else if ty = FILE_SHORT \<or> ty = FILE_BESHORT \<or> ty = FILE_LESHORT then Inr 1
      else if ty = FILE_LONG \<or> ty = FILE_BELONG \<or> ty = FILE_LELONG \<or> ty = FILE_MELONG \<or> ty = FILE_LEID3 \<or> ty = FILE_BEID3 \<or>
              ty = FILE_INDIRECT then Inr 0
      else Inl Bad_number_format)"

definition num_conversion :: "nat \<Rightarrow> u8 \<Rightarrow> bool" where
  "num_conversion h c \<longleftrightarrow> c = 0x63 \<and> h = 2 \<or> c \<in> set (bytes_of ''iduoxX'')"

definition check_num :: "bool \<Rightarrow> nat \<Rightarrow> u8 list \<Rightarrow> bool" where
  "check_num quad h ptr =
     (case field_width (dropWhile (\<lambda>c. c \<in> set (bytes_of ''+-.#'')) ptr) of
        None \<Rightarrow> False
      | Some ptr \<Rightarrow>
          if quad then ch ptr = 0x6c \<and> ch (tl ptr) = 0x6c \<and> num_conversion h (ch (tl (tl ptr))) else num_conversion h (ch ptr))"

definition check_float :: "u8 list \<Rightarrow> bool" where
  "check_float ptr =
     (case field_width (skip_dot (if ch ptr = 0x2d then tl ptr else ptr)) of
        None \<Rightarrow> False | Some ptr \<Rightarrow> ch ptr \<in> set (bytes_of ''eEfFgG''))"

definition check_str :: "u8 list \<Rightarrow> bool" where
  "check_str ptr =
     (let ptr = dropWhile isdigit (if ch ptr = 0x2d then tl ptr else ptr);
          ptr = (if ch ptr = 0x2e then dropWhile isdigit (tl ptr) else ptr)
      in ch ptr = 0x73)"

text \<open>\<^verbatim>\<open>check_format_type\<close>: whether the answer is 0, or the call of \<^verbatim>\<open>abort\<close>.  \<^verbatim>\<open>STRICT_FORMAT\<close> is not defined.\<close>

definition check_format_type :: "u8 list \<Rightarrow> u8 \<Rightarrow> fatal + bool" where
  "check_format_type ptr ty =
     (if ch ptr = 0 then Inr False
      else case file_formats ty of
          FILE_FMT_QUAD \<Rightarrow> Inr (check_num True 0 ptr)
        | FILE_FMT_NUM \<Rightarrow> (case num_h ty of Inl e \<Rightarrow> Inl e | Inr h \<Rightarrow> Inr (check_num False h ptr))
        | FILE_FMT_FLOAT \<Rightarrow> Inr (check_float ptr)
        | FILE_FMT_DOUBLE \<Rightarrow> Inr (check_float ptr)
        | FILE_FMT_STR \<Rightarrow> Inr (check_str ptr)
        | FILE_FMT_NONE \<Rightarrow> Inl Bad_file_format)"

text \<open>\<^verbatim>\<open>check_format\<close>: whether the answer is not -1.\<close>

definition check_format :: "magic_set \<Rightarrow> magic \<Rightarrow> fatal + bool \<times> magic_set" where
  "check_format ms m =
     (case dropWhile (\<lambda>c. c \<noteq> 0x25) (cstr (m_desc m)) of
        [] \<Rightarrow> Inr (True, ms)
      | _ # ptr \<Rightarrow>
          if m_type m > FILE_OCTAL \<or> file_formats (m_type m) = FILE_FMT_NONE then Inr (False, file_magwarn ms)
          else case check_format_type ptr (m_type m) of
              Inl e \<Rightarrow> Inl e
            | Inr False \<Rightarrow> Inr (False, file_magwarn ms)
            | Inr True \<Rightarrow> if 0x25 \<in> set ptr then Inr (False, file_magwarn ms) else Inr (True, ms))"

subsection \<open>Printed strings are read back\<close>

lemma octal_digits: "isoctal ((drop_bit 6 c AND 7) + 0x30)" "isoctal ((drop_bit 3 c AND 7) + 0x30)" "isoctal ((c AND 7) + 0x30 :: u8)"
proof -
  have "isoctal ((w AND 7) + 0x30)" for w :: u8
  proof -
    have "w AND 7 = w AND mask 3" by (simp add: mask_eq_exp_minus_1)
    then have "unat (w AND 7) = unat w mod 8" using unat_and_mask [of w 3] by simp
    then have "unat ((w AND 7) + 0x30) = unat w mod 8 + 48"
      by (simp add: unat_plus_if')
    then show ?thesis by (simp add: isoctal_def word_le_nat_alt)
  qed
  then show "isoctal ((drop_bit 6 c AND 7) + 0x30)" "isoctal ((drop_bit 3 c AND 7) + 0x30)" "isoctal ((c AND 7) + 0x30 :: u8)"
    by blast+
qed

lemma octal_join: "push_bit 3 (push_bit 3 (drop_bit 6 c AND 7) OR (drop_bit 3 c AND 7)) OR (c AND 7) = (c :: u8)"
proof (rule bit_word_eqI)
  fix n assume "n < LENGTH(8)"
  then have "n = 0 \<or> n = 1 \<or> n = 2 \<or> n = 3 \<or> n = 4 \<or> n = 5 \<or> n = 6 \<or> n = 7" by auto
  then show "bit (push_bit 3 (push_bit 3 (drop_bit 6 c AND 7) OR (drop_bit 3 c AND 7)) OR (c AND 7)) n = bit c n"
    by (elim disjE) (simp_all add: bit_or_iff bit_and_iff bit_push_bit_iff bit_drop_bit_eq bit_numeral_rec)
qed

lemma escape_octalify: "octalify c = 0x5c # d # r \<Longrightarrow> escape_byte d (r @ s) = (c, s)"
  using octal_digits [of c] octal_join [of c]
  by (auto simp: octalify_def escape_byte_def octal_escape_def Let_def)

lemma showchar_cases:
  assumes "c \<noteq> 0x5c" "c \<noteq> 0x20"
  obtains (plain) "showchar c = [c]" "\<not> isspace c"
    | (escaped) e r where "showchar c = 0x5c # e # r" "\<And>s. escape_byte e (r @ s) = (c, s)" "\<And>ty n w. escape_warns ty n w e = (False, w)"
proof (cases "0x20 \<le> c \<and> c \<le> 0x7e")
  case True
  then have "\<not> isspace c" using assms by (auto simp: isspace_def word_le_nat_alt)
  then show ?thesis using True plain by (simp add: showchar_def)
next
  case False
  show ?thesis
  proof (cases "show_control c")
    case (Some e)
    then have "control_escape e = Some c \<and> \<not> isoctal e \<and> e \<noteq> 0x78 \<and> e \<noteq> 0x2e \<and> e \<noteq> 0x09"
      by (auto simp: show_control_def control_escape_def isoctal_def split: if_splits)
    then show ?thesis using escaped [of e "[]"] False Some by (simp add: showchar_def escape_byte_def escape_warns_def)
  next
    case None
    obtain e r where o: "octalify c = 0x5c # e # r" "e = (drop_bit 6 c AND 7) + 0x30" by (simp add: octalify_def)
    then have "isoctal e" using octal_digits(1) by simp
    then have "escape_warns ty n w e = (False, w)" for ty n w by (auto simp: escape_warns_def isoctal_def word_le_nat_alt)
    with o(1) escape_octalify [OF o(1)] show ?thesis using escaped False None by (simp add: showchar_def)
  qed
qed

lemma getstr_loop_showstr:
  assumes "length p + length s \<le> 127" "0x5c \<notin> set s" "0x20 \<notin> set s" "rest = [] \<or> isspace (hd rest)"
  shows "getstr_loop ty warn nest p ms (file_showstr s @ rest) = Inr (p @ s, rest, ms)"
  using assms
proof (induction s arbitrary: p nest)
  case Nil
  then show ?case by (cases rest) (simp_all add: file_showstr_def)
next
  case (Cons c s)
  have l: "length p < 127" using Cons.prems(1) by simp
  have ih: "getstr_loop ty warn n (p @ [c]) ms (file_showstr s @ rest) = Inr ((p @ [c]) @ s, rest, ms)" for n
    using Cons.prems by (intro Cons.IH) simp_all
  have f: "file_showstr (c # s) = showchar c @ file_showstr s" by (simp add: file_showstr_def)
  have "c \<noteq> 0x5c" "c \<noteq> 0x20" using Cons.prems by auto
  then show ?case
  proof (cases rule: showchar_cases)
    case plain
    then show ?thesis using ih l \<open>c \<noteq> 0x5c\<close> by (simp add: f)
  next
    case (escaped e r)
    then show ?thesis using ih l by (simp add: f isspace_def)
  qed
qed

subsection \<open>Properties\<close>

text \<open>C20.  A string that \<^verbatim>\<open>file_showstr\<close> prints is the string that \<^verbatim>\<open>getstr\<close> reads: every string of at most 127 characters, NUL and
  control characters included, comes back with its length, without a warning, and the reader stops at the blank
  behind it.  Only blanks and backslashes, which the printer does not escape, are left out.\<close>

theorem getstr_showstr:
  assumes "length s \<le> 127" "0x5c \<notin> set s" "0x20 \<notin> set s" "rest = [] \<or> isspace (hd rest)" "m_type m \<noteq> FILE_PSTRING"
  shows "getstr ms m (file_showstr s @ rest) warn =
    (Some rest, m\<lparr>m_value := s @ [0] @ drop (Suc (length s)) (m_value m), m_vallen := word_of_nat (length s)\<rparr>, ms)"
proof -
  have "getstr_loop (m_type m) warn 0 [] ms (file_showstr s @ rest) = Inr (s, rest, ms)"
    using getstr_loop_showstr [where p = "[]" and s = s and rest = rest] assms by simp
  then show ?thesis using assms(5) by (simp add: getstr_def store_string_def)
qed

theorem getstr_showstr_witness:
  "getstr ms0 (sized0\<lparr>m_type := FILE_STRING\<rparr>) ([0x5c] @ bytes_of ''177ELF x'') True =
    (Some (bytes_of '' x''), sized0\<lparr>m_type := FILE_STRING, m_value := [0x7f, 0x45, 0x4c, 0x46] @ [0] @ replicate 123 0, m_vallen := 4\<rparr>, ms0)"
proof -
  have s: "file_showstr [0x7f, 0x45, 0x4c, 0x46] @ bytes_of '' x'' = [0x5c] @ bytes_of ''177ELF x''"
    by (simp add: file_showstr_def showchar_def show_control_def octalify_def bytes_of_def)
  show ?thesis
    using getstr_showstr [of "[0x7f, 0x45, 0x4c, 0x46]" "bytes_of '' x''" "sized0\<lparr>m_type := FILE_STRING\<rparr>" ms0 True]
    unfolding s by (simp add: sized0_def m0_def bytes_of_def isspace_def)
qed

end
