(* ===== verification/Magic_Parse.thy ===== *)
theory Magic_Parse
  imports Magic_Lex Softprint
begin

text \<open>
  The magic file parser (\<^verbatim>\<open>src/apprentice.c\<close>): \<^verbatim>\<open>getvalue\<close>, \<^verbatim>\<open>parse\<close> for a line of magic, and the annotations
  \<^verbatim>\<open>parse_strength\<close>, \<^verbatim>\<open>parse_mime\<close>, \<^verbatim>\<open>parse_apple\<close> and \<^verbatim>\<open>parse_ext\<close>.

  \<^verbatim>\<open>parse\<close> is a sequence of stages over a state of the query, the entry being filled and the rest of the line.  A stage
  ends with \<open>Next\<close>, or with \<open>Reject\<close>, which is the answer -1 and leaves the entry as far as it was filled, or
  with \<open>Abort\<close>, which is a call of \<^verbatim>\<open>abort\<close> or an access outside the array of levels.  The floating-point readers of the C library are arguments, \<open>fp\<close>: the
  bits of the number, the rest of the text and whether \<^verbatim>\<open>errno\<close> is set.
\<close>

record lstate =
  ls_ms :: magic_set
  ls_m :: magic
  ls_l :: "u8 list"

datatype outcome = Next lstate | Reject lstate | Abort fatal

fun followed_by :: "outcome \<Rightarrow> (lstate \<Rightarrow> outcome) \<Rightarrow> outcome" where
  "followed_by (Next s) f = f s"
| "followed_by (Reject s) f = Reject s"
| "followed_by (Abort e) f = Abort e"

definition warned :: "lstate \<Rightarrow> outcome" where
  "warned s = Reject (s\<lparr>ls_ms := check_warn (ls_ms s)\<rparr>)"

record fparse =
  fp_strtof :: "u8 list \<Rightarrow> u32 \<times> u8 list \<times> bool"
  fp_strtod :: "u8 list \<Rightarrow> u64 \<times> u8 list \<times> bool"

subsection \<open>The value\<close>

definition string_value_type :: "u8 \<Rightarrow> bool" where
  "string_value_type t \<longleftrightarrow> t = FILE_BESTRING16 \<or> t = FILE_LESTRING16 \<or> t = FILE_STRING \<or> t = FILE_PSTRING \<or> t = FILE_REGEX \<or>
     t = FILE_SEARCH \<or> t = FILE_NAME \<or> t = FILE_USE \<or> t = FILE_DER \<or> t = FILE_OCTAL"

definition guid_bytes :: "guid \<Rightarrow> u8 list" where
  "guid_bytes g = host_bytes False 4 (data1 g) @ host_bytes False 2 (data2 g) @ host_bytes False 2 (data3 g) @ data4 g"

text \<open>The check of the width: whether the number does not fit the type, as \<^verbatim>\<open>x && y\<close> decides it.\<close>

definition overflows :: "nat \<Rightarrow> u64 \<Rightarrow> fatal + bool" where
  "overflows ts ull =
     (let test = (\<lambda>m. ull AND NOT m \<noteq> 0 \<and> (ull AND NOT m) AND NOT m \<noteq> NOT m) in
      if ts = 1 then Inr (test 0xff) else if ts = 2 then Inr (test 0xffff) else if ts = 4 then Inr (test 0xffffffff)
      else if ts = 8 then Inr False else Inl Bad_width)"

definition value_warn :: "lstate \<Rightarrow> outcome" where
  "value_warn s = Reject (s\<lparr>ls_ms := file_magwarn (ls_ms s)\<rparr>)"

definition getvalue_string :: "env \<Rightarrow> bool \<Rightarrow> lstate \<Rightarrow> outcome" where
  "getvalue_string env compiling s =
     (case getstr (ls_ms s) (ls_m s) (ls_l s) compiling of
        (None, m, ms) \<Rightarrow> Reject (s\<lparr>ls_m := m, ls_ms := check_warn ms\<rparr>)
      | (Some l, m, ms) \<Rightarrow>
          (let s = s\<lparr>ls_m := m, ls_l := l, ls_ms := ms\<rparr> in
           if m_type m = FILE_REGEX
           then (case file_regcomp env ms (cstr (m_value m)) (regex_icase m) of (rc, ms) \<Rightarrow>
             if rc \<noteq> 0 then Reject (s\<lparr>ls_ms := ms\<rparr>) else Next (s\<lparr>ls_ms := ms\<rparr>))
           else Next s))"

definition getvalue_number :: "lstate \<Rightarrow> outcome" where
  "getvalue_number s =
     (case strtoull (ls_l s) of (ull, ep, erange) \<Rightarrow>
        (let m = ls_m s; s = s\<lparr>ls_m := m\<lparr>m_value := put_q (file_signextend m ull) (m_value m)\<rparr>\<rparr> in
         if ep = ls_l s then value_warn s
         else case typesize (m_type m) of
             None \<Rightarrow> value_warn s
           | Some ts \<Rightarrow>
               (let ull = (if ch (dropWhile isspace (ls_l s)) = 0x2d \<and> ull \<noteq> -1 then - ull else ull) in
                case overflows ts ull of
                  Inl e \<Rightarrow> Abort e
                | Inr True \<Rightarrow> value_warn s
                | Inr False \<Rightarrow> Next (if erange then s else s\<lparr>ls_l := eatsize ep\<rparr>))))"

definition getvalue :: "env \<Rightarrow> fparse \<Rightarrow> bool \<Rightarrow> lstate \<Rightarrow> outcome" where
  "getvalue env fp compiling s =
     (let m = ls_m s; t = m_type m in
      if string_value_type t then getvalue_string env compiling s
      else if m_reln m = 0x78 then Next s
      else if t = FILE_FLOAT \<or> t = FILE_BEFLOAT \<or> t = FILE_LEFLOAT
      then (case fp_strtof fp (ls_l s) of (v, ep, erange) \<Rightarrow>
        Next (s\<lparr>ls_m := m\<lparr>m_value := put_l v (m_value m)\<rparr>, ls_l := if erange then ls_l s else ep\<rparr>))
      else if t = FILE_DOUBLE \<or> t = FILE_BEDOUBLE \<or> t = FILE_LEDOUBLE
      then (case fp_strtod fp (ls_l s) of (v, ep, erange) \<Rightarrow>
        Next (s\<lparr>ls_m := m\<lparr>m_value := put_q v (m_value m)\<rparr>, ls_l := if erange then ls_l s else ep\<rparr>))
      else if t = FILE_BEGUID \<or> t = FILE_LEGUID \<or> t = FILE_GUID
      then (case file_parse_guid (ls_l s) of
          None \<Rightarrow> value_warn s
        | Some g \<Rightarrow> Next (s\<lparr>ls_m := m\<lparr>m_value := guid_bytes g @ drop 16 (m_value m)\<rparr>, ls_l := drop 36 (ls_l s)\<rparr>))
      else getvalue_number s)"

subsection \<open>The offset\<close>

definition or_flag :: "u16 \<Rightarrow> lstate \<Rightarrow> lstate" where
  "or_flag f s = s\<lparr>ls_m := (ls_m s)\<lparr>m_flag := m_flag (ls_m s) OR f\<rparr>\<rparr>"

definition step :: "lstate \<Rightarrow> lstate" where
  "step s = s\<lparr>ls_l := tl (ls_l s)\<rparr>"

definition eat :: "lstate \<Rightarrow> lstate" where
  "eat s = s\<lparr>ls_l := EATAB (ls_l s)\<rparr>"

definition offset_prefix :: "lstate \<Rightarrow> lstate" where
  "offset_prefix s =
     (let s = (if ch (ls_l s) = 0x26 then or_flag OFFADD (step s) else s) in
      if ch (ls_l s) \<noteq> 0x28 then s
      else
        (let s = or_flag INDIR (step s);
             m = ls_m s;
             s = (if has (m_flag m) OFFADD then s\<lparr>ls_m := m\<lparr>m_flag := (m_flag m AND NOT OFFADD) OR INDIROFFADD\<rparr>\<rparr> else s)
         in if ch (ls_l s) = 0x26 then or_flag OFFADD (step s) else s))"

definition parse_offset :: "lstate \<Rightarrow> outcome" where
  "parse_offset s =
     (let s = offset_prefix s in
      if m_cont_level (ls_m s) = 0 \<and> has (m_flag (ls_m s)) (OFFADD OR INDIROFFADD) then warned s
      else
        (let c = ch (ls_l s);
             s = (if c = 0x2d then or_flag OFFNEGATIVE (step s) else if c = 0x2b then or_flag OFFPOSITIVE (step s) else s)
         in case strtol (ls_l s) of (v, t) \<Rightarrow>
            (let u = s\<lparr>ls_m := (ls_m s)\<lparr>m_offset := word_of_int v\<rparr>\<rparr> in
             if t = ls_l s then warned u else Next (u\<lparr>ls_l := t\<rparr>))))"

text \<open>The letter that gives the size of an indirect offset.\<close>

definition indir_type :: "u8 \<Rightarrow> u8 option" where
  "indir_type c =
     (if c = 0x6c then Some FILE_LELONG else if c = 0x4c then Some FILE_BELONG else if c = 0x6d then Some FILE_MELONG
      else if c = 0x68 \<or> c = 0x73 then Some FILE_LESHORT else if c = 0x48 \<or> c = 0x53 then Some FILE_BESHORT
      else if c = 0x63 \<or> c = 0x62 \<or> c = 0x43 \<or> c = 0x42 then Some FILE_BYTE
      else if c = 0x65 \<or> c = 0x66 \<or> c = 0x67 then Some FILE_LEDOUBLE
      else if c = 0x45 \<or> c = 0x46 \<or> c = 0x47 then Some FILE_BEDOUBLE
      else if c = 0x69 then Some FILE_LEID3 else if c = 0x49 then Some FILE_BEID3 else if c = 0x6f then Some FILE_OCTAL
      else if c = 0x71 then Some FILE_LEQUAD else if c = 0x51 then Some FILE_BEQUAD else None)"

definition or_in_op :: "u8 \<Rightarrow> lstate \<Rightarrow> lstate" where
  "or_in_op f s = s\<lparr>ls_m := (ls_m s)\<lparr>m_in_op := m_in_op (ls_m s) OR f\<rparr>\<rparr>"

definition parse_in_type :: "lstate \<Rightarrow> outcome" where
  "parse_in_type s =
     (let c = ch (ls_l s) in
      if c \<noteq> 0x2e \<and> c \<noteq> 0x2c then Next s
      else
        (let s = step (if c = 0x2c then or_in_op FILE_OPSIGNED s else s) in
         case indir_type (ch (ls_l s)) of
           None \<Rightarrow> warned s
         | Some t \<Rightarrow> Next (step (s\<lparr>ls_m := (ls_m s)\<lparr>m_in_type := t\<rparr>\<rparr>))))"

definition parse_in_op :: "lstate \<Rightarrow> lstate" where
  "parse_in_op s =
     (let s = (if ch (ls_l s) = 0x7e then step (or_in_op FILE_OPINVERSE s) else s);
          s = (case get_op (ch (ls_l s)) of Some op \<Rightarrow> step (or_in_op op s) | None \<Rightarrow> s)
      in if ch (ls_l s) = 0x28 then step (or_in_op FILE_OPINDIRECT s) else s)"

definition parse_in_offset :: "lstate \<Rightarrow> outcome" where
  "parse_in_offset s =
     (if isdigit (ch (ls_l s)) \<or> ch (ls_l s) = 0x2d
      then (case strtol (ls_l s) of (v, t) \<Rightarrow>
        (let u = s\<lparr>ls_m := (ls_m s)\<lparr>m_in_offset := word_of_int v\<rparr>\<rparr> in
         if t = ls_l s then warned u else Next (u\<lparr>ls_l := t\<rparr>)))
      else Next s)"

definition close_indir :: "lstate \<Rightarrow> outcome" where
  "close_indir s =
     (let two = has (m_in_op (ls_m s)) FILE_OPINDIRECT; l = ls_l s in
      if ch l \<noteq> 0x29 \<or> two \<and> ch (tl l) \<noteq> 0x29 then warned s
      else Next (s\<lparr>ls_l := if two then tl (tl l) else tl l\<rparr>))"

definition parse_indir :: "lstate \<Rightarrow> outcome" where
  "parse_indir s =
     (if \<not> has (m_flag (ls_m s)) INDIR then Next s
      else
        followed_by
          (followed_by (parse_in_type (s\<lparr>ls_m := (ls_m s)\<lparr>m_in_type := FILE_LONG, m_in_offset := 0, m_in_op := 0\<rparr>\<rparr>))
             (\<lambda>s. parse_in_offset (parse_in_op s)))
          close_indir)"

subsection \<open>Condition, type and operator\<close>

definition parse_cond :: "nat \<Rightarrow> lstate \<Rightarrow> outcome" where
  "parse_cond cont_level s =
     (case get_cond (ls_l s) of (cond, l) \<Rightarrow>
        (let s = s\<lparr>ls_m := (ls_m s)\<lparr>m_cond := cond\<rparr>, ls_l := l\<rparr> in
         if cont_level \<ge> length (ms_li (ls_ms s)) then Abort Outside_levels
         else case check_cond (ls_ms s) cond cont_level of (ok, ms) \<Rightarrow>
           if ok then Next (eat (s\<lparr>ls_ms := ms\<rparr>)) else Reject (s\<lparr>ls_ms := ms\<rparr>)))"

text \<open>The type and whether it is unsigned.\<close>

definition type_word :: "u8 list \<Rightarrow> u8 \<times> bool \<times> u8 list" where
  "type_word l =
     (if ch l = 0x75 then
        (case get_type type_tbl (tl l) l of (t, l) \<Rightarrow>
           if t = FILE_INVALID
           then (case get_standard_integer_type l of (t, l) \<Rightarrow> (t, t \<noteq> FILE_INVALID, l))
           else (t, True, l))
      else
        (case get_type type_tbl l l of (t, l) \<Rightarrow>
           if t \<noteq> FILE_INVALID then (t, False, l)
           else if ch l = 0x64 then (case get_standard_integer_type l of (t, l) \<Rightarrow> (t, False, l))
           else if ch l = 0x73 \<and> \<not> isalpha (ch (tl l)) then (FILE_STRING, False, tl l)
           else (t, False, l)))"

definition special_word :: "u8 \<times> bool \<times> u8 list \<Rightarrow> u8 \<times> bool \<times> u8 list" where
  "special_word r =
     (case r of (t, us, l) \<Rightarrow>
        if t \<noteq> FILE_INVALID then r else (case get_type special_tbl l l of (t, l) \<Rightarrow> (t, us, l)))"

definition parse_type :: "nat \<Rightarrow> lstate \<Rightarrow> outcome" where
  "parse_type cont_level s =
     (case special_word (type_word (ls_l s)) of (t, us, l) \<Rightarrow>
        (let s = s\<lparr>ls_m := (ls_m s)\<lparr>m_type := t, m_flag := if us then m_flag (ls_m s) OR UNSIGNED else m_flag (ls_m s)\<rparr>,
                   ls_l := l\<rparr>
         in if t = FILE_INVALID \<or> t = FILE_NAME \<and> cont_level \<noteq> 0 then warned s else Next s))"

definition modified :: "lstate \<Rightarrow> bool \<times> magic \<times> u8 list \<times> magic_set \<Rightarrow> outcome" where
  "modified s r =
     (case r of (ok, m, l, ms) \<Rightarrow>
        (let s = s\<lparr>ls_m := m, ls_l := l, ls_ms := ms\<rparr> in if ok then Next s else Reject s))"

definition parse_op :: "lstate \<Rightarrow> outcome" where
  "parse_op s =
     (let t = m_type (ls_m s); m = (ls_m s)\<lparr>m_mask_op := 0\<rparr>; s = s\<lparr>ls_m := m\<rparr>;
          s = (if ch (ls_l s) \<noteq> 0x7e then s
               else step (if IS_STRING t then s\<lparr>ls_ms := check_warn (ls_ms s)\<rparr>
                          else s\<lparr>ls_m := m\<lparr>m_mask_op := FILE_OPINVERSE\<rparr>\<rparr>));
          s = s\<lparr>ls_m := set_str 0 (if t = FILE_PSTRING then PSTRING_1_LE else 0) (ls_m s)\<rparr>
      in case get_op (ch (ls_l s)) of
           None \<Rightarrow> Next s
         | Some op \<Rightarrow>
             if \<not> IS_STRING t
             then (case parse_op_modifier (ls_m s) (tl (ls_l s)) op of (m, l) \<Rightarrow> Next (s\<lparr>ls_m := m, ls_l := l\<rparr>))
             else if op \<noteq> FILE_OPDIVIDE then warned s
             else if t = FILE_INDIRECT then modified s (parse_indirect_modifier (ls_ms s) (ls_m s) (tl (ls_l s)))
             else modified s (parse_string_modifier (ls_ms s) (ls_m s) (tl (ls_l s))))"

subsection \<open>Relation, value and description\<close>

definition parse_reln :: "lstate \<Rightarrow> outcome" where
  "parse_reln s =
     (let c = ch (ls_l s); set_reln = (\<lambda>r s. s\<lparr>ls_m := (ls_m s)\<lparr>m_reln := r\<rparr>\<rparr>) in
      if c = 0x3e \<or> c = 0x3c then
        (let s = step (set_reln c s) in
         if ch (ls_l s) \<noteq> 0x3d then Next s
         else if has (ms_flags (ls_ms s)) MAGIC_CHECK then Reject (s\<lparr>ls_ms := file_magwarn (ls_ms s)\<rparr>)
         else Next (step s))
      else if c = 0x26 \<or> c = 0x5e \<or> c = 0x3d then
        (let s = step (set_reln c s) in Next (if ch (ls_l s) = 0x3d then step s else s))
      else if c = 0x21 then Next (step (set_reln c s))
      else if c = 0x78 \<and> (isascii (ch (tl (ls_l s))) \<and> isspace (ch (tl (ls_l s))) \<or> ch (tl (ls_l s)) = 0)
      then Next (step (set_reln c s))
      else Next (set_reln 0x3d s))"

definition parse_value :: "env \<Rightarrow> fparse \<Rightarrow> bool \<Rightarrow> lstate \<Rightarrow> outcome" where
  "parse_value env fp compiling s =
     (if m_reln (ls_m s) = 0x78 then Next s
      else if ls_l s = [] then value_warn s
      else getvalue env fp compiling s)"

definition strlcpy :: "u8 list \<Rightarrow> u8 list \<Rightarrow> nat \<Rightarrow> u8 list" where
  "strlcpy dst src siz =
     (let t = take (siz - 1) (cstr src) in if siz = 0 then dst else t @ [0] @ drop (Suc (length t)) dst)"

text \<open>Copying at most 64 characters, the terminator included; an empty description is followed by the name of the file.\<close>

definition copy_desc :: "u8 list \<Rightarrow> u8 list \<Rightarrow> u8 list \<Rightarrow> u8 list" where
  "copy_desc file l old =
     (let n = min MAXDESC (Suc (length l)); d = take n (l @ [0]) @ drop n old;
          d = (if ch d = 0 then 0 # strlcpy (tl d) file (MAXDESC - 1) else d)
      in if n = MAXDESC then d[MAXDESC - 1 := 0] else d)"

definition parse_desc :: "u8 list \<Rightarrow> lstate \<Rightarrow> outcome" where
  "parse_desc file s =
     (let s = eat s;
          s = (if ch (ls_l s) = 0x08 then or_flag NOSPACE (step s)
               else if ch (ls_l s) = 0x5c \<and> ch (tl (ls_l s)) = 0x62 then or_flag NOSPACE (step (step s)) else s);
          s' = s\<lparr>ls_m := (ls_m s)\<lparr>m_desc := copy_desc file (ls_l s) (m_desc (ls_m s))\<rparr>,
                 ls_ms := if Suc (length (ls_l s)) \<ge> MAXDESC then check_warn (ls_ms s) else ls_ms s\<rparr>
      in if \<not> has (ms_flags (ls_ms s')) MAGIC_CHECK then Next s'
         else case check_format (ls_ms s') (ls_m s') of
             Inl e \<Rightarrow> Abort e
           | Inr (ok, ms) \<Rightarrow> if ok then Next (s'\<lparr>ls_ms := ms\<rparr>) else Reject (s'\<lparr>ls_ms := ms\<rparr>))"

definition clear_mime :: "lstate \<Rightarrow> outcome" where
  "clear_mime s = Next (s\<lparr>ls_m := (ls_m s)\<lparr>m_mimetype := 0 # tl (m_mimetype (ls_m s))\<rparr>\<rparr>)"

text \<open>The stages from the offset on.\<close>

definition parse_entry :: "env \<Rightarrow> fparse \<Rightarrow> u8 list \<Rightarrow> bool \<Rightarrow> nat \<Rightarrow> lstate \<Rightarrow> outcome" where
  "parse_entry env fp file compiling cont_level s =
     foldl followed_by (parse_offset s)
       [parse_indir, \<lambda>s. parse_cond cont_level (eat s), parse_type cont_level, parse_op, \<lambda>s. parse_reln (eat s),
        parse_value env fp compiling, parse_desc file, clear_mime]"

subsection \<open>A line of magic\<close>

text \<open>The state between lines: the query, the entry being collected (\<^verbatim>\<open>me->mp\<close> is \<^verbatim>\<open>NULL\<close> for the empty list) and the static
  variable \<^verbatim>\<open>last_cont_level\<close>.  Allocation succeeds.  The test of the end of the line in the first loop cannot
  succeed, since the terminator stops the loop before.\<close>

record pstate =
  ps_ms :: magic_set
  ps_me :: magic_entry
  ps_last :: nat

definition levels_of :: "u8 list \<Rightarrow> nat" where
  "levels_of l = length (takeWhile (\<lambda>c. c = 0x3e) l) mod 2 ^ 32"

definition check_levels :: "env \<Rightarrow> nat \<Rightarrow> pstate \<Rightarrow> pstate" where
  "check_levels env cont_level ps =
     ps\<lparr>ps_ms := if cont_level = 0 \<or> cont_level > ps_last ps then snd (file_check_mem (e_fresh env) (ps_ms ps) cont_level) else ps_ms ps,
        ps_last := cont_level\<rparr>"

definition deep_warn :: "nat \<Rightarrow> pstate \<Rightarrow> magic_set" where
  "deep_warn cont_level ps =
     (if sint (word_of_nat cont_level :: u32) - uint (m_cont_level (List.last (ps_me ps))) > 1 then file_magwarn (ps_ms ps) else ps_ms ps)"

definition blank_entry :: "nat \<Rightarrow> nat \<Rightarrow> magic" where
  "blank_entry cont_level lineno = sized0\<lparr>m_cont_level := word_of_nat cont_level, m_lineno := word_of_nat lineno\<rparr>"

text \<open>Parsing the rest of the line into the new entry, the last of \<^verbatim>\<open>me\<close>.\<close>

definition fill_entry :: "env \<Rightarrow> fparse \<Rightarrow> u8 list \<Rightarrow> bool \<Rightarrow> nat \<Rightarrow> nat \<Rightarrow> u8 list \<Rightarrow> pstate \<Rightarrow> fatal + int \<times> pstate" where
  "fill_entry env fp file compiling cont_level lineno l ps =
     (case parse_entry env fp file compiling cont_level
             \<lparr>ls_ms = ps_ms ps, ls_m = blank_entry cont_level lineno, ls_l = l\<rparr> of
        Next s \<Rightarrow> Inr (0, ps\<lparr>ps_ms := ls_ms s, ps_me := ps_me ps @ [ls_m s]\<rparr>)
      | Reject s \<Rightarrow> Inr (-1, ps\<lparr>ps_ms := ls_ms s, ps_me := ps_me ps @ [ls_m s]\<rparr>)
      | Abort e \<Rightarrow> Inl e)"

definition parse :: "env \<Rightarrow> fparse \<Rightarrow> u8 list \<Rightarrow> bool \<Rightarrow> nat \<Rightarrow> u8 list \<Rightarrow> pstate \<Rightarrow> fatal + int \<times> pstate" where
  "parse env fp file compiling lineno line ps =
     (let cont_level = levels_of line; l = dropWhile (\<lambda>c. c = 0x3e) line; ps = check_levels env cont_level ps in
      if cont_level \<noteq> 0 then
        (if ps_me ps = [] then Inr (-1, ps\<lparr>ps_ms := file_magerror (ps_ms ps) (bytes_of ''No current entry for continuation'')\<rparr>)
         else fill_entry env fp file compiling cont_level lineno l (ps\<lparr>ps_ms := deep_warn cont_level ps\<rparr>))
      else if ps_me ps \<noteq> [] then Inr (1, ps)
      else fill_entry env fp file compiling 0 lineno l ps)"

subsection \<open>Annotations\<close>

text \<open>They change the first entry (\<^verbatim>\<open>parse_strength\<close>) or the last one; \<open>True\<close> is the answer 0.\<close>

definition strength_op :: "u8 list \<Rightarrow> (u8 \<times> u8 list) option" where
  "strength_op l =
     (let c = ch l in
      if c = 0 then Some (FILE_FACTOR_OP_NONE, l)
      else if c = FILE_FACTOR_OP_PLUS \<or> c = FILE_FACTOR_OP_MINUS \<or> c = FILE_FACTOR_OP_TIMES \<or> c = FILE_FACTOR_OP_DIV then Some (c, tl l)
      else None)"

definition parse_strength :: "magic_set \<Rightarrow> magic \<Rightarrow> u8 list \<Rightarrow> bool \<times> magic \<times> magic_set" where
  "parse_strength ms m line =
     (let warned = (\<lambda>m. (False, m, file_magwarn ms)); none = m\<lparr>m_factor_op := FILE_FACTOR_OP_NONE, m_factor := 0\<rparr> in
      if m_factor_op m \<noteq> FILE_FACTOR_OP_NONE \<or> m_type m = FILE_NAME then warned m
      else case strength_op (EATAB line) of
          None \<Rightarrow> warned m
        | Some (op, l) \<Rightarrow>
            (case strtoul (EATAB l) of (factor, el, _) \<Rightarrow>
               if factor > 255 \<or> ch el \<noteq> 0 \<and> \<not> isspace (ch el) then warned none
               else if factor = 0 \<and> op = FILE_FACTOR_OP_DIV then warned none
               else (True, m\<lparr>m_factor_op := op, m_factor := ucast factor\<rparr>, ms)))"

definition goodchar :: "u8 \<Rightarrow> u8 list \<Rightarrow> bool" where
  "goodchar x extra \<longleftrightarrow> isascii x \<and> isalnum x \<or> x = 0 \<or> x \<in> set extra"

text \<open>\<^verbatim>\<open>parse_extra\<close> on the field \<open>buf\<close>: the answer, the field, the byte written behind the field, if any, and the query.
  \<open>nt\<close> says whether the field is to be terminated.\<close>

definition extra_text :: "nat \<Rightarrow> nat \<Rightarrow> u8 list \<Rightarrow> u8 list \<Rightarrow> u8 list" where
  "extra_text llen len extra l = takeWhile (\<lambda>c. goodchar c extra) (take (min llen len) l)"

definition parse_extra ::
  "magic_set \<Rightarrow> u8 list \<Rightarrow> u8 list \<Rightarrow> u8 list \<Rightarrow> nat \<Rightarrow> u8 list \<Rightarrow> bool \<Rightarrow> bool \<times> u8 list \<times> bool \<times> magic_set" where
  "parse_extra ms desc buf line llen extra nt =
     (let len = length buf in
      if ch buf \<noteq> 0 \<or> ch desc = 0 then (False, buf, False, file_magwarn ms)
      else
        (let l = EATAB line; t = extra_text llen len extra l; i = length t; l' = drop i l; b = t @ drop i buf;
             ms = (if i = len \<and> l' \<noteq> [] then check_warn ms
                   else if \<not> isspace (ch l') \<and> \<not> goodchar (ch l') extra then file_magwarn ms else ms);
             b' = (if \<not> nt then b else if i = len then (if l' \<noteq> [] then b[len - 1 := 0] else b) else b[i := 0]);
             over = (nt \<and> i = len \<and> l' = [])
         in if i > 0 then (True, b', over, ms)
            else (False, b', over, file_magerror ms (bytes_of ''Bad magic entry '' @ [0x27] @ line @ [0x27]))))"

definition parse_apple :: "magic_set \<Rightarrow> magic \<Rightarrow> u8 list \<Rightarrow> nat \<Rightarrow> bool \<times> magic \<times> magic_set" where
  "parse_apple ms m line llen =
     (case parse_extra ms (m_desc m) (m_apple m) line llen (bytes_of ''!+-./?'') False of
        (ok, b, _, ms) \<Rightarrow> (ok, m\<lparr>m_apple := b\<rparr>, ms))"

definition parse_ext :: "magic_set \<Rightarrow> magic \<Rightarrow> u8 list \<Rightarrow> nat \<Rightarrow> bool \<times> magic \<times> magic_set" where
  "parse_ext ms m line llen =
     (case parse_extra ms (m_desc m) (m_ext m) line llen (bytes_of '',!+-/@?_$&~.'') False of
        (ok, b, _, ms) \<Rightarrow> (ok, m\<lparr>m_ext := b\<rparr>, ms))"

text \<open>A terminator written behind the MIME type falls on the first byte of \<^verbatim>\<open>apple\<close>, the next field.\<close>

definition parse_mime :: "magic_set \<Rightarrow> magic \<Rightarrow> u8 list \<Rightarrow> nat \<Rightarrow> bool \<times> magic \<times> magic_set" where
  "parse_mime ms m line llen =
     (case parse_extra ms (m_desc m) (m_mimetype m) line llen (bytes_of ''+-/.$?:{};='') True of
        (ok, b, over, ms) \<Rightarrow>
          (ok, m\<lparr>m_mimetype := b, m_apple := if over then (m_apple m)[0 := 0] else m_apple m\<rparr>, ms))"

end
