(* ===== verification/Magic_Load.thy ===== *)
theory Magic_Load
  imports Magic_Parse
begin

text \<open>
  Loading magic files (\<^verbatim>\<open>src/apprentice.c\<close>): \<^verbatim>\<open>load_1\<close> reads one file line by line, \<^verbatim>\<open>addentry\<close> collects the entries in the
  two sets, and \<^verbatim>\<open>apprentice_load\<close> reads the files, sets the kinds of test, sorts each set by strength and joins it into
  one array.

  A file is its bytes, or the error number of an \<^verbatim>\<open>fopen\<close> that failed; the files of a directory are given in the order in which the
  source reads them.  \<^verbatim>\<open>qsort\<close> is a function whose only known property is that it sorts.
\<close>

subsection \<open>Lines\<close>

text \<open>\<^verbatim>\<open>getline\<close>: a line ends after a newline or at the end of the file.\<close>

fun split_lines :: "u8 list \<Rightarrow> u8 list \<Rightarrow> u8 list list" where
  "split_lines acc [] = (if acc = [] then [] else [acc])"
| "split_lines acc (c # s) = (if c = 0x0a then (acc @ [c]) # split_lines [] s else split_lines (acc @ [c]) s)"

definition file_trimline :: "u8 list \<Rightarrow> nat \<Rightarrow> u8 list \<times> nat" where
  "file_trimline line lineno =
     (let nl = takeWhile (\<lambda>c. c = 0x0a) (rev line) in (take (length line - length nl) line, lineno + length nl))"

record load_state =
  ld_ps :: pstate
  ld_lineno :: nat
  ld_errs :: nat
  ld_set0 :: "magic_entry list"
  ld_set1 :: "magic_entry list"

definition addentry :: "load_state \<Rightarrow> load_state" where
  "addentry st =
     (let me = ps_me (ld_ps st); st = st\<lparr>ld_ps := (ld_ps st)\<lparr>ps_me := []\<rparr>\<rparr> in
      if m_type (hd me) = FILE_NAME then st\<lparr>ld_set1 := ld_set1 st @ [me]\<rparr> else st\<lparr>ld_set0 := ld_set0 st @ [me]\<rparr>)"

definition add_err :: "load_state \<Rightarrow> load_state" where
  "add_err st = st\<lparr>ld_errs := Suc (ld_errs st)\<rparr>"

definition set_ms :: "magic_set \<Rightarrow> load_state \<Rightarrow> load_state" where
  "set_ms ms st = st\<lparr>ld_ps := (ld_ps st)\<lparr>ps_ms := ms\<rparr>\<rparr>"

subsection \<open>Annotation lines\<close>

datatype bang = Bang_mime | Bang_apple | Bang_ext | Bang_strength

definition bang_names :: "(u8 list \<times> bang) list" where
  "bang_names = [(bytes_of ''mime'', Bang_mime), (bytes_of ''apple'', Bang_apple), (bytes_of ''ext'', Bang_ext),
     (bytes_of ''strength'', Bang_strength)]"

text \<open>\<open>l\<close> is the line after the two characters that introduce an annotation.\<close>

definition find_bang :: "u8 list \<Rightarrow> (u8 list \<times> bang) option" where
  "find_bang l = List.find (\<lambda>(name, _). length l > length name \<and> has_prefix name l) bang_names"

definition call_bang :: "bang \<Rightarrow> magic_set \<Rightarrow> magic_entry \<Rightarrow> u8 list \<Rightarrow> nat \<Rightarrow> bool \<times> magic_entry \<times> magic_set" where
  "call_bang b ms me line llen =
     (let lst = (\<lambda>(ok, m, ms). (ok, butlast me @ [m], ms)) in
      case b of
        Bang_strength \<Rightarrow> (case parse_strength ms (hd me) line of (ok, m, ms) \<Rightarrow> (ok, m # tl me, ms))
      | Bang_mime \<Rightarrow> lst (parse_mime ms (List.last me) line llen)
      | Bang_apple \<Rightarrow> lst (parse_apple ms (List.last me) line llen)
      | Bang_ext \<Rightarrow> lst (parse_ext ms (List.last me) line llen))"

definition bang_line :: "u8 list \<Rightarrow> load_state \<Rightarrow> load_state" where
  "bang_line line st =
     (let ps = ld_ps st; ms = ps_ms ps in
      case find_bang (drop 2 line) of
        None \<Rightarrow> add_err (set_ms (file_error0 ms (bytes_of ''Unknown !: entry '' @ quoted (cstr line))) st)
      | Some (name, b) \<Rightarrow>
          if ps_me ps = []
          then add_err (set_ms (file_error0 ms (bytes_of ''No current entry for :!'' @ name @ bytes_of '' type'')) st)
          else (case call_bang b ms (ps_me ps) (cstr (drop (2 + length name) line)) (length line - length name - 2) of
            (ok, me, ms) \<Rightarrow>
              (let st = st\<lparr>ld_ps := ps\<lparr>ps_ms := ms, ps_me := me\<rparr>\<rparr> in if ok then st else add_err st)))"

subsection \<open>Magic lines\<close>

text \<open>The loop at \<^verbatim>\<open>again\<close>: after an entry was added none is current, so that the second call does not answer 1.\<close>

definition parse_into :: "env \<Rightarrow> fparse \<Rightarrow> u8 list \<Rightarrow> bool \<Rightarrow> u8 list \<Rightarrow> load_state \<Rightarrow> fatal + int \<times> load_state" where
  "parse_into env fp file compiling line st =
     (case parse env fp file compiling (ld_lineno st) (cstr line) (ld_ps st) of
        Inl e \<Rightarrow> Inl e
      | Inr (r, ps) \<Rightarrow> (let st = st\<lparr>ld_ps := ps\<rparr> in Inr (r, if r = -1 then add_err st else st)))"

definition magic_line :: "env \<Rightarrow> fparse \<Rightarrow> u8 list \<Rightarrow> bool \<Rightarrow> u8 list \<Rightarrow> load_state \<Rightarrow> fatal + load_state" where
  "magic_line env fp file compiling line st =
     (case parse_into env fp file compiling line st of
        Inl e \<Rightarrow> Inl e
      | Inr (r, st) \<Rightarrow>
          if r \<noteq> 1 then Inr st
          else map_sum id snd (parse_into env fp file compiling line (addentry st)))"

definition load_line :: "env \<Rightarrow> fparse \<Rightarrow> u8 list \<Rightarrow> bool \<Rightarrow> u8 list \<Rightarrow> load_state \<Rightarrow> fatal + load_state" where
  "load_line env fp file compiling raw st =
     (case file_trimline raw (ld_lineno st) of (line, lineno) \<Rightarrow>
        (let st = st\<lparr>ld_lineno := lineno\<rparr>; c = ch line in
         if c = 0 \<or> c = 0x23 then Inr st
         else if c = 0x21 \<and> ch (tl line) = 0x3a then Inr (bang_line line st)
         else magic_line env fp file compiling line st))"

definition next_line :: "load_state \<Rightarrow> load_state" where
  "next_line st = set_ms ((ps_ms (ld_ps st))\<lparr>ms_line := Suc (ms_line (ps_ms (ld_ps st)))\<rparr>) st"

fun load_lines :: "env \<Rightarrow> fparse \<Rightarrow> u8 list \<Rightarrow> bool \<Rightarrow> u8 list list \<Rightarrow> load_state \<Rightarrow> fatal + load_state" where
  "load_lines env fp file compiling [] st = Inr st"
| "load_lines env fp file compiling (raw # ls) st =
     (if ms_magwarn (ps_ms (ld_ps st)) \<ge> ms_magwarn_max (ps_ms (ld_ps st)) then Inr st
      else case load_line env fp file compiling raw st of
          Inl e \<Rightarrow> Inl e
        | Inr st \<Rightarrow> load_lines env fp file compiling ls (next_line st))"

definition load_1 ::
  "env \<Rightarrow> fparse \<Rightarrow> (int \<Rightarrow> u8 list) \<Rightarrow> bool \<Rightarrow> u8 list \<Rightarrow> u8 list + int \<Rightarrow> load_state \<Rightarrow> fatal + load_state" where
  "load_1 env fp strerror compiling fn content st =
     (case content of
        Inr errno \<Rightarrow>
          (let ms = ps_ms (ld_ps st) in
           Inr (add_err (if errno = 2 then st
             else set_ms (file_error strerror ms errno (bytes_of ''cannot read magic file '' @ quoted fn)) st)))
      | Inl bytes \<Rightarrow>
          (let st = set_ms ((ps_ms (ld_ps st))\<lparr>ms_line := 1\<rparr>) (st\<lparr>ld_lineno := 0, ld_ps := (ld_ps st)\<lparr>ps_me := []\<rparr>\<rparr>) in
           map_sum id (\<lambda>st. if ps_me (ld_ps st) \<noteq> [] then addentry st else st)
             (load_lines env fp fn compiling (split_lines [] bytes) st)))"

fun load_files ::
  "env \<Rightarrow> fparse \<Rightarrow> (int \<Rightarrow> u8 list) \<Rightarrow> bool \<Rightarrow> (u8 list \<times> (u8 list + int)) list \<Rightarrow> load_state \<Rightarrow> fatal + load_state" where
  "load_files env fp strerror compiling [] st = Inr st"
| "load_files env fp strerror compiling ((fn, content) # fs) st =
     (case load_1 env fp strerror compiling fn content st of
        Inl e \<Rightarrow> Inl e
      | Inr st \<Rightarrow> load_files env fp strerror compiling fs st)"

subsection \<open>The database\<close>

text \<open>Sorting calls the comparison on every element of a list of two or more.\<close>

definition sort_set :: "((magic_entry \<Rightarrow> magic_entry \<Rightarrow> int) \<Rightarrow> magic_entry list \<Rightarrow> magic_entry list) \<Rightarrow>
    magic_entry list \<Rightarrow> fatal + magic_entry list" where
  "sort_set qsort me =
     (if length me < 2 then Inr me
      else case List.find (\<lambda>e. isl (file_magic_strength (hd e))) me of
          Some e \<Rightarrow> Inl (projl (file_magic_strength (hd e)))
        | None \<Rightarrow> Inr (qsort sort_cmp me))"

definition make_set :: "((magic_entry \<Rightarrow> magic_entry \<Rightarrow> int) \<Rightarrow> magic_entry list \<Rightarrow> magic_entry list) \<Rightarrow>
    magic_set \<Rightarrow> magic_entry list \<Rightarrow> fatal + magic list option \<times> magic_set" where
  "make_set qsort ms me =
     (case sort_set qsort (set_test_types me) of
        Inl e \<Rightarrow> Inl e
      | Inr me \<Rightarrow>
          (let ms = set_last_default ms me in Inr (if me = [] then (Some [], ms) else coalesce_entries ms me)))"

definition apprentice_load ::
  "env \<Rightarrow> fparse \<Rightarrow> (int \<Rightarrow> u8 list) \<Rightarrow> ((magic_entry \<Rightarrow> magic_entry \<Rightarrow> int) \<Rightarrow> magic_entry list \<Rightarrow> magic_entry list) \<Rightarrow>
   bool \<Rightarrow> nat \<Rightarrow> (u8 list \<times> (u8 list + int)) list \<Rightarrow> magic_set \<Rightarrow> fatal + (magic list \<times> magic list) option \<times> magic_set" where
  "apprentice_load env fp strerror qsort compiling lastl files ms =
     (let ms = ms\<lparr>ms_flags := ms_flags ms OR MAGIC_CHECK\<rparr>;
          st = \<lparr>ld_ps = \<lparr>ps_ms = ms, ps_me = [], ps_last = lastl\<rparr>, ld_lineno = 0, ld_errs = 0, ld_set0 = [], ld_set1 = []\<rparr>
      in case load_files env fp strerror compiling files st of
           Inl e \<Rightarrow> Inl e
         | Inr st \<Rightarrow>
             (let ms = ps_ms (ld_ps st) in
              if ld_errs st > 0 then Inr (None, ms)
              else case make_set qsort ms (ld_set0 st) of
                  Inl e \<Rightarrow> Inl e
                | Inr (None, ms) \<Rightarrow> Inr (None, ms)
                | Inr (Some l0, ms) \<Rightarrow>
                    (case make_set qsort ms (ld_set1 st) of
                       Inl e \<Rightarrow> Inl e
                     | Inr (None, ms) \<Rightarrow> Inr (None, ms)
                     | Inr (Some l1, ms) \<Rightarrow> Inr (Some (l0, l1), ms))))"

end
