(* ===== verification/Parse_Safe.thy ===== *)
theory Parse_Safe
  imports Magic_Load Softmagic_Safe
begin

text \<open>
  What the parser of magic files guarantees: no line makes it abort or leave the array of levels, and the entries it
  accepts have full arrays, a known type, a known relation and a factor that does not divide by zero.  From this the
  loader gets a database whose groups are sorted by strength.
\<close>

subsection \<open>What the operations keep\<close>

lemma li_frame [simp]:
  "ms_li (file_magwarn ms) = ms_li ms" "ms_li (check_warn ms) = ms_li ms" "ms_li (file_error0 ms t) = ms_li ms"
  "ms_li (file_magerror ms t) = ms_li ms"
  using out_only_errors [of ms t] by (simp_all add: file_magwarn_def check_warn_def out_onlyD)

lemma flags_frame [simp]: "ms_flags (file_magwarn ms) = ms_flags ms" "ms_flags (check_warn ms) = ms_flags ms"
  by (simp_all add: file_magwarn_def check_warn_def)

lemma li_regcomp [simp]: "file_regcomp env ms p i = (rc, ms') \<Longrightarrow> ms_li ms' = ms_li ms"
  by (auto simp: file_regcomp_def check_regex_def Let_def split: if_splits)

lemma li_pstring [simp]: "file_pstring_length_size ms m = (l, ms') \<Longrightarrow> ms_li ms' = ms_li ms"
  by (auto simp: file_pstring_length_size_def bad_pstring_def Let_def split: if_splits)

lemma getstr_loop_ok:
  assumes "length p \<le> 127"
  shows "case getstr_loop ty warn nest p ms s of Inl (p', ms') \<Rightarrow> length p' \<le> 127 \<and> ms_li ms' = ms_li ms
    | Inr (p', r, ms') \<Rightarrow> length p' \<le> 127 \<and> ms_li ms' = ms_li ms"
  using assms
proof (induction ty warn nest p ms s rule: getstr_loop.induct)
  case (2 ty warn nest p ms c s)
  show ?case
  proof (cases "isspace c \<or> length p \<ge> 127 \<or> c \<noteq> 0x5c")
    case True
    then show ?thesis using 2 by (auto simp: not_le)
  next
    case False
    show ?thesis
    proof (cases s)
      case (Cons e s')
      obtain w warn' b r where "escape_warns ty nest warn e = (w, warn')" "escape_byte e s' = (b, r)" by fastforce
      then show ?thesis using "2.IH"(2) [OF _ _ _ Cons] 2 False Cons by (auto split: sum.splits)
    qed (use 2 False in auto)
  qed
qed simp

lemma stored_length:
  assumes "n \<le> 127"
  shows "unat (word_of_nat n :: u8) = n" "n + unat (l :: u64) \<le> 128 \<Longrightarrow> unat (word_of_nat n + ucast l :: u8) \<le> 128"
proof -
  show n: "unat (word_of_nat n :: u8) = n" using assms by (simp add: unat_word_of_nat)
  assume l: "n + unat l \<le> 128"
  then have "unat (ucast l :: u8) = unat l" by (simp add: unsigned_ucast_eq take_bit_eq_mod)
  then show "unat (word_of_nat n + ucast l :: u8) \<le> 128"
    using l n by (simp add: unat_word_ariths)
qed

lemma getstr_ok:
  assumes "getstr ms m s w = (r, m', ms')" "length (m_value m) = 128"
  shows "ms_li ms' = ms_li ms" "length (m_value m') = 128" "m_type m' = m_type m" "m_reln m' = m_reln m" "m_factor_op m' = m_factor_op m"
    "length (m_desc m') = length (m_desc m)" "length (m_mimetype m') = length (m_mimetype m)" "length (m_apple m') = length (m_apple m)"
    "length (m_ext m') = length (m_ext m)" "m_cont_level m' = m_cont_level m" "m_factor m' = m_factor m" "unat (m_vallen m) \<le> 128 \<Longrightarrow> unat (m_vallen m') \<le> 128"
  using assms getstr_loop_ok [where p = "[]" and ty = "m_type m" and warn = w and nest = 0 and ms = ms and s = s]
  by (auto simp: getstr_def store_string_def Let_def stored_length not_less split: sum.splits prod.splits if_splits)

lemma formats_num: "file_formats ty = FILE_FMT_NUM \<Longrightarrow> \<exists>h. num_h ty = Inr h"
  unfolding file_formats_def type_tbl_def by (simp add: num_h_def split: if_splits)

lemma check_format_ok: "\<exists>ok ms'. check_format ms m = Inr (ok, ms') \<and> ms_li ms' = ms_li ms"
proof -
  have "\<exists>b. check_format_type p ty = Inr b" if "file_formats ty \<noteq> FILE_FMT_NONE" for p ty
    using that formats_num [of ty] by (auto simp: check_format_type_def split: fmt.split)
  then show ?thesis
    by (auto simp: check_format_def split: list.split sum.split bool.split) (metis sum.distinct(1))+
qed

lemma typesize_16: "typesize t = Some n \<Longrightarrow> n = 1 \<or> n = 2 \<or> n = 4 \<or> n = 8 \<or> t = FILE_GUID \<or> t = FILE_LEGUID \<or> t = FILE_BEGUID"
  by (auto simp: typesize_def split: if_splits)

subsection \<open>The stages\<close>

text \<open>An entry under construction: full arrays and no factor yet.\<close>

definition blank :: "magic \<Rightarrow> bool" where
  "blank m \<longleftrightarrow> sized m \<and> unat (m_vallen m) \<le> MAXstring \<and> m_factor_op m = FILE_FACTOR_OP_NONE"

text \<open>A stage that keeps the number of levels and the level byte of the entry, does not abort, and establishes \<open>Q\<close> when it goes on.\<close>

definition stage_ok :: "nat \<Rightarrow> u8 \<Rightarrow> (magic \<Rightarrow> bool) \<Rightarrow> outcome \<Rightarrow> bool" where
  "stage_ok n c Q r \<longleftrightarrow>
     (case r of
        Next s \<Rightarrow> length (ms_li (ls_ms s)) = n \<and> m_cont_level (ls_m s) = c \<and> blank (ls_m s) \<and> Q (ls_m s)
      | Reject s \<Rightarrow> length (ms_li (ls_ms s)) = n \<and> m_cont_level (ls_m s) = c \<and> blank (ls_m s)
      | Abort e \<Rightarrow> False)"

definition state_ok :: "nat \<Rightarrow> u8 \<Rightarrow> (magic \<Rightarrow> bool) \<Rightarrow> lstate \<Rightarrow> bool" where
  "state_ok n c Q s \<longleftrightarrow> stage_ok n c Q (Next s)"

lemma followed_by_ok:
  assumes "stage_ok n c P r" "\<And>s. state_ok n c P s \<Longrightarrow> stage_ok n c Q (f s)"
  shows "stage_ok n c Q (followed_by r f)"
  using assms by (cases r) (auto simp: stage_ok_def state_ok_def)

text \<open>The three facts about an entry, in the order in which they are established.\<close>

definition top_name :: "magic \<Rightarrow> bool" where "top_name m \<longleftrightarrow> (m_type m = FILE_NAME \<longrightarrow> m_cont_level m = 0)"
definition typed :: "magic \<Rightarrow> bool" where "typed m \<longleftrightarrow> known_type (m_type m) \<and> top_name m"
definition related :: "magic \<Rightarrow> bool" where "related m \<longleftrightarrow> typed m \<and> known_reln (m_reln m)"

lemmas stage_defs = stage_ok_def state_ok_def blank_def sized_def typed_def related_def top_name_def

lemma offset_prefix_ok: "state_ok n c (\<lambda>_. True) s \<Longrightarrow> state_ok n c (\<lambda>_. True) (offset_prefix s)"
  by (simp add: offset_prefix_def Let_def or_flag_def step_def stage_defs)

lemma parse_offset_ok: "state_ok n c (\<lambda>_. True) s \<Longrightarrow> stage_ok n c (\<lambda>_. True) (parse_offset s)"
  using offset_prefix_ok [of n c s]
  by (auto simp: parse_offset_def Let_def or_flag_def step_def warned_def stage_defs split: prod.split)

lemma parse_indir_ok: "state_ok n c (\<lambda>_. True) s \<Longrightarrow> stage_ok n c (\<lambda>_. True) (parse_indir s)"
proof -
  have t: "stage_ok n c (\<lambda>_. True) (parse_in_type s)" if "state_ok n c (\<lambda>_. True) s" for s
    using that by (auto simp: parse_in_type_def Let_def or_in_op_def step_def warned_def stage_defs split: option.split)
  have o: "stage_ok n c (\<lambda>_. True) (parse_in_offset (parse_in_op s))" if "state_ok n c (\<lambda>_. True) s" for s
  proof -
    have "state_ok n c (\<lambda>_. True) (parse_in_op s)"
      using that by (auto simp: parse_in_op_def Let_def or_in_op_def step_def stage_defs split: option.split)
    then show ?thesis by (auto simp: parse_in_offset_def Let_def warned_def stage_defs split: prod.split)
  qed
  have k: "stage_ok n c (\<lambda>_. True) (close_indir s)" if "state_ok n c (\<lambda>_. True) s" for s
    using that by (auto simp: close_indir_def Let_def warned_def stage_defs)
  assume s: "state_ok n c (\<lambda>_. True) s"
  show ?thesis
  proof (cases "has (m_flag (ls_m s)) INDIR")
    case True
    have "state_ok n c (\<lambda>_. True) (s\<lparr>ls_m := (ls_m s)\<lparr>m_in_type := FILE_LONG, m_in_offset := 0, m_in_op := 0\<rparr>\<rparr>)"
      using s by (simp add: stage_defs)
    with True show ?thesis unfolding parse_indir_def by (simp add: followed_by_ok [OF followed_by_ok [OF t o] k])
  qed (use s in \<open>simp add: parse_indir_def state_ok_def\<close>)
qed

lemma parse_cond_ok:
  assumes "state_ok n c (\<lambda>_. True) s" "lev < n"
  shows "stage_ok n c (\<lambda>_. True) (parse_cond lev (eat s))"
  using assms
  by (auto simp: parse_cond_def check_cond_def Let_def eat_def stage_defs split: prod.split option.split)

lemma table_types: "\<forall>(name, ty, f) \<in> set (type_tbl @ special_tbl). ty = FILE_INVALID \<or> known_type ty"
  unfolding type_tbl_def special_tbl_def by (simp add: known_type_def)

lemma get_type_known:
  "set tbl \<subseteq> set (type_tbl @ special_tbl) \<Longrightarrow> get_type tbl l t = (ty, r) \<Longrightarrow> ty = FILE_INVALID \<or> known_type ty"
proof (induction tbl l t rule: get_type.induct)
  case (2 name ty' f tbl l t)
  then show ?case using table_types by (fastforce split: if_splits)
qed simp

lemma type_word_known: "special_word (type_word l) = (ty, us, r) \<Longrightarrow> ty = FILE_INVALID \<or> known_type ty"
proof -
  have i: "ty = FILE_INVALID \<or> known_type ty" if "get_standard_integer_type l = (ty, r)" for l ty r
    using that by (auto simp: get_standard_integer_type_def int_type_of_def known_type_def Let_def split: if_splits)
  have w: "ty = FILE_INVALID \<or> known_type ty" if "type_word l = (ty, us, r)" for ty us r
    using that get_type_known [of type_tbl] i
    by (fastforce simp: type_word_def known_type_def split: if_splits prod.splits)
  assume "special_word (type_word l) = (ty, us, r)"
  then show ?thesis
    using w get_type_known [of special_tbl] by (fastforce simp: special_word_def split: if_splits prod.splits)
qed

lemma parse_type_ok: "lev = 0 \<longrightarrow> c = 0 \<Longrightarrow> state_ok n c (\<lambda>_. True) s \<Longrightarrow> stage_ok n c typed (parse_type lev s)"
  using type_word_known [of "ls_l s"]
  by (auto simp: parse_type_def Let_def warned_def stage_defs split: prod.split)

text \<open>The modifiers change only the union and the mask operator of an entry.\<close>

definition same_but_u :: "magic \<Rightarrow> magic \<Rightarrow> bool" where
  "same_but_u m m' \<longleftrightarrow> m'\<lparr>m_u := 0, m_mask_op := 0\<rparr> = m\<lparr>m_u := 0, m_mask_op := 0\<rparr>"

lemma same_but_uD:
  assumes "same_but_u m m'"
  shows "blank m' = blank m" "m_cont_level m' = m_cont_level m" "m_type m' = m_type m" "top_name m' = top_name m"
proof -
  have "f (m'\<lparr>m_u := 0, m_mask_op := 0\<rparr>) = f (m\<lparr>m_u := 0, m_mask_op := 0\<rparr>)" for f :: "magic \<Rightarrow> 'a"
    using assms by (simp add: same_but_u_def)
  from this [of blank] this [of m_cont_level] this [of m_type]
  show "blank m' = blank m" "m_cont_level m' = m_cont_level m" "m_type m' = m_type m" "top_name m' = top_name m"
    by (simp_all add: blank_def sized_def top_name_def)
qed

lemma same_but_u_simps [simp]: "same_but_u m m" "same_but_u m (set_str r f m') = same_but_u m m'" "same_but_u (set_str r f m) m' = same_but_u m m'"
  by (simp_all add: same_but_u_def set_str_def)

lemma same_but_u_trans: "same_but_u a b \<Longrightarrow> same_but_u b c \<Longrightarrow> same_but_u a c"
  by (simp add: same_but_u_def)

lemma indirect_modifier_ok:
  "parse_indirect_modifier ms m l = (ok, m', l', ms') \<Longrightarrow> same_but_u m m' \<and> ms_li ms' = ms_li ms"
proof (induction ms m l rule: parse_indirect_modifier.induct)
  case (2 ms m c l)
  then show ?case by (auto split: if_splits)
qed auto

lemma string_letter_ok: "string_letter m c = Some m' \<Longrightarrow> same_but_u m m'"
  by (auto simp: string_letter_def add_flag_def SET_LENGTH_def split: option.splits if_splits)

lemma range_warns_li [simp]: "ms_li (range_warns ms h r) = ms_li ms"
  by (simp add: range_warns_def Let_def)

lemma string_modifiers_ok:
  "string_modifiers ms m h l = (ok, m', l', ms') \<Longrightarrow> same_but_u m m' \<and> ms_li ms' = ms_li ms"
proof (induction ms m h l rule: string_modifiers.induct)
  case (2 ms m h c l)
  show ?case
    using 2 by (auto split: if_splits prod.splits option.splits intro: same_but_u_trans dest: string_letter_ok)
qed auto

lemma string_modifier_ok:
  assumes "parse_string_modifier ms m l = (ok, m', l', ms')"
  shows "same_but_u m m' \<and> ms_li ms' = ms_li ms"
proof -
  have "same_but_u m m' \<and> ms_li ms' = ms_li ms" if "string_modifier_check ms m = (ok, m', ms')" for ms m ok m' ms'
    using that by (auto simp: string_modifier_check_def Let_def split: if_splits)
  with assms show ?thesis
    by (fastforce simp: parse_string_modifier_def split: prod.splits bool.splits dest: string_modifiers_ok intro: same_but_u_trans)
qed

lemma modified_ok:
  assumes "state_ok n c typed s" "same_but_u (ls_m s) m" "ms_li ms = ms_li (ls_ms s)"
  shows "stage_ok n c typed (modified s (ok, m, l, ms))"
  using assms same_but_uD [OF assms(2)] by (auto simp: modified_def Let_def stage_ok_def state_ok_def typed_def)

lemma op_modifier_ok: "parse_op_modifier m l op = (m', l') \<Longrightarrow> same_but_u m m'"
  by (auto simp: parse_op_modifier_def Let_def same_but_u_def split: prod.splits)

lemma parse_op_ok:
  assumes "state_ok n c typed s"
  shows "stage_ok n c typed (parse_op s)"
proof -
  define s1 where "s1 =
    (let t = m_type (ls_m s); m = (ls_m s)\<lparr>m_mask_op := 0\<rparr>; s = s\<lparr>ls_m := m\<rparr>;
          s = (if ch (ls_l s) \<noteq> 0x7e then s
               else step (if IS_STRING t then s\<lparr>ls_ms := check_warn (ls_ms s)\<rparr>
                          else s\<lparr>ls_m := m\<lparr>m_mask_op := FILE_OPINVERSE\<rparr>\<rparr>))
      in s\<lparr>ls_m := set_str 0 (if t = FILE_PSTRING then PSTRING_1_LE else 0) (ls_m s)\<rparr>)"
  have s1: "state_ok n c typed s1" and t: "m_type (ls_m s1) = m_type (ls_m s)"
    using assms by (auto simp: s1_def Let_def step_def set_str_def stage_defs)
  have "parse_op s = (case get_op (ch (ls_l s1)) of
           None \<Rightarrow> Next s1
         | Some op \<Rightarrow>
             if \<not> IS_STRING (m_type (ls_m s))
             then (case parse_op_modifier (ls_m s1) (tl (ls_l s1)) op of (m, l) \<Rightarrow> Next (s1\<lparr>ls_m := m, ls_l := l\<rparr>))
             else if op \<noteq> FILE_OPDIVIDE then warned s1
             else if m_type (ls_m s) = FILE_INDIRECT then modified s1 (parse_indirect_modifier (ls_ms s1) (ls_m s1) (tl (ls_l s1)))
             else modified s1 (parse_string_modifier (ls_ms s1) (ls_m s1) (tl (ls_l s1))))"
    unfolding parse_op_def s1_def Let_def by (rule refl)
  moreover have "stage_ok n c typed (Next (s1\<lparr>ls_m := m, ls_l := l\<rparr>))" if "parse_op_modifier (ls_m s1) a op = (m, l)" for a m l op
    using same_but_uD [OF op_modifier_ok [OF that]] s1 by (simp add: stage_ok_def state_ok_def typed_def)
  moreover have "stage_ok n c typed (modified s1 (parse_indirect_modifier (ls_ms s1) (ls_m s1) a))" for a
    by (cases "parse_indirect_modifier (ls_ms s1) (ls_m s1) a") (metis indirect_modifier_ok modified_ok s1)
  moreover have "stage_ok n c typed (modified s1 (parse_string_modifier (ls_ms s1) (ls_m s1) a))" for a
    by (cases "parse_string_modifier (ls_ms s1) (ls_m s1) a") (metis string_modifier_ok modified_ok s1)
  moreover have "stage_ok n c typed (warned s1)" using s1 by (simp add: warned_def stage_defs)
  ultimately show ?thesis using s1 by (auto simp: state_ok_def split: option.split prod.split)
qed

lemma parse_reln_ok: "state_ok n c typed s \<Longrightarrow> stage_ok n c related (parse_reln (eat s))"
  by (auto simp: parse_reln_def eat_def step_def Let_def stage_defs known_reln_def)

lemma getvalue_string_ok:
  assumes "state_ok n c related s"
  shows "stage_ok n c related (getvalue_string env cmpl s)"
proof -
  obtain r m ms where g: "getstr (ls_ms s) (ls_m s) (ls_l s) cmpl = (r, m, ms)" by (metis prod_cases3)
  have "length (m_value (ls_m s)) = 128" using assms by (simp add: stage_defs)
  note k = getstr_ok [OF g this]
  have "state_ok n c related (s\<lparr>ls_m := m, ls_l := l, ls_ms := ms\<rparr>)" "stage_ok n c related (Reject (s\<lparr>ls_m := m, ls_ms := check_warn ms\<rparr>))" for l
    using assms k by (auto simp: stage_defs)
  then show ?thesis
    unfolding getvalue_string_def g Let_def
    by (auto simp: stage_ok_def state_ok_def split: option.split prod.split)
qed

lemma getvalue_number_ok:
  assumes "state_ok n c related s" "m_type (ls_m s) \<noteq> FILE_GUID" "m_type (ls_m s) \<noteq> FILE_LEGUID" "m_type (ls_m s) \<noteq> FILE_BEGUID"
  shows "stage_ok n c related (getvalue_number s)"
proof -
  obtain ull ep er where g: "strtoull (ls_l s) = (ull, ep, er)" by (metis prod_cases3)
  define s1 where "s1 = s\<lparr>ls_m := (ls_m s)\<lparr>m_value := put_q (file_signextend (ls_m s) ull) (m_value (ls_m s))\<rparr>\<rparr>"
  have s1: "state_ok n c related s1" using assms(1) by (auto simp: s1_def stage_defs)
  have w: "stage_ok n c related (value_warn s1)" using s1 by (simp add: value_warn_def stage_defs)
  have o: "\<exists>b. overflows ts x = Inr b" if "typesize (m_type (ls_m s)) = Some ts" for ts x
    using typesize_16 [OF that] assms(2-4) by (auto simp: overflows_def Let_def)
  define x where "x = (if ch (dropWhile isspace (ls_l s1)) = 0x2d \<and> ull \<noteq> - 1 then - ull else ull)"
  have e: "stage_ok n c related (Next (if er then s1 else s1\<lparr>ls_l := r\<rparr>))" for r
    using s1 by (simp add: stage_ok_def state_ok_def)
  have "stage_ok n c related (case overflows ts x of Inl e \<Rightarrow> Abort e | Inr True \<Rightarrow> value_warn s1
      | Inr False \<Rightarrow> Next (if er then s1 else s1\<lparr>ls_l := eatsize ep\<rparr>))" if "typesize (m_type (ls_m s)) = Some ts" for ts
    using o [OF that, of x] w e by (auto split: bool.split)
  then show ?thesis
    unfolding getvalue_number_def g prod.case Let_def s1_def [symmetric] x_def [symmetric]
    using w by (cases "typesize (m_type (ls_m s))") simp_all
qed

lemma guid_bytes_length: "file_parse_guid l = Some g \<Longrightarrow> length (guid_bytes g) = 16"
  by (auto simp: file_parse_guid_def guid_bytes_def split: option.splits prod.splits bool.splits)

lemma parse_value_ok:
  assumes "state_ok n c related s"
  shows "stage_ok n c related (parse_value env fp cmpl s)"
proof -
  have l: "length (m_value (ls_m s)) = 128" using assms by (simp add: stage_defs)
  have v: "stage_ok n c related (Next (s\<lparr>ls_m := (ls_m s)\<lparr>m_value := v\<rparr>, ls_l := r\<rparr>))" if "length v = 128" for v r
    using assms that by (auto simp: stage_defs)
  have w: "stage_ok n c related (value_warn s)" using assms by (simp add: value_warn_def stage_defs)
  have g: "stage_ok n c related (getvalue env fp cmpl s)"
    unfolding getvalue_def Let_def
    using assms getvalue_string_ok [OF assms] getvalue_number_ok [OF assms] v w l guid_bytes_length
    by (auto simp: state_ok_def split: prod.split option.split)
  show ?thesis using g w assms by (simp add: parse_value_def state_ok_def)
qed

lemma length_copy_desc: "length old = 64 \<Longrightarrow> length (copy_desc fn l old) = 64"
proof -
  assume o: "length old = 64"
  define n where "n = min 64 (Suc (length l))"
  define d where "d = take n (l @ [0]) @ drop n old"
  have "n \<le> 64" "n \<le> Suc (length l)" "0 < n" by (auto simp: n_def)
  then have d: "length d = 64" using o by (simp add: d_def)
  have "length (strlcpy (tl d) fn 63) = 63" using d by (simp add: strlcpy_def Let_def)
  then show ?thesis using d unfolding copy_desc_def Let_def n_def [symmetric] d_def [symmetric] by simp
qed

lemma parse_desc_ok:
  assumes "state_ok n c related s"
  shows "stage_ok n c related (parse_desc fn s)"
proof -
  define s0 where "s0 = (let s = eat s in
     if ch (ls_l s) = 0x08 then or_flag NOSPACE (step s)
     else if ch (ls_l s) = 0x5c \<and> ch (tl (ls_l s)) = 0x62 then or_flag NOSPACE (step (step s)) else s)"
  define s1 where "s1 = s0\<lparr>ls_m := (ls_m s0)\<lparr>m_desc := copy_desc fn (ls_l s0) (m_desc (ls_m s0))\<rparr>,
                 ls_ms := if Suc (length (ls_l s0)) \<ge> MAXDESC then check_warn (ls_ms s0) else ls_ms s0\<rparr>"
  have s0: "state_ok n c related s0" using assms by (auto simp: s0_def Let_def eat_def step_def or_flag_def stage_defs)
  then have s1: "state_ok n c related s1" by (auto simp: s1_def stage_defs length_copy_desc)
  obtain ok ms where f: "check_format (ls_ms s1) (ls_m s1) = Inr (ok, ms)" "ms_li ms = ms_li (ls_ms s1)"
    using check_format_ok by blast
  have "parse_desc fn s = (if \<not> has (ms_flags (ls_ms s1)) MAGIC_CHECK then Next s1
         else case check_format (ls_ms s1) (ls_m s1) of
             Inl e \<Rightarrow> Abort e
           | Inr (ok, ms) \<Rightarrow> if ok then Next (s1\<lparr>ls_ms := ms\<rparr>) else Reject (s1\<lparr>ls_ms := ms\<rparr>))"
    unfolding parse_desc_def s1_def s0_def Let_def by (rule refl)
  then show ?thesis using s1 f by (auto simp: stage_ok_def state_ok_def)
qed

lemma clear_mime_ok: "state_ok n c related s \<Longrightarrow> stage_ok n c related (clear_mime s)"
  by (auto simp: clear_mime_def stage_defs)

lemma parse_entry_ok:
  assumes "state_ok n c (\<lambda>_. True) s" "lev < n" "lev = 0 \<longrightarrow> c = 0"
  shows "stage_ok n c related (parse_entry env fp fn cmpl lev s)"
proof -
  note t = parse_type_ok [OF assms(3)]
  have "stage_ok n c (\<lambda>_. True) (parse_offset s)" using parse_offset_ok [OF assms(1)] .
  note followed_by_ok [OF this parse_indir_ok]
  note followed_by_ok [OF this parse_cond_ok [OF _ assms(2)]]
  note followed_by_ok [OF this t]
  note followed_by_ok [OF this parse_op_ok]
  note followed_by_ok [OF this parse_reln_ok]
  note followed_by_ok [OF this parse_value_ok]
  note followed_by_ok [OF this parse_desc_ok]
  note followed_by_ok [OF this clear_mime_ok]
  then show ?thesis by (simp add: parse_entry_def)
qed

subsection \<open>Lines\<close>

text \<open>The entry that the loader may sort.\<close>

definition good :: "magic \<Rightarrow> bool" where "good m \<longleftrightarrow> sized m \<and> rated m \<and> unat (m_vallen m) \<le> MAXstring \<and> top_name m"

text \<open>Between lines: the level of the last line is one of the array when there is a current entry, and the current entry starts
  at the top level.\<close>

definition lines_ok :: "pstate \<Rightarrow> bool" where
  "lines_ok ps \<longleftrightarrow> list_all sized (ps_me ps) \<and>
     (ps_me ps \<noteq> [] \<longrightarrow> ps_last ps < length (ms_li (ps_ms ps)) \<and> m_cont_level (hd (ps_me ps)) = 0)"

lemma check_mem_levels:
  "level < length (ms_li (snd (file_check_mem f ms level)))" "length (ms_li ms) \<le> length (ms_li (snd (file_check_mem f ms level)))"
  by (simp_all add: file_check_mem_def Let_def)

lemma check_levels_ok:
  assumes "lines_ok ps" "lev = 0 \<or> ps_me ps \<noteq> []"
  shows "lev < length (ms_li (ps_ms (check_levels env lev ps)))" "ps_me (check_levels env lev ps) = ps_me ps"
    "ps_last (check_levels env lev ps) = lev"
  using assms check_mem_levels(1) [of lev "e_fresh env" "ps_ms ps"]
  by (auto simp: check_levels_def lines_ok_def)

lemma fill_entry_ok:
  assumes "list_all sized (ps_me ps)" "lev < length (ms_li (ps_ms ps))" "ps_last ps = lev"
    and "if ps_me ps = [] then lev = 0 else m_cont_level (hd (ps_me ps)) = 0"
  shows "\<exists>r ps'. fill_entry env fp fn cmpl lev no l ps = Inr (r, ps') \<and> (r = 0 \<or> r = -1) \<and> lines_ok ps' \<and>
    ps_me ps' \<noteq> [] \<and> (r = 0 \<longrightarrow> (\<exists>m. good m \<and> ps_me ps' = ps_me ps @ [m]))"
proof -
  let ?s = "\<lparr>ls_ms = ps_ms ps, ls_m = blank_entry lev no, ls_l = l\<rparr>"
  have "state_ok (length (ms_li (ps_ms ps))) (word_of_nat lev) (\<lambda>_. True) ?s"
    by (simp add: stage_defs blank_entry_def sized0_def m0_def)
  note parse_entry_ok [OF this assms(2), where env = env and fp = fp and fn = fn and cmpl = cmpl]
  moreover have "good m" if "blank m" "related m" for m
    using that by (simp add: good_def blank_def related_def typed_def rated_def known_factor_def)
  ultimately show ?thesis
    using assms
    by (auto simp: fill_entry_def stage_ok_def lines_ok_def blank_def split: outcome.splits if_splits)
qed

lemma parse_ok:
  assumes "lines_ok ps"
  shows "\<exists>r ps'. parse env fp fn cmpl no line ps = Inr (r, ps') \<and> lines_ok ps' \<and>
    (r = 0 \<and> (\<exists>m. good m \<and> ps_me ps' = ps_me ps @ [m]) \<or> r = 1 \<and> ps_me ps \<noteq> [] \<and> ps_me ps' = ps_me ps \<or> r = -1)"
proof -
  define lev where "lev = levels_of line"
  define ps1 where "ps1 = check_levels env lev ps"
  have me: "ps_me ps1 = ps_me ps" by (simp add: ps1_def check_levels_def)
  have p: "parse env fp fn cmpl no line ps =
     (if lev \<noteq> 0 then
        (if ps_me ps1 = [] then Inr (-1, ps1\<lparr>ps_ms := file_magerror (ps_ms ps1) (bytes_of ''No current entry for continuation'')\<rparr>)
         else fill_entry env fp fn cmpl lev no (dropWhile (\<lambda>c. c = 0x3e) line) (ps1\<lparr>ps_ms := deep_warn lev ps1\<rparr>))
      else if ps_me ps1 \<noteq> [] then Inr (1, ps1)
      else fill_entry env fp fn cmpl 0 no (dropWhile (\<lambda>c. c = 0x3e) line) ps1)"
    unfolding parse_def ps1_def lev_def Let_def by (rule refl)
  show ?thesis
  proof (cases "lev \<noteq> 0 \<and> ps_me ps = []")
    case True
    then show ?thesis using p me by (simp add: lines_ok_def)
  next
    case False
    then have c: "lev < length (ms_li (ps_ms ps1))" "ps_last ps1 = lev"
      using check_levels_ok [OF assms, of lev env] by (auto simp: ps1_def)
    have d: "ms_li (deep_warn lev ps1) = ms_li (ps_ms ps1)" by (simp add: deep_warn_def)
    have s: "list_all sized (ps_me ps)" "ps_me ps \<noteq> [] \<longrightarrow> m_cont_level (hd (ps_me ps)) = 0"
      using assms by (simp_all add: lines_ok_def)
    show ?thesis
    proof (cases "lev = 0 \<and> ps_me ps \<noteq> []")
      case True
      then show ?thesis using p me c s by (auto simp: lines_ok_def)
    next
      case F: False
      let ?ps = "if lev \<noteq> 0 then ps1\<lparr>ps_ms := deep_warn lev ps1\<rparr> else ps1"
      have "parse env fp fn cmpl no line ps = fill_entry env fp fn cmpl lev no (dropWhile (\<lambda>c. c = 0x3e) line) ?ps"
        using p False F me by auto
      moreover have "ps_me ?ps = ps_me ps" "lev < length (ms_li (ps_ms ?ps))" "ps_last ?ps = lev"
        using me c d by auto
      ultimately show ?thesis
        using fill_entry_ok [where ps = ?ps and lev = lev and env = env and fp = fp and fn = fn and cmpl = cmpl and no = no
            and l = "dropWhile (\<lambda>c. c = 0x3e) line"] s False F by auto
    qed
  qed
qed

subsection \<open>Annotations\<close>

lemma parse_extra_ok:
  assumes "parse_extra ms d b line llen ex nt = (ok, b', over, ms')"
  shows "length b' = length b" "ms_li ms' = ms_li ms"
proof -
  have "length (extra_text llen (length b) ex l) \<le> length b" for l
    unfolding extra_text_def by (rule le_trans [OF length_takeWhile_le]) simp
  then show "length b' = length b" "ms_li ms' = ms_li ms"
    using assms by (auto simp: parse_extra_def Let_def split: if_splits)
qed

lemma strength_op_factor:
  assumes "strength_op l = Some (op, r)" "\<not> f > 255" "f = 0 \<longrightarrow> op \<noteq> FILE_FACTOR_OP_DIV"
  shows "known_factor op (ucast (f :: u64))"
proof -
  have "unat f mod 256 = unat f" using assms(2) by (simp add: word_less_nat_alt)
  then have "unat (ucast f :: u8) = unat f" by (simp add: unsigned_ucast_eq take_bit_eq_mod)
  then have "(ucast f :: u8) = 0 \<longleftrightarrow> f = 0" by (metis unat_eq_zero)
  with assms show ?thesis by (auto simp: strength_op_def known_factor_def Let_def split: if_splits)
qed

lemma known_factor_none [simp]: "known_factor FILE_FACTOR_OP_NONE f"
  by (simp add: known_factor_def)

lemma parse_strength_ok:
  assumes "parse_strength ms m line = (ok, m', ms')"
  shows "sized m' = sized m" "good m \<Longrightarrow> good m'" "m_cont_level m' = m_cont_level m" "ms_li ms' = ms_li ms"
  using assms
  by (auto simp: parse_strength_def Let_def good_def rated_def sized_def top_name_def split: if_splits option.splits prod.splits
      intro: strength_op_factor)

lemma parse_extras_ok:
  assumes "parse_mime ms m line n = (ok, m', ms') \<or> parse_apple ms m line n = (ok, m', ms') \<or> parse_ext ms m line n = (ok, m', ms')"
  shows "sized m' = sized m" "good m' = good m" "m_cont_level m' = m_cont_level m" "ms_li ms' = ms_li ms"
proof -
  have "sized m' = sized m \<and> good m' = good m \<and> m_cont_level m' = m_cont_level m \<and> ms_li ms' = ms_li ms"
    using assms
    by (auto simp: parse_mime_def parse_apple_def parse_ext_def sized_def rated_def good_def top_name_def split: prod.splits if_splits dest: parse_extra_ok)
  then show "sized m' = sized m" "good m' = good m" "m_cont_level m' = m_cont_level m" "ms_li ms' = ms_li ms" by auto
qed

lemma call_bang_ok:
  assumes "call_bang b ms me line n = (ok, me', ms')" "me \<noteq> []"
  shows "me' \<noteq> []" "list_all sized me \<Longrightarrow> list_all sized me'" "list_all good me \<Longrightarrow> list_all good me'"
    "m_cont_level (hd me') = m_cont_level (hd me)" "ms_li ms' = ms_li ms"
proof -
  obtain xs x where me: "me = xs @ [x]" using assms(2) by (metis append_butlast_last_id)
  have e: "me' = xs @ [m] \<and> sized m = sized x \<and> good m = good x \<and> m_cont_level m = m_cont_level x \<and> ms_li ms' = ms_li ms"
    if "(ok, me', ms') = (ok1, xs @ [m], ms1)" "parse_mime ms x line n = (ok1, m, ms1) \<or> parse_apple ms x line n = (ok1, m, ms1) \<or> parse_ext ms x line n = (ok1, m, ms1)"
    for ok1 m ms1
    using parse_extras_ok [OF that(2)] that(1) by simp
  have "me' \<noteq> [] \<and> (list_all sized me \<longrightarrow> list_all sized me') \<and> (list_all good me \<longrightarrow> list_all good me') \<and>
      m_cont_level (hd me') = m_cont_level (hd me) \<and> ms_li ms' = ms_li ms"
  proof (cases b)
    case Bang_strength
    obtain ok1 m ms1 where p: "parse_strength ms (hd me) line = (ok1, m, ms1)" by (metis prod_cases3)
    obtain y ys where "me = y # ys" using assms(2) by (cases me) auto
    then show ?thesis using assms(1) parse_strength_ok [OF p] p Bang_strength by (auto simp: call_bang_def)
  qed (use assms(1) me e in \<open>auto simp: call_bang_def hd_append split: prod.splits dest!: e\<close>)
  then show "me' \<noteq> []" "list_all sized me \<Longrightarrow> list_all sized me'" "list_all good me \<Longrightarrow> list_all good me'"
    "m_cont_level (hd me') = m_cont_level (hd me)" "ms_li ms' = ms_li ms" by auto
qed

subsection \<open>Files\<close>

definition entry_ok :: "bool \<Rightarrow> magic_entry \<Rightarrow> bool" where
  "entry_ok named e \<longleftrightarrow> e \<noteq> [] \<and> list_all good e \<and> m_cont_level (hd e) = 0 \<and> (m_type (hd e) = FILE_NAME) = named"

definition load_inv :: "load_state \<Rightarrow> bool" where
  "load_inv st \<longleftrightarrow> lines_ok (ld_ps st) \<and>
     (ld_errs st = 0 \<longrightarrow> list_all good (ps_me (ld_ps st)) \<and> list_all (entry_ok False) (ld_set0 st) \<and> list_all (entry_ok True) (ld_set1 st))"

lemma lines_ok_ms: "ms_li ms = ms_li (ps_ms ps) \<Longrightarrow> lines_ok (ps\<lparr>ps_ms := ms\<rparr>) = lines_ok ps"
  by (simp add: lines_ok_def)

lemma load_inv_set_ms: "ms_li ms = ms_li (ps_ms (ld_ps st)) \<Longrightarrow> load_inv (set_ms ms st) = load_inv st"
  by (simp add: load_inv_def set_ms_def lines_ok_ms)

lemma load_inv_err: "load_inv st \<Longrightarrow> load_inv (add_err st)"
  by (simp add: load_inv_def add_err_def)

lemma addentry_ok:
  assumes "load_inv st" "ps_me (ld_ps st) \<noteq> []"
  shows "load_inv (addentry st)" "ps_me (ld_ps (addentry st)) = []"
  using assms by (auto simp: load_inv_def addentry_def lines_ok_def entry_ok_def Let_def)

lemma bang_line_ok: "load_inv st \<Longrightarrow> load_inv (bang_line line st)"
proof -
  assume st: "load_inv st"
  have "load_inv (add_err (set_ms (file_error0 (ps_ms (ld_ps st)) t) st))" for t
    using st by (simp add: load_inv_err load_inv_set_ms)
  moreover have "load_inv (let st = st\<lparr>ld_ps := (ld_ps st)\<lparr>ps_ms := ms, ps_me := me\<rparr>\<rparr> in if ok then st else add_err st)"
    if "call_bang b (ps_ms (ld_ps st)) (ps_me (ld_ps st)) l n = (ok, me, ms)" "ps_me (ld_ps st) \<noteq> []" for b l n ok me ms
    using call_bang_ok [OF that] that(2) st by (auto simp: load_inv_def lines_ok_def Let_def add_err_def)
  ultimately show ?thesis unfolding bang_line_def Let_def by (auto split: option.split prod.split)
qed

lemma parse_into_ok:
  assumes "load_inv st"
  shows "\<exists>r st'. parse_into env fp fn cmpl line st = Inr (r, st') \<and> load_inv st' \<and> (r = 1 \<longrightarrow> ps_me (ld_ps st') \<noteq> [])"
proof -
  obtain r ps where p: "parse env fp fn cmpl (ld_lineno st) (cstr line) (ld_ps st) = Inr (r, ps)" "lines_ok ps"
      "r = 0 \<and> (\<exists>m. good m \<and> ps_me ps = ps_me (ld_ps st) @ [m]) \<or> r = 1 \<and> ps_me (ld_ps st) \<noteq> [] \<and> ps_me ps = ps_me (ld_ps st) \<or> r = -1"
    using parse_ok [of "ld_ps st" env fp fn cmpl "ld_lineno st" "cstr line"] assms by (auto simp: load_inv_def)
  then show ?thesis using assms by (auto simp: parse_into_def load_inv_def add_err_def Let_def)
qed

lemma magic_line_ok:
  assumes "load_inv st"
  shows "\<exists>st'. magic_line env fp fn cmpl line st = Inr st' \<and> load_inv st'"
proof -
  obtain r st1 where r: "parse_into env fp fn cmpl line st = Inr (r, st1)" "load_inv st1" "r = 1 \<longrightarrow> ps_me (ld_ps st1) \<noteq> []"
    using parse_into_ok [OF assms] by blast
  show ?thesis
  proof (cases "r = 1")
    case True
    then obtain r' st2 where "parse_into env fp fn cmpl line (addentry st1) = Inr (r', st2)" "load_inv st2"
      using parse_into_ok [OF addentry_ok(1) [OF r(2)]] r(3) by blast
    then show ?thesis using r True by (simp add: magic_line_def)
  qed (use r in \<open>simp add: magic_line_def\<close>)
qed

lemma load_line_ok:
  assumes "load_inv st"
  shows "\<exists>st'. load_line env fp fn cmpl raw st = Inr st' \<and> load_inv st'"
proof -
  have n: "load_inv (st\<lparr>ld_lineno := k\<rparr>)" for k using assms by (simp add: load_inv_def)
  show ?thesis
    unfolding load_line_def Let_def using n bang_line_ok [OF n] magic_line_ok [OF n] by (auto split: prod.split)
qed

lemma load_lines_ok: "load_inv st \<Longrightarrow> \<exists>st'. load_lines env fp fn cmpl ls st = Inr st' \<and> load_inv st'"
proof (induction env fp fn cmpl ls st rule: load_lines.induct)
  case (2 env fp fn cmpl raw ls st)
  obtain st' where st': "load_line env fp fn cmpl raw st = Inr st'" "load_inv st'" using load_line_ok [OF "2.prems"] by blast
  have "load_inv (next_line st')" using st'(2) by (simp add: next_line_def load_inv_set_ms)
  with "2.IH" [OF _ st'(1)] st' "2.prems" show ?case by auto
qed simp

lemma load_1_ok: "load_inv st \<Longrightarrow> \<exists>st'. load_1 env fp se cmpl fn content st = Inr st' \<and> load_inv st'"
proof (cases content)
  case (Inr errno)
  assume st: "load_inv st"
  have "ms_li (file_error se (ps_ms (ld_ps st)) errno t) = ms_li (ps_ms (ld_ps st))" for t
    by (simp add: file_error_def out_onlyD)
  then show ?thesis using Inr st by (simp add: load_1_def Let_def load_inv_err load_inv_set_ms)
next
  case (Inl bytes)
  assume st: "load_inv st"
  let ?st = "set_ms ((ps_ms (ld_ps st))\<lparr>ms_line := 1\<rparr>) (st\<lparr>ld_lineno := 0, ld_ps := (ld_ps st)\<lparr>ps_me := []\<rparr>\<rparr>)"
  have "load_inv ?st" using st by (simp add: load_inv_def set_ms_def lines_ok_def)
  then obtain st' where "load_lines env fp fn cmpl (split_lines [] bytes) ?st = Inr st'" "load_inv st'"
    using load_lines_ok by blast
  then show ?thesis using Inl addentry_ok(1) [of st'] by (auto simp: load_1_def Let_def)
qed

lemma load_files_ok: "load_inv st \<Longrightarrow> \<exists>st'. load_files env fp se cmpl fs st = Inr st' \<and> load_inv st'"
proof (induction env fp se cmpl fs st rule: load_files.induct)
  case (2 env fp se cmpl fn content fs st)
  obtain st' where "load_1 env fp se cmpl fn content st = Inr st'" "load_inv st'" using load_1_ok [OF "2.prems"] by blast
  with "2.IH" show ?case by auto
qed simp

subsection \<open>The sets\<close>

text \<open>The kinds of test change only the flags of the first entry of a group.\<close>

lemma set_test_type_flag: "\<exists>f. set_test_type m m' = m\<lparr>m_flag := f\<rparr>"
proof -
  have "m = m\<lparr>m_flag := m_flag m\<rparr>" by simp
  then show ?thesis unfolding set_test_type_def Let_def by metis
qed

lemma entry_ok_flag: "entry_ok b e \<Longrightarrow> entry_ok b (set_test_type (hd e) m # tl e)"
  using set_test_type_flag [of "hd e" m]
  by (cases e) (auto simp: entry_ok_def good_def rated_def sized_def top_name_def)

lemma set_text_binary_ok:
  "entry_ok b s \<Longrightarrow> list_all (entry_ok b) es \<Longrightarrow> set_text_binary s es = (g, r) \<Longrightarrow> list_all (entry_ok b) g \<and> list_all (entry_ok b) r"
proof (induction s es arbitrary: g r rule: set_text_binary.induct)
  case (2 start e es)
  then show ?case
    using entry_ok_flag [of b start "hd e"]
    by (auto simp: entry_ok_def split: if_splits)
qed auto

lemma set_test_types_ok: "list_all (entry_ok b) es \<Longrightarrow> list_all (entry_ok b) (set_test_types es)"
proof (induction es rule: set_test_types.induct)
  case (2 e es)
  show ?case
  proof (cases "m_cont_level (hd e) \<noteq> 0")
    case False
    obtain g r where g: "set_text_binary (set_test_type (hd e) (hd e) # tl e) es = (g, r)" by (rule prod.exhaust)
    then have "list_all (entry_ok b) g \<and> list_all (entry_ok b) r"
      using set_text_binary_ok [OF entry_ok_flag _ g] "2.prems" by simp
    then show ?thesis using "2.IH"(2) [OF _ g [symmetric]] False g by simp
  qed (use 2 in simp)
qed simp

text \<open>What is known of \<^verbatim>\<open>qsort\<close>: on elements that the comparison orders, it returns them in that order.\<close>

definition orders :: "('a \<Rightarrow> 'a \<Rightarrow> int) \<Rightarrow> 'a list \<Rightarrow> bool" where
  "orders cmp xs \<longleftrightarrow>
     (\<forall>a \<in> set xs. \<forall>b \<in> set xs. cmp b a = - cmp a b \<and> (\<forall>c \<in> set xs. cmp a b \<le> 0 \<and> cmp b c \<le> 0 \<longrightarrow> cmp a c \<le> 0))"

definition qsort_ok :: "(('a \<Rightarrow> 'a \<Rightarrow> int) \<Rightarrow> 'a list \<Rightarrow> 'a list) \<Rightarrow> bool" where
  "qsort_ok qsort \<longleftrightarrow>
     (\<forall>cmp xs. orders cmp xs \<longrightarrow> mset (qsort cmp xs) = mset xs \<and> sorted_wrt (\<lambda>a b. cmp a b \<le> 0) (qsort cmp xs))"

lemma entry_ok_sortable: "entry_ok b e \<Longrightarrow> sortable e"
  by (cases e) (auto simp: entry_ok_def good_def sortable_def)

lemma sort_cmp_orders: "list_all (entry_ok b) es \<Longrightarrow> orders sort_cmp es"
  unfolding orders_def list_all_iff by (auto intro: sort_cmp_swap sort_cmp_trans dest!: entry_ok_sortable)

lemma sort_cmp_strength: "sort_cmp a b \<le> 0 \<Longrightarrow> strength b \<le> strength a"
  by (auto simp: sort_cmp_def compare_strength_le)

definition by_strength :: "magic_entry list \<Rightarrow> bool" where
  "by_strength es \<longleftrightarrow> sorted_wrt (\<lambda>a b. strength b \<le> strength a) es"

lemma sort_set_ok:
  assumes "qsort_ok qsort" "list_all (entry_ok b) es"
  shows "\<exists>es'. sort_set qsort es = Inr es' \<and> list_all (entry_ok b) es' \<and> by_strength es'"
proof (cases "length es < 2")
  case True
  then show ?thesis using assms(2) by (cases es; cases "tl es") (auto simp: sort_set_def by_strength_def)
next
  case False
  have "\<not> isl (file_magic_strength (hd e))" if "e \<in> set es" for e
    using strength_ok [of "hd e"] entry_ok_sortable [of b e] assms(2) that by (auto simp: list_all_iff sortable_def sized_def)
  then have f: "List.find (\<lambda>e. isl (file_magic_strength (hd e))) es = None" by (auto simp: find_None_iff)
  have q: "mset (qsort sort_cmp es) = mset es" "sorted_wrt (\<lambda>a b. sort_cmp a b \<le> 0) (qsort sort_cmp es)"
    using assms sort_cmp_orders by (auto simp: qsort_ok_def)
  have "list_all (entry_ok b) (qsort sort_cmp es)" using assms(2) mset_eq_setD [OF q(1)] by (simp add: list_all_iff)
  moreover have "by_strength (qsort sort_cmp es)"
    using q(2) unfolding by_strength_def by (rule sorted_wrt_mono_rel [rotated]) (simp add: sort_cmp_strength)
  ultimately show ?thesis using False f by (simp add: sort_set_def)
qed

lemma make_set_ok:
  assumes "qsort_ok qsort" "list_all (entry_ok b) es"
  shows "\<exists>r ms'. make_set qsort ms es = Inr (r, ms') \<and>
    (\<forall>l. r = Some l \<longrightarrow> (\<exists>es'. l = concat es' \<and> list_all (entry_ok b) es' \<and> by_strength es'))"
proof -
  obtain es' where "sort_set qsort (set_test_types es) = Inr es'" "list_all (entry_ok b) es'" "by_strength es'"
    using sort_set_ok [OF assms(1) set_test_types_ok [OF assms(2)]] by blast
  then show ?thesis
    by (auto simp: make_set_def Let_def coalesce_entries_def by_strength_def intro: exI [where x = "[]"])
qed

lemma apprentice_load_ok:
  assumes "qsort_ok qsort"
  shows "\<exists>r ms'. apprentice_load env fp strerror qsort compiling lastl files ms = Inr (r, ms') \<and>
    (\<forall>l0 l1. r = Some (l0, l1) \<longrightarrow>
       (\<exists>g0 g1. l0 = concat g0 \<and> l1 = concat g1 \<and> list_all (entry_ok False) g0 \<and> list_all (entry_ok True) g1 \<and>
          by_strength g0 \<and> by_strength g1))"
proof -
  let ?st = "\<lparr>ld_ps = \<lparr>ps_ms = ms\<lparr>ms_flags := ms_flags ms OR MAGIC_CHECK\<rparr>, ps_me = [], ps_last = lastl\<rparr>, ld_lineno = 0, ld_errs = 0,
    ld_set0 = [], ld_set1 = []\<rparr>"
  have "load_inv ?st" by (simp add: load_inv_def lines_ok_def)
  then obtain st where st: "load_files env fp strerror compiling files ?st = Inr st" "load_inv st" using load_files_ok by blast
  show ?thesis
  proof (cases "ld_errs st > 0")
    case True
    then show ?thesis using st by (simp add: apprentice_load_def Let_def)
  next
    case False
    then have l: "list_all (entry_ok False) (ld_set0 st)" "list_all (entry_ok True) (ld_set1 st)"
      using st(2) by (auto simp: load_inv_def)
    obtain r0 ms0 where r0: "make_set qsort (ps_ms (ld_ps st)) (ld_set0 st) = Inr (r0, ms0)"
        "\<forall>l. r0 = Some l \<longrightarrow> (\<exists>es'. l = concat es' \<and> list_all (entry_ok False) es' \<and> by_strength es')"
      using make_set_ok [OF assms l(1)] by blast
    obtain r1 ms1 where r1: "make_set qsort ms0 (ld_set1 st) = Inr (r1, ms1)"
        "\<forall>l. r1 = Some l \<longrightarrow> (\<exists>es'. l = concat es' \<and> list_all (entry_ok True) es' \<and> by_strength es')"
      using make_set_ok [OF assms l(2)] by blast
    show ?thesis
      using st r0 r1 False by (cases r0; cases r1) (auto simp: apprentice_load_def Let_def)
  qed
qed

subsection \<open>Properties\<close>

text \<open>C6.  Loading magic files is safe on every input.  Whatever the files contain, \<^verbatim>\<open>apprentice_load\<close> neither aborts nor
  uses a level outside the array; and when it succeeds, each of the two arrays is a sequence of groups, a
  top-level entry and its continuations, in which every entry has full arrays and a known type, relation and
  strength factor, the groups are in the order of decreasing strength, and the named groups are exactly
  those of the second array.\<close>

theorem apprentice_load_safe:
  assumes "qsort_ok qsort"
  shows "\<exists>r ms'. apprentice_load env fp strerror qsort compiling lastl files ms = Inr (r, ms') \<and>
    (\<forall>l0 l1. r = Some (l0, l1) \<longrightarrow>
       (\<exists>g0 g1. l0 = concat g0 \<and> l1 = concat g1 \<and> list_all (entry_ok False) g0 \<and> list_all (entry_ok True) g1 \<and>
          by_strength g0 \<and> by_strength g1))"
  by (rule apprentice_load_ok [OF assms])

text \<open>Insertion sort, as an example of \<^verbatim>\<open>qsort\<close>.\<close>

fun insert_by :: "('a \<Rightarrow> 'a \<Rightarrow> int) \<Rightarrow> 'a \<Rightarrow> 'a list \<Rightarrow> 'a list" where
  "insert_by cmp x [] = [x]"
| "insert_by cmp x (y # ys) = (if cmp x y \<le> 0 then x # y # ys else y # insert_by cmp x ys)"

definition isort :: "('a \<Rightarrow> 'a \<Rightarrow> int) \<Rightarrow> 'a list \<Rightarrow> 'a list" where
  "isort cmp xs = foldr (insert_by cmp) xs []"

lemma mset_insert_by [simp]: "mset (insert_by cmp x ys) = add_mset x (mset ys)"
  by (induction ys) auto

lemma set_insert_by [simp]: "set (insert_by cmp x ys) = insert x (set ys)"
  by (induction ys) auto

lemma orders_subset: "orders cmp xs \<Longrightarrow> set ys \<subseteq> set xs \<Longrightarrow> orders cmp ys"
  unfolding orders_def by blast

lemma insert_by_sorted:
  assumes "orders cmp (x # ys)" "sorted_wrt (\<lambda>a b. cmp a b \<le> 0) ys"
  shows "sorted_wrt (\<lambda>a b. cmp a b \<le> 0) (insert_by cmp x ys)"
  using assms
proof (induction ys)
  case (Cons y ys)
  have o: "orders cmp (x # ys)" by (rule orders_subset [OF Cons.prems(1)]) auto
  have "cmp y x = - cmp x y" using Cons.prems(1) unfolding orders_def by (meson list.set_intros)
  then have "cmp y x \<le> 0" if "\<not> cmp x y \<le> 0" using that by linarith
  moreover have "cmp x z \<le> 0" if "cmp x y \<le> 0" "z \<in> set ys" for z
  proof -
    have "cmp y z \<le> 0" using Cons.prems(2) that(2) by simp
    then show ?thesis using Cons.prems(1) that unfolding orders_def by (meson list.set_intros)
  qed
  ultimately show ?case using Cons.IH [OF o] Cons.prems(2) by auto
qed simp

lemma isort_ok: "qsort_ok isort"
proof -
  have "mset (isort cmp xs) = mset xs" for cmp and xs :: "'a list" by (induction xs) (simp_all add: isort_def)
  moreover have "sorted_wrt (\<lambda>a b. cmp a b \<le> 0) (isort cmp xs)" if "orders cmp xs" for cmp and xs :: "'a list"
    using that
  proof (induction xs)
    case (Cons x xs)
    have "set (isort cmp xs) = set xs" using calculation by (metis set_mset_mset)
    then have "orders cmp (x # isort cmp xs)" using orders_subset [OF Cons.prems] by simp
    moreover have "sorted_wrt (\<lambda>a b. cmp a b \<le> 0) (isort cmp xs)" using Cons.IH orders_subset [OF Cons.prems] by (simp add: subset_insertI)
    ultimately show ?case using insert_by_sorted by (fastforce simp: isort_def)
  qed (simp add: isort_def)
  ultimately show ?thesis by (simp add: qsort_ok_def)
qed

definition fp0 :: fparse where
  "fp0 = \<lparr>fp_strtof = \<lambda>s. (0, s, False), fp_strtod = \<lambda>s. (0, s, False)\<rparr>"

definition elf_magic :: "u8 list" where
  "elf_magic = bytes_of ''0 belong 0x7f454c46 ELF'' @ [0x0a] @ bytes_of ''>4 byte 1 32-bit'' @ [0x0a] @ bytes_of ''!:mime application/x-elf'' @ [0x0a]"

theorem apprentice_load_safe_witness:
  "\<exists>r ms'. apprentice_load env0 fp0 (\<lambda>_. []) isort True 0 [(bytes_of ''elf'', Inl elf_magic)] ms0 = Inr (r, ms')"
  using apprentice_load_safe [OF isort_ok, of env0 fp0 "\<lambda>_. []" True 0 "[(bytes_of ''elf'', Inl elf_magic)]" ms0] by blast

end
