(* ===== verification/Parse_Line.thy ===== *)
theory Parse_Line
  imports Parse_Safe
begin

text \<open>
  What \<^verbatim>\<open>parse\<close> makes of a line: for every numeric type of the table, every offset, relation, value that fits the type
  and description, the written line becomes exactly the entry it denotes.
\<close>

subsection \<open>Numbers that were written are read back\<close>

lemma base_number_append: "base_number b (xs @ [d]) = base_number b xs * b + digit_value d"
  by (simp add: base_number_def)

lemma digit_value_digit: "m < 10 \<Longrightarrow> digit_value (word_of_nat (0x30 + m)) = m"
  by (simp add: digit_value_def isdigit_def word_le_nat_alt unat_word_of_nat del: of_nat_add)

lemma base_number_digits: "n < 10 ^ k \<Longrightarrow> base_number 10 (dec_digits k n) = n"
proof (induction k arbitrary: n)
  case (Suc k)
  have d: "digit_value (word_of_nat (0x30 + n mod 10)) = n mod 10" by (rule digit_value_digit) simp
  show ?case
  proof (cases "n < 10")
    case True
    then show ?thesis using d base_number_append [of 10 "[]"] by (simp add: base_number_def del: of_nat_add)
  next
    case False
    have "base_number 10 (dec_digits k (n div 10)) = n div 10" using Suc.prems by (intro Suc.IH) auto
    then show ?thesis using d False by (simp add: base_number_append del: of_nat_add)
  qed
qed (simp add: base_number_def)

lemma hd_digits: "n < 10 ^ k \<Longrightarrow> n \<noteq> 0 \<Longrightarrow> dec_digits k n \<noteq> [] \<and> hd (dec_digits k n) \<noteq> 0x30"
proof (induction k arbitrary: n)
  case (Suc k)
  show ?case
  proof (cases "n < 10")
    case True
    then have "word_of_nat (0x30 + n) \<noteq> (0x30 :: u8)"
      using Suc.prems(2) by (simp add: word_unat_eq_iff unat_word_of_nat del: of_nat_add)
    then show ?thesis using True by simp
  next
    case False
    have "n div 10 \<noteq> 0" "n div 10 < 10 ^ k" using False Suc.prems by (auto simp: div_eq_0_iff)
    then show ?thesis using Suc.IH False by auto
  qed
qed simp

lemma digits_stop: "list_all P ds \<Longrightarrow> \<not> P c \<Longrightarrow> takeWhile P (ds @ c # r) = ds \<and> dropWhile P (ds @ c # r) = c # r"
  by (induction ds) auto

lemma scan_show:
  assumes "n < 10 ^ 20" "\<not> isxdigit c" "c \<noteq> 0x78" "c \<noteq> 0x58"
  shows "scan_number (show_nat n @ c # r) = Some (False, n, c # r)"
proof -
  obtain d ds where s: "show_nat n = d # ds" using show_nat_digits(2) [of n] by (cases "show_nat n") auto
  have d: "list_all isdigit (show_nat n)" using show_nat_digits by blast
  then have "isdigit d" using s by simp
  then have sp: "\<not> isspace d" "d \<noteq> 0x2d" "d \<noteq> 0x2b" by (auto simp: isdigit_def isspace_def word_le_nat_alt)
  have nd: "\<not> isdigit c" using assms(2) by (simp add: isxdigit_def)
  show ?thesis
  proof (cases "n = 0")
    case True
    then have z: "show_nat n = [0x30]" using dec_digits.simps(2) [of 19 0] by (simp add: show_nat_def)
    have "\<not> (0x30 \<le> c \<and> c \<le> 0x37)" using nd by (auto simp: isdigit_def word_le_nat_alt)
    then show ?thesis
      using True z assms by (auto simp: scan_number_def Let_def digits_of_def isspace_def base_number_def digit_value_def isdigit_def)
  next
    case False
    have "d \<noteq> 0x30" using hd_digits [of n 20] assms(1) False s by (simp add: show_nat_def)
    then have "digits_of (show_nat n @ c # r) = (10, isdigit, show_nat n @ c # r)" by (simp add: digits_of_def s)
    moreover have "base_number 10 (show_nat n) = n" using base_number_digits assms(1) by (simp add: show_nat_def)
    ultimately show ?thesis
      using digits_stop [OF d nd, of r] sp s by (auto simp: scan_number_def Let_def)
  qed
qed

subsection \<open>Types that were written are read back\<close>

lemma table_reads: "list_all (\<lambda>(n, t, f). get_type type_tbl n [] = (t, [])) type_tbl"
  by code_simp

lemma table_names:
  "list_all (\<lambda>(n, t, f). \<not> has_prefix (bytes_of ''if'') n \<and> \<not> has_prefix (bytes_of ''elif'') n \<and> \<not> has_prefix (bytes_of ''else'') n \<and>
     (hd n = 0x75 \<longrightarrow> t = FILE_USE) \<and> n \<noteq> [] \<and> \<not> isspace (hd n) \<and> 9 \<notin> set n) type_tbl"
  by code_simp

lemma has_prefix_length: "has_prefix p n \<Longrightarrow> length p \<le> length n"
  unfolding has_prefix_def by (metis length_take min.cobounded1 min.commute)

lemma has_prefix_stop: "c \<notin> set p \<Longrightarrow> has_prefix p (n @ c # r) \<longleftrightarrow> has_prefix p n"
proof (cases "length p \<le> length n")
  case False
  assume c: "c \<notin> set p"
  have "c \<in> set p" if "has_prefix p (n @ c # r)"
  proof -
    have "p ! length n = c" using that False unfolding has_prefix_def by (metis linorder_not_le nth_append_length nth_take)
    then show ?thesis using False by (metis linorder_not_le nth_mem)
  qed
  with c show ?thesis using False has_prefix_length by blast
qed (simp add: has_prefix_def)

lemma get_type_stop:
  "list_all (\<lambda>(n, t, f). 9 \<notin> set n) tbl \<Longrightarrow> get_type tbl n [] = (ty, []) \<Longrightarrow> ty \<noteq> FILE_INVALID \<Longrightarrow>
   get_type tbl (n @ 9 # r) t = (ty, 9 # r)"
proof (induction tbl)
  case (Cons e tbl)
  obtain p ty' f where e: "e = (p, ty', f)" by (cases e)
  then have "has_prefix p (n @ 9 # r) \<longleftrightarrow> has_prefix p n" using Cons.prems(1) by (intro has_prefix_stop) simp
  then show ?case using Cons e has_prefix_length [of p n] by (auto split: if_splits)
qed simp

lemma type_read:
  assumes "(name, ty, f) \<in> set type_tbl" "ty \<noteq> FILE_INVALID" "ty \<noteq> FILE_USE"
  shows "special_word (type_word (name @ 9 # r)) = (ty, False, 9 # r)" "get_cond (name @ 9 # r) = (COND_NONE, name @ 9 # r)"
    "EATAB (name @ 9 # r) = name @ 9 # r"
proof -
  have t: "list_all (\<lambda>(n, t, f). 9 \<notin> set n) type_tbl" using table_names by (auto simp: list_all_iff)
  have n: "\<not> has_prefix (bytes_of ''if'') name" "\<not> has_prefix (bytes_of ''elif'') name" "\<not> has_prefix (bytes_of ''else'') name"
      "hd name \<noteq> 0x75" "name \<noteq> []" "\<not> isspace (hd name)" "get_type type_tbl name [] = (ty, [])"
    using assms table_names table_reads by (fastforce simp: list_all_iff)+
  have "get_type type_tbl (name @ 9 # r) (name @ 9 # r) = (ty, 9 # r)" by (rule get_type_stop [OF t n(7) assms(2)])
  then show "special_word (type_word (name @ 9 # r)) = (ty, False, 9 # r)"
    using n(4,5) assms(2) by (cases name) (simp_all add: type_word_def special_word_def)
  show "EATAB (name @ 9 # r) = name @ 9 # r" using n(5,6) by (cases name) (simp_all add: EATAB_def)
  have "9 \<notin> set (bytes_of ''if'')" "9 \<notin> set (bytes_of ''elif'')" "9 \<notin> set (bytes_of ''else'')" by (simp_all add: bytes_of_def)
  then show "get_cond (name @ 9 # r) = (COND_NONE, name @ 9 # r)" using n(1-3) by (simp add: get_cond_def has_prefix_stop)
qed

subsection \<open>A line of a numeric type\<close>

definition numeric_line :: "nat \<Rightarrow> nat \<Rightarrow> u8 list \<Rightarrow> u8 \<Rightarrow> nat \<Rightarrow> u8 list \<Rightarrow> u8 list" where
  "numeric_line lev off name reln v desc =
     replicate lev 0x3e @ show_nat off @ 9 # name @ 9 # reln # show_nat v @ 9 # desc"

definition numeric_magic :: "nat \<Rightarrow> nat \<Rightarrow> nat \<Rightarrow> u8 \<Rightarrow> u8 \<Rightarrow> nat \<Rightarrow> u8 list \<Rightarrow> magic" where
  "numeric_magic lev no off ty reln v desc =
     (let m = (blank_entry lev no)\<lparr>m_offset := word_of_nat off, m_type := ty, m_reln := reln\<rparr> in
      m\<lparr>m_value := put_q (file_signextend m (word_of_nat v)) (m_value m), m_desc := desc @ replicate (64 - length desc) 0\<rparr>)"

text \<open>A numeric type whose value is an integer, a relation other than the one that matches anything, and a plain description.\<close>

definition integer_type :: "u8 \<Rightarrow> nat \<Rightarrow> bool" where
  "integer_type ty ts \<longleftrightarrow> typesize ty = Some ts \<and> ts \<le> 8 \<and>
     ty \<notin> {FILE_FLOAT, FILE_BEFLOAT, FILE_LEFLOAT, FILE_DOUBLE, FILE_BEDOUBLE, FILE_LEDOUBLE}"

definition plain_desc :: "u8 list \<Rightarrow> bool" where
  "plain_desc d \<longleftrightarrow> d \<noteq> [] \<and> length d < 63 \<and> 0 \<notin> set d \<and> 0x25 \<notin> set d \<and> \<not> isspace (hd d) \<and> hd d \<noteq> 0x08 \<and> hd d \<noteq> 0x5c"

definition comparing :: "u8 \<Rightarrow> bool" where
  "comparing r \<longleftrightarrow> r = 0x3d \<or> r = 0x3c \<or> r = 0x3e \<or> r = 0x26 \<or> r = 0x5e \<or> r = 0x21"

lemma typesize_sized_type: "typesize ty = Some ts \<Longrightarrow> sized_type ty"
proof (rule ccontr)
  assume "\<not> sized_type ty" and t: "typesize ty = Some ts"
  then have "typesize ty = None" by (simp add: sized_type_def typesize_def)
  with t show False by simp
qed

lemma sized_type_not_string:
  "sized_type ty \<Longrightarrow> \<not> IS_STRING ty \<and> \<not> string_value_type ty \<and> ty \<noteq> FILE_INVALID \<and> ty \<noteq> FILE_USE \<and> ty \<noteq> FILE_NAME \<and> ty \<noteq> FILE_PSTRING"
  unfolding sized_type_def by (elim disjE) (simp_all add: IS_STRING_def string_value_type_def)

lemma integer_typeD:
  assumes "integer_type ty ts"
  shows "ts = 1 \<or> ts = 2 \<or> ts = 4 \<or> ts = 8" "\<not> IS_STRING ty" "\<not> string_value_type ty" "ty \<noteq> FILE_INVALID" "ty \<noteq> FILE_USE"
    "ty \<noteq> FILE_NAME" "ty \<noteq> FILE_PSTRING" "ty \<noteq> FILE_GUID" "ty \<noteq> FILE_LEGUID" "ty \<noteq> FILE_BEGUID"
proof -
  have t: "typesize ty = Some ts" "ts \<le> 8" using assms by (simp_all add: integer_type_def)
  show g: "ty \<noteq> FILE_GUID" "ty \<noteq> FILE_LEGUID" "ty \<noteq> FILE_BEGUID" using t by (auto simp: typesize_def)
  then show "ts = 1 \<or> ts = 2 \<or> ts = 4 \<or> ts = 8" using typesize_16 [OF t(1)] by blast
  show "\<not> IS_STRING ty" "\<not> string_value_type ty" "ty \<noteq> FILE_INVALID" "ty \<noteq> FILE_USE" "ty \<noteq> FILE_NAME" "ty \<noteq> FILE_PSTRING"
    using sized_type_not_string [OF typesize_sized_type [OF t(1)]] by simp_all
qed

lemma fits_mask: "v < 2 ^ n \<Longrightarrow> n < 64 \<Longrightarrow> (word_of_nat v :: u64) AND NOT (mask n) = 0"
proof -
  assume v: "v < 2 ^ n" "n < 64"
  then have "v < 2 ^ 64" by (meson less_imp_le less_le_trans one_le_numeral power_increasing)
  then have "unat (word_of_nat v :: u64) = v" by (simp add: unat_word_of_nat)
  then have "(word_of_nat v :: u64) AND mask n = word_of_nat v"
    using v by (simp add: word_unat_eq_iff unat_and_mask)
  moreover have "((word_of_nat v :: u64) AND mask n) AND NOT (mask n) = 0" by (simp add: and.assoc)
  ultimately show ?thesis by simp
qed

lemma value_fits:
  assumes "integer_type ty ts" "v < 256 ^ ts"
  shows "overflows ts (word_of_nat v) = Inr False"
proof -
  have m: "mask 8 = (0xff :: u64)" "mask 16 = (0xffff :: u64)" "mask 32 = (0xffffffff :: u64)"
    by (simp_all add: mask_eq_exp_minus_1)
  have "v < 2 ^ (8 * ts)" using assms(2) by (simp add: power_mult)
  then show ?thesis
    using integer_typeD(1) [OF assms(1)] fits_mask [of v 8] fits_mask [of v 16] fits_mask [of v 32] unfolding m
    by (auto simp: overflows_def Let_def)
qed

lemma show_nat_head:
  obtains d ds where "show_nat n = d # ds" "isdigit d" "d \<noteq> 0x3d" "\<not> isspace d" "d \<noteq> 0x2d" "d \<noteq> 0x2b" "d \<noteq> 0x26" "d \<noteq> 0x28" "d \<noteq> 0x3e"
proof -
  obtain d ds where s: "show_nat n = d # ds" using show_nat_digits(2) [of n] by (cases "show_nat n") auto
  then have "isdigit d" using show_nat_digits(1) [of n] by simp
  moreover from this have "d \<noteq> 0x3d" "\<not> isspace d" "d \<noteq> 0x2d" "d \<noteq> 0x2b" "d \<noteq> 0x26" "d \<noteq> 0x28" "d \<noteq> 0x3e"
    by (auto simp: isdigit_def isspace_def word_le_nat_alt)
  ultimately show thesis using that [OF s] by blast
qed

lemma strtol_show:
  assumes "n < 2 ^ 31"
  shows "strtol (show_nat n @ 9 # r) = (int n, 9 # r)"
proof -
  have "scan_number (show_nat n @ 9 # r) = Some (False, n, 9 # r)"
    by (rule scan_show) (use assms in \<open>simp_all add: isxdigit_def isdigit_def\<close>)
  then show ?thesis using assms by (simp add: strtol_def)
qed

lemma strtoull_show:
  assumes "n < 2 ^ 64"
  shows "strtoull (show_nat n @ 9 # r) = (word_of_nat n, 9 # r, False)"
proof -
  have "scan_number (show_nat n @ 9 # r) = Some (False, n, 9 # r)"
    by (rule scan_show) (use assms in \<open>simp_all add: isxdigit_def isdigit_def\<close>)
  then show ?thesis using assms by (simp add: strtoull_def)
qed

text \<open>The stages on such a line.\<close>

lemma offset_stage:
  assumes "off < 2 ^ 31" "m_flag m = 0"
  shows "parse_offset \<lparr>ls_ms = ms, ls_m = m, ls_l = show_nat off @ 9 # r\<rparr> =
    Next \<lparr>ls_ms = ms, ls_m = m\<lparr>m_offset := word_of_nat off\<rparr>, ls_l = 9 # r\<rparr>"
proof -
  obtain d ds where s: "show_nat off = d # ds" "isdigit d" "d \<noteq> 0x3d" "\<not> isspace d" "d \<noteq> 0x2d" "d \<noteq> 0x2b" "d \<noteq> 0x26" "d \<noteq> 0x28" "d \<noteq> 0x3e"
    by (rule show_nat_head)
  have "9 # r \<noteq> d # ds @ 9 # r" using arg_cong [where f = length and x = "9 # r" and y = "d # ds @ 9 # r"] by auto
  then show ?thesis
    using strtol_show [OF assms(1), of r] assms(2) s(5-8)
    by (simp add: parse_offset_def offset_prefix_def Let_def s(1) has_def)
qed

lemma cond_stage:
  assumes "EATAB l = l" "get_cond l = (COND_NONE, l)" "lev < length (ms_li ms)"
  shows "\<exists>li. parse_cond lev (eat \<lparr>ls_ms = ms, ls_m = m, ls_l = 9 # l\<rparr>) =
    Next \<lparr>ls_ms = ms\<lparr>ms_li := li\<rparr>, ls_m = m\<lparr>m_cond := COND_NONE\<rparr>, ls_l = l\<rparr>"
proof -
  have "EATAB (9 # l) = l" using assms(1) by (simp add: EATAB_def isascii_def isspace_def)
  then show ?thesis using assms by (simp add: parse_cond_def eat_def check_cond_def next_cond_def) blast
qed

lemma reln_stage:
  assumes "comparing r" "c \<noteq> 0x3d"
  shows "parse_reln (eat \<lparr>ls_ms = ms, ls_m = m, ls_l = 9 # r # c # l\<rparr>) = Next \<lparr>ls_ms = ms, ls_m = m\<lparr>m_reln := r\<rparr>, ls_l = c # l\<rparr>"
proof -
  have "EATAB (9 # r # c # l) = r # c # l" using assms(1) by (auto simp: EATAB_def isascii_def isspace_def comparing_def)
  then show ?thesis using assms by (auto simp: parse_reln_def eat_def step_def Let_def comparing_def)
qed

lemma value_stage:
  assumes "integer_type (m_type m) ts" "v < 256 ^ ts" "m_reln m \<noteq> 0x78"
  shows "parse_value env fp cmpl \<lparr>ls_ms = ms, ls_m = m, ls_l = show_nat v @ 9 # r\<rparr> =
    Next \<lparr>ls_ms = ms, ls_m = m\<lparr>m_value := put_q (file_signextend m (word_of_nat v)) (m_value m)\<rparr>, ls_l = 9 # r\<rparr>"
proof -
  obtain d ds where s: "show_nat v = d # ds" "isdigit d" "d \<noteq> 0x3d" "\<not> isspace d" "d \<noteq> 0x2d" "d \<noteq> 0x2b" "d \<noteq> 0x26" "d \<noteq> 0x28" "d \<noteq> 0x3e"
    by (rule show_nat_head)
  have "(256 :: nat) ^ ts \<le> 256 ^ 8" using assms(1) by (intro power_increasing) (simp_all add: integer_type_def)
  then have "v < 2 ^ 64" using assms(2) by simp
  note u = strtoull_show [OF this, of r] value_fits [OF assms(1,2)]
  have "9 # r \<noteq> d # ds @ 9 # r" using arg_cong [where f = length and x = "9 # r" and y = "d # ds @ 9 # r"] by auto
  moreover have "eatsize (9 # r) = 9 # r" by (simp add: eatsize_def LOWCASE_def isupper_def)
  moreover have "typesize (m_type m) = Some ts" using assms(1) by (simp add: integer_type_def)
  ultimately have "getvalue_number \<lparr>ls_ms = ms, ls_m = m, ls_l = d # ds @ 9 # r\<rparr> =
      Next \<lparr>ls_ms = ms, ls_m = m\<lparr>m_value := put_q (file_signextend m (word_of_nat v)) (m_value m)\<rparr>, ls_l = 9 # r\<rparr>"
    using u s by (simp add: getvalue_number_def Let_def)
  then show ?thesis
    using assms(1,3) integer_typeD [OF assms(1)] s(1)
    by (simp add: parse_value_def getvalue_def Let_def integer_type_def)
qed

lemma desc_stage:
  assumes "plain_desc d" "m_desc m = replicate 64 0"
  shows "parse_desc fn \<lparr>ls_ms = ms, ls_m = m, ls_l = 9 # d\<rparr> = 
    Next \<lparr>ls_ms = ms, ls_m = m\<lparr>m_desc := d @ replicate (64 - length d) 0\<rparr>, ls_l = d\<rparr>"
proof -
  have d: "d \<noteq> []" "length d < 63" "\<not> isspace (hd d)" "hd d \<noteq> 0x08" "hd d \<noteq> 0x5c" "0 \<notin> set d" "0x25 \<notin> set d"
    using assms(1) by (simp_all add: plain_desc_def)
  then have e: "EATAB (9 # d) = d" "ch d = hd d" "hd d \<noteq> 0"
    by (cases d; auto simp: EATAB_def isascii_def isspace_def)+
  have "d @ 0 # replicate (63 - length d) 0 = d @ replicate (64 - length d) (0 :: u8)"
    using d(2) by (simp add: Suc_diff_le flip: replicate_Suc)
  then have c: "copy_desc fn d (replicate 64 0) = d @ replicate (64 - length d) 0"
    using d e(2,3) by (cases d) (simp_all add: copy_desc_def Let_def min_def)
  have "dropWhile (\<lambda>c. c \<noteq> 0x25) (cstr (d @ replicate (64 - length d) 0)) = []"
    using d(6,7) by (auto simp: cstr_def dropWhile_eq_Nil_conv dest: set_takeWhileD)
  then have "check_format ms (m\<lparr>m_desc := d @ replicate (64 - length d) 0\<rparr>) = Inr (True, ms)"
    by (simp add: check_format_def del: dropWhile_eq_Nil_conv)
  then show ?thesis
    using d e c assms(2) by (auto simp: parse_desc_def eat_def Let_def)
qed

lemma entry_stages:
  assumes "(name, ty, f) \<in> set type_tbl" "integer_type ty ts" "v < 256 ^ ts" "off < 2 ^ 31" "comparing reln" "plain_desc desc"
    "lev < length (ms_li ms)"
  shows "\<exists>li. parse_entry env fp fn cmpl lev
      \<lparr>ls_ms = ms, ls_m = blank_entry lev no, ls_l = show_nat off @ 9 # name @ 9 # reln # show_nat v @ 9 # desc\<rparr> =
    Next \<lparr>ls_ms = ms\<lparr>ms_li := li\<rparr>, ls_m = numeric_magic lev no off ty reln v desc, ls_l = desc\<rparr>"
proof -
  let ?l1 = "reln # show_nat v @ 9 # desc"
  let ?m = "blank_entry lev no"
  note t = integer_typeD [OF assms(2)]
  note ty = type_read [OF assms(1) t(4,5)]
  have b: "m_flag ?m = 0" "m_cond ?m = 0" "m_mask_op ?m = 0" "m_u ?m = 0" "m_desc ?m = replicate 64 0" "m_mimetype ?m = replicate 80 0"
    by (simp_all add: blank_entry_def sized0_def m0_def)
  let ?m1 = "?m\<lparr>m_offset := word_of_nat off\<rparr>"
  let ?m2 = "?m1\<lparr>m_type := ty\<rparr>"
  let ?m3 = "?m2\<lparr>m_reln := reln\<rparr>"
  obtain li where c: "parse_cond lev (eat \<lparr>ls_ms = ms, ls_m = ?m1, ls_l = 9 # name @ 9 # ?l1\<rparr>) =
      Next \<lparr>ls_ms = ms\<lparr>ms_li := li\<rparr>, ls_m = ?m1\<lparr>m_cond := COND_NONE\<rparr>, ls_l = name @ 9 # ?l1\<rparr>"
    using cond_stage [OF ty(3,2) assms(7)] by blast
  have i: "parse_indir \<lparr>ls_ms = ms, ls_m = ?m1, ls_l = 9 # name @ 9 # ?l1\<rparr> = Next \<lparr>ls_ms = ms, ls_m = ?m1, ls_l = 9 # name @ 9 # ?l1\<rparr>"
    using b(1) by (simp add: parse_indir_def has_def)
  have p: "parse_type lev \<lparr>ls_ms = ms\<lparr>ms_li := li\<rparr>, ls_m = ?m1\<lparr>m_cond := COND_NONE\<rparr>, ls_l = name @ 9 # ?l1\<rparr> =
      Next \<lparr>ls_ms = ms\<lparr>ms_li := li\<rparr>, ls_m = ?m2, ls_l = 9 # ?l1\<rparr>"
    using ty(1) t(4,6) b(1,2) by (simp add: parse_type_def Let_def)
  have o: "parse_op \<lparr>ls_ms = ms\<lparr>ms_li := li\<rparr>, ls_m = ?m2, ls_l = 9 # ?l1\<rparr> = Next \<lparr>ls_ms = ms\<lparr>ms_li := li\<rparr>, ls_m = ?m2, ls_l = 9 # ?l1\<rparr>"
    using t(7) b(3,4) by (simp add: parse_op_def Let_def set_str_def get_op_def)
  obtain d ds where s: "show_nat v = d # ds" "d \<noteq> 0x3d" using show_nat_head [of v] by metis
  have r: "parse_reln (eat \<lparr>ls_ms = ms\<lparr>ms_li := li\<rparr>, ls_m = ?m2, ls_l = 9 # ?l1\<rparr>) =
      Next \<lparr>ls_ms = ms\<lparr>ms_li := li\<rparr>, ls_m = ?m3, ls_l = show_nat v @ 9 # desc\<rparr>"
    using reln_stage [OF assms(5) s(2)] s(1) by simp
  have "m_reln ?m3 \<noteq> 0x78" using assms(5) by (auto simp: comparing_def)
  note v = value_stage [of ?m3 ts v, OF _ assms(3) this]
  let ?m4 = "?m3\<lparr>m_value := put_q (file_signextend ?m3 (word_of_nat v)) (m_value ?m3)\<rparr>"
  have q: "numeric_magic lev no off ty reln v desc = ?m4\<lparr>m_desc := desc @ replicate (64 - length desc) 0\<rparr>"
    by (simp add: numeric_magic_def Let_def)
  have k: "clear_mime \<lparr>ls_ms = ms', ls_m = numeric_magic lev no off ty reln v desc, ls_l = l\<rparr> =
      Next \<lparr>ls_ms = ms', ls_m = numeric_magic lev no off ty reln v desc, ls_l = l\<rparr>" for ms' l
    unfolding q by (simp add: clear_mime_def blank_entry_def sized0_def m0_def flip: replicate_Suc)
  show ?thesis
    using offset_stage [OF assms(4) b(1), of ms "name @ 9 # ?l1"] i c p o r v assms(2)
      desc_stage [OF assms(6), of ?m4, folded q] b(5) k
    by (intro exI [of _ li]) (simp add: parse_entry_def)
qed

text \<open>C7.  A line of a numeric type means what it says.  Written with a level, an offset, the name of an integer type of the
  table, a relation, a value that fits the type and a plain description, it is accepted without a warning, and
  the entry appended to the current one has exactly that level, offset, type, relation, value and description,
  and is zero everywhere else.\<close>

theorem parse_numeric_line:
  assumes "(name, ty, f) \<in> set type_tbl" "integer_type ty ts" "v < 256 ^ ts" "off < 2 ^ 31" "comparing reln" "plain_desc desc"
    and "lines_ok ps" "lev < 256"
    and "if ps_me ps = [] then lev = 0 else 0 < lev \<and> lev \<le> Suc (unat (m_cont_level (List.last (ps_me ps))))"
  shows "\<exists>ps'. parse env fp fn cmpl no (numeric_line lev off name reln v desc) ps = Inr (0, ps') \<and>
    ps_me ps' = ps_me ps @ [numeric_magic lev no off ty reln v desc] \<and> ms_magwarn (ps_ms ps') = ms_magwarn (ps_ms ps)"
proof -
  let ?l = "show_nat off @ 9 # name @ 9 # reln # show_nat v @ 9 # desc"
  obtain d ds where s: "show_nat off = d # ds" "d \<noteq> 0x3e" using show_nat_head [of off] by metis
  have w: "takeWhile (\<lambda>c. c = 0x3e) (numeric_line lev off name reln v desc) = replicate lev 0x3e"
      "dropWhile (\<lambda>c. c = 0x3e) (numeric_line lev off name reln v desc) = ?l"
    using s by (simp_all add: numeric_line_def takeWhile_append dropWhile_append)
  have lv: "levels_of (numeric_line lev off name reln v desc) = lev" using w(1) assms(8) by (simp add: levels_of_def)
  define ps1 where "ps1 = check_levels env lev ps"
  have c: "lev < length (ms_li (ps_ms ps1))" "ps_me ps1 = ps_me ps" "ps_last ps1 = lev"
    unfolding ps1_def using check_levels_ok [OF assms(7), of lev env] assms(9) by (auto split: if_splits)
  have m: "ms_magwarn (ps_ms ps1) = ms_magwarn (ps_ms ps)"
    by (simp add: ps1_def check_levels_def file_check_mem_def Let_def)
  have "sint (word_of_nat lev :: u32) = int lev" using assms(8) by (simp add: signed_of_nat signed_take_bit_int_eq_self_iff)
  moreover have "int lev \<le> 1 + uint x" if "lev \<le> Suc (unat x)" for x :: u8
  proof -
    have "int lev \<le> int (Suc (unat x))" using that by (simp only: of_nat_le_iff)
    then show ?thesis by simp
  qed
  ultimately have dw: "ps_me ps \<noteq> [] \<longrightarrow> deep_warn lev ps1 = ps_ms ps1"
    using assms(9) c(2) by (fastforce simp: deep_warn_def)
  obtain li where e: "parse_entry env fp fn cmpl lev \<lparr>ls_ms = ps_ms ps1, ls_m = blank_entry lev no, ls_l = ?l\<rparr> =
      Next \<lparr>ls_ms = (ps_ms ps1)\<lparr>ms_li := li\<rparr>, ls_m = numeric_magic lev no off ty reln v desc, ls_l = desc\<rparr>"
    using entry_stages [OF assms(1-6) c(1)] by blast
  have "fill_entry env fp fn cmpl lev no ?l ps1 =
      Inr (0, ps1\<lparr>ps_ms := (ps_ms ps1)\<lparr>ms_li := li\<rparr>, ps_me := ps_me ps1 @ [numeric_magic lev no off ty reln v desc]\<rparr>)"
    using e by (simp add: fill_entry_def)
  moreover have "parse env fp fn cmpl no (numeric_line lev off name reln v desc) ps = fill_entry env fp fn cmpl lev no ?l ps1"
    unfolding parse_def lv w(2) Let_def ps1_def [symmetric] using dw assms(9) c(2) by (auto split: if_splits)
  ultimately show ?thesis using m c(2) by simp
qed

theorem parse_numeric_line_witness:
  "\<exists>ps'. parse env0 fp0 [] True 1 (numeric_line 0 0 (bytes_of ''belong'') 0x3d 0x7f454c46 (bytes_of ''ELF'')) \<lparr>ps_ms = ms0, ps_me = [], ps_last = 0\<rparr>
      = Inr (0, ps') \<and> ps_me ps' = [numeric_magic 0 1 0 FILE_BELONG 0x3d 0x7f454c46 (bytes_of ''ELF'')]"
proof -
  have "(bytes_of ''belong'', FILE_BELONG, FILE_FMT_NUM) \<in> set type_tbl" by (simp add: type_tbl_def)
  moreover have "integer_type FILE_BELONG 4" by (simp add: integer_type_def typesize_def)
  moreover have "plain_desc (bytes_of ''ELF'')" by (simp add: plain_desc_def bytes_of_def isspace_def)
  ultimately show ?thesis
    using parse_numeric_line [where name = "bytes_of ''belong''" and ty = FILE_BELONG and f = FILE_FMT_NUM and ts = 4 and
        v = "0x7f454c46" and off = 0 and reln = "0x3d" and desc = "bytes_of ''ELF''" and ps = "\<lparr>ps_ms = ms0, ps_me = [], ps_last = 0\<rparr>"
        and lev = 0 and env = env0 and fp = fp0 and fn = "[]" and cmpl = True and no = 1]
    by (auto simp: comparing_def lines_ok_def)
qed

text \<open>C40.  A MIME type that fills its field and ends the line is left without a terminator, and the terminator is written over
  the first byte of the next field: the only bound that \<^verbatim>\<open>parse_extra\<close> checks in that branch is the end of the line.\<close>

theorem parse_mime_overrun:
  assumes "length line = 80" "list_all (\<lambda>c. isalnum c \<and> isascii c) line"
    and "length (m_mimetype m) = 80" "ch (m_mimetype m) = 0" "ch (m_desc m) \<noteq> 0" "80 \<le> llen"
  shows "parse_mime ms m line llen = (True, m\<lparr>m_mimetype := line, m_apple := (m_apple m)[0 := 0]\<rparr>, ms)"
proof -
  have l: "line \<noteq> []" using assms(1) by auto
  have g: "list_all (\<lambda>c. goodchar c ex) line" for ex using assms(2) by (simp add: goodchar_def list_all_iff)
  have "\<not> isspace (hd line)" using assms(2) l by (cases line) (auto simp: isalnum_def isalpha_def isupper_def islower_def isdigit_def isspace_def word_le_nat_alt)
  then have "EATAB line = line" using l by (cases line) (simp_all add: EATAB_def)
  moreover have "extra_text llen 80 ex line = line" for ex
    using g [of ex] assms(1,6) by (simp add: extra_text_def min_def takeWhile_eq_all_conv list_all_iff)
  ultimately show ?thesis
    using assms l by (simp add: parse_mime_def parse_extra_def Let_def goodchar_def)
qed

theorem parse_mime_overrun_witness:
  "fst (parse_mime ms0 (sized0\<lparr>m_desc := bytes_of ''x'' @ replicate 63 0, m_apple := bytes_of ''ABCDEFGH''\<rparr>) (replicate 80 0x61) 81)"
  using parse_mime_overrun [of "replicate 80 0x61" "sized0\<lparr>m_desc := bytes_of ''x'' @ replicate 63 0, m_apple := bytes_of ''ABCDEFGH''\<rparr>" 81 ms0]
  by (simp add: list_all_iff isalnum_def isalpha_def islower_def isascii_def sized0_def m0_def bytes_of_def)

end
