(* ===== verification/End_To_End.thy ===== *)
theory End_To_End
  imports Parse_Line Numeric_Test Detectors
begin

text \<open>
  From the text of a magic file to the answer: the parser and the loader of \<^verbatim>\<open>src/apprentice.c\<close> and the engine of
  \<^verbatim>\<open>src/softmagic.c\<close> put together.
\<close>

subsection \<open>Loading a line\<close>

text \<open>A line without a newline or a NUL.\<close>

definition text_line :: "u8 list \<Rightarrow> bool" where
  "text_line l \<longleftrightarrow> 0 \<notin> set l \<and> 0x0a \<notin> set l"

lemma split_lines_line: "0x0a \<notin> set l \<Longrightarrow> split_lines acc (l @ [0x0a]) = [acc @ l @ [0x0a]]"
  by (induction l arbitrary: acc) auto

lemma trim_line: "0x0a \<notin> set l \<Longrightarrow> file_trimline (l @ [0x0a]) n = (l, Suc n)"
proof -
  assume "0x0a \<notin> set l"
  then have "takeWhile (\<lambda>c. c = 0x0a) (rev l) = []" by (cases l rule: rev_cases) auto
  then show ?thesis by (simp add: file_trimline_def)
qed

lemma cstr_id: "0 \<notin> set l \<Longrightarrow> cstr l = l"
  by (auto simp: cstr_def takeWhile_eq_all_conv)

lemma table_text: "list_all (\<lambda>(n, t, f). text_line n) type_tbl"
  by code_simp

lemma numeric_line_text:
  assumes "(name, ty, f) \<in> set type_tbl" "comparing reln" "text_line desc"
  shows "text_line (numeric_line lev off name reln v desc)"
proof -
  have n: "text_line name" using table_text assms(1) by (fastforce simp: list_all_iff)
  have d: "text_line (show_nat k)" for k
    using show_nat_digits [of k] by (auto simp: text_line_def list_all_iff isdigit_def)
  show ?thesis
    using n d [of off] d [of v] assms(2,3) by (auto simp: text_line_def numeric_line_def comparing_def)
qed

text \<open>The entry that the loader makes of a numeric line: the first of its file, marked as a binary test.\<close>

definition loaded :: "nat \<Rightarrow> u8 \<Rightarrow> u8 \<Rightarrow> nat \<Rightarrow> u8 list \<Rightarrow> magic" where
  "loaded off ty reln v desc = (numeric_magic 0 1 off ty reln v desc)\<lparr>m_flag := BINTEST\<rparr>"

lemma integer_binary: "num_width ty \<noteq> 0 \<Longrightarrow> binary_type ty \<and> ty \<noteq> FILE_NAME \<and> ty \<noteq> FILE_DEFAULT"
  by (cases rule: num_width_cases [of ty]) (simp_all add: binary_type_def)

lemma numeric_magic_fields [simp]:
  "m_type (numeric_magic lev no off ty reln v desc) = ty" "m_cont_level (numeric_magic lev no off ty reln v desc) = word_of_nat lev"
  "m_flag (numeric_magic lev no off ty reln v desc) = 0" "m_reln (numeric_magic lev no off ty reln v desc) = reln"
  "m_offset (numeric_magic lev no off ty reln v desc) = word_of_nat off" "m_mask_op (numeric_magic lev no off ty reln v desc) = 0"
  "m_u (numeric_magic lev no off ty reln v desc) = 0" "m_desc (numeric_magic lev no off ty reln v desc) = desc @ replicate (64 - length desc) 0"
  by (simp_all add: numeric_magic_def Let_def blank_entry_def sized0_def m0_def)

lemma load_numeric_line:
  assumes line: "(name, ty, f) \<in> set type_tbl" "integer_type ty ts" "v < 256 ^ ts" "off < 2 ^ 31" "comparing reln" "plain_desc desc"
    and desc: "text_line desc" and ty: "num_width ty \<noteq> 0" and warn: "ms_magwarn ms < ms_magwarn_max ms"
  shows "\<exists>ms'. apprentice_load env fp strerror qsort cmpl lastl [(fn, Inl (numeric_line 0 off name reln v desc @ [0x0a]))] ms =
    Inr (Some ([loaded off ty reln v desc], []), ms')"
proof -
  let ?l = "numeric_line 0 off name reln v desc" and ?m = "numeric_magic 0 1 off ty reln v desc"
  have t: "0 \<notin> set ?l" "0x0a \<notin> set ?l" using numeric_line_text [OF line(1,5) desc] by (auto simp: text_line_def)
  obtain d ds where "show_nat off = d # ds" "isdigit d" by (rule show_nat_head)
  then have c: "ch ?l = d" "d \<noteq> 0" "d \<noteq> 0x23" "d \<noteq> 0x21" by (auto simp: numeric_line_def isdigit_def)
  define ps where "ps = \<lparr>ps_ms = ms\<lparr>ms_flags := ms_flags ms OR MAGIC_CHECK, ms_line := 1\<rparr>, ps_me = [], ps_last = lastl\<rparr>"
  have "lines_ok ps" by (simp add: ps_def lines_ok_def)
  then obtain ps' where p: "parse env fp fn cmpl 1 ?l ps = Inr (0, ps')" "ps_me ps' = [?m]"
    using parse_numeric_line [OF line, where ps = ps and lev = 0 and env = env and fp = fp and fn = fn and cmpl = cmpl and no = 1]
    by (auto simp: ps_def)
  define st where "st = \<lparr>ld_ps = ps, ld_lineno = 0, ld_errs = 0, ld_set0 = [], ld_set1 = []\<rparr>"
  have "load_line env fp fn cmpl (?l @ [0x0a]) st = Inr (st\<lparr>ld_lineno := 1, ld_ps := ps'\<rparr>)"
    using c p by (simp add: load_line_def trim_line [OF t(2)] magic_line_def parse_into_def cstr_id [OF t(1)] st_def Let_def)
  then have "load_1 env fp strerror cmpl fn (Inl (?l @ [0x0a])) (st\<lparr>ld_ps := ps\<lparr>ps_ms := ms\<lparr>ms_flags := ms_flags ms OR MAGIC_CHECK\<rparr>\<rparr>\<rparr>) =
      Inr (addentry (next_line (st\<lparr>ld_lineno := 1, ld_ps := ps'\<rparr>)))"
    using warn p(2) by (simp add: load_1_def split_lines_line [OF t(2)] Let_def set_ms_def st_def ps_def next_line_def)
  then show ?thesis
    using p(2) integer_binary [OF ty]
    by (simp add: apprentice_load_def Let_def st_def ps_def addentry_def next_line_def set_ms_def make_set_def
        sort_set_def set_last_default_def coalesce_entries_def default_top_def loaded_def set_test_type_def)
qed

subsection \<open>The numbers\<close>

text \<open>The number of a two's complement field of \<open>w\<close> bytes.\<close>

definition signed_number :: "nat \<Rightarrow> nat \<Rightarrow> int" where
  "signed_number w n = signed_take_bit (8 * w - 1) (int n)"

lemma integer_width: "integer_type ty ts \<Longrightarrow> num_width ty \<noteq> 0 \<Longrightarrow> num_width ty = ts"
  by (cases rule: num_width_cases [of ty]) (auto simp: integer_type_def typesize_def num_width_def)

lemma loaded_fields [simp]:
  "m_type (loaded off ty reln v desc) = ty" "m_cont_level (loaded off ty reln v desc) = 0"
  "m_flag (loaded off ty reln v desc) = BINTEST" "m_reln (loaded off ty reln v desc) = reln"
  "m_offset (loaded off ty reln v desc) = word_of_nat off" "m_mask_op (loaded off ty reln v desc) = 0"
  "m_u (loaded off ty reln v desc) = 0" "m_desc (loaded off ty reln v desc) = desc @ replicate (64 - length desc) 0"
  by (simp_all add: loaded_def)

lemma loaded_read: "read_number (loaded off ty reln v desc) bs = signed_number (num_width ty) (number ty bs)"
  by (simp add: read_number_def signed_number_def has_def)

lemma widen:
  "v < 256 \<Longrightarrow> (word_of_nat v :: u64) = ucast (word_of_nat v :: u8)" "v < 65536 \<Longrightarrow> (word_of_nat v :: u64) = ucast (word_of_nat v :: u16)"
  "v < 4294967296 \<Longrightarrow> (word_of_nat v :: u64) = ucast (word_of_nat v :: u32)"
  by (rule word_unat_eq_iff [THEN iffD2], simp add: unsigned_ucast_eq unsigned_of_nat take_bit_nat_eq_self)+

lemma loaded_value:
  assumes "integer_type ty ts" "num_width ty \<noteq> 0" "v < 256 ^ ts"
  shows "magic_number (loaded off ty reln v desc) = signed_number ts v"
proof -
  define m where "m = (blank_entry 0 (Suc 0))\<lparr>m_offset := word_of_nat off, m_type := ty, m_reln := reln\<rparr>"
  have f: "\<not> has (m_flag m) UNSIGNED" "m_type m = ty" by (simp_all add: m_def blank_entry_def sized0_def m0_def has_def)
  have "magic_number (loaded off ty reln v desc) = as_int m (file_signextend m (word_of_nat v))"
    using f by (simp add: magic_number_def loaded_def numeric_magic_def Let_def m_def [symmetric] as_int_def has_def)
  moreover have w: "num_width ty = ts" using integer_width assms by blast
  ultimately show ?thesis
    using assms(3) f as_int_extend [of m] w
    by (cases rule: num_width_cases [OF assms(2)])
      (simp_all add: num_width_def widen as_int_word signed_number_def flip: w)
qed

subsection \<open>Printing\<close>

lemma checkfmt_plain: "0x25 \<notin> set d \<Longrightarrow> file_checkfmt d = None"
  by (induction d) auto

lemma split_var_plain: "0x24 \<notin> set d \<Longrightarrow> split_var d = None"
  by (induction d rule: split_var.induct) auto

text \<open>What the engine relies on in the C library: a format without conversions prints itself.\<close>

definition plain_format :: "env \<Rightarrow> u8 list \<Rightarrow> bool" where
  "plain_format env d \<longleftrightarrow> (\<forall>a. e_format env d a = Some d)"

lemma mprint_plain:
  assumes "num_width (m_type m) \<noteq> 0" "cstr (m_desc m) = d" "0x25 \<notin> set d" "0x24 \<notin> set d" "length d < 512" "plain_format env d"
  shows "mprint env ms m = Some (file_vprintf ms d (Some d))"
proof -
  have "mprint_desc ms m = d" using assms(2,5) split_var_plain [OF assms(4)] by (simp add: mprint_desc_def varexpand.simps)
  then have "PRINTER env ms m (mprint_desc ms m) fmt w x = file_vprintf ms d (Some d)" for fmt w x
    using assms(3,6) by (simp add: PRINTER_def check_fmt_def print_checked_def file_fmtcheck_def Let_def plain_format_def)
  then show ?thesis by (cases rule: num_width_cases [OF assms(1)]) (simp_all add: mprint_def Let_def)
qed

lemma vprintf_fresh:
  assumes "fresh ms" "0x25 \<notin> set d" "length d \<le> 1024"
  shows "file_vprintf ms d (Some d) = (0, append_out ms d)"
  using assms checkfmt_plain [OF assms(2)] by (auto simp: fresh_def file_vprintf_def too_long_def)

subsection \<open>The query\<close>

text \<open>What a numeric line asks of a file: that the number at the offset stands in the relation to the value.  A file that is
  too short has no number there, which only the relation \<^verbatim>\<open>!\<close> accepts.\<close>

definition line_holds :: "u8 \<Rightarrow> nat \<Rightarrow> u8 \<Rightarrow> nat \<Rightarrow> nat \<Rightarrow> u8 list \<Rightarrow> bool" where
  "line_holds ty ts reln v off bs \<longleftrightarrow>
     (if off + ts \<le> length bs then int_relation reln (signed_number ts (number ty (drop off bs))) (signed_number ts v)
      else reln = 0x21)"

definition default_query :: "magic_set \<Rightarrow> bool" where
  "default_query ms \<longleftrightarrow> fresh ms \<and> ms_flags ms = 0 \<and> 0 < ms_indir_max ms \<and> 0 < ms_name_max ms"

definition answers :: "bool \<Rightarrow> u8 list \<Rightarrow> int \<Rightarrow> mstate \<Rightarrow> bool" where
  "answers hit desc r st \<longleftrightarrow> (if hit then r = 1 \<and> ms_buf (st_ms st) = Some desc else r = 0 \<and> ms_buf (st_ms st) = None)"

lemma moffset_numeric:
  assumes "num_width (m_type m) \<noteq> 0"
  shows "\<exists>r w. moffset ms m n 0 = Some (r, w, ms) \<and> (r = 1 \<or> r = -1)"
  by (cases rule: num_width_cases [OF assms]) (simp_all add: moffset_def Let_def)

lemma top_matched_numeric:
  assumes m: "num_width (m_type m) \<noteq> 0" "cstr (m_desc m) = d" "d \<noteq> []" "0x25 \<notin> set d" "0x24 \<notin> set d" "length d < 512" "plain_format env d"
    and ms: "fresh (st_ms st)" "ms_flags (st_ms st) = 0" "st_first st" and o: "c_o ctx = 0"
  shows "\<exists>st'. (top_matched env ctx bb m st = Some (Go 1 bb st') \<or> top_matched env ctx bb m st = Some (Flush bb st')) \<and>
    st_ret st' = 1 \<and> st_found st' \<and> ms_buf (st_ms st') = Some d \<and> ms_flags (st_ms st') = 0"
proof -
  let ?ms = "append_out (st_ms st) d" and ?st = "st\<lparr>st_found := True, st_ret := 1, st_needsep := True, st_printed := True\<rparr>"
  have n: "0 \<notin> set d" using m(2) cstr_no_nul by blast
  have buf: "ms_buf ?ms = Some d" "ms_flags ?ms = 0" using ms n by (simp_all add: append_out_def fresh_def cstr_id)
  have "handle_annotation (st_ms st) m True = (0, st_ms st)" using ms(2) by (simp add: handle_annotation_def has_def)
  moreover have "mprint env (st_ms st) m = Some (0, ?ms)"
    using mprint_plain [OF m(1,2,4,5,6,7)] vprintf_fresh [OF ms(1) m(4)] m(6) by simp
  ultimately have t: "top_matched env ctx bb m st = top_offset env ctx bb m (?st\<lparr>st_ms := ?ms\<rparr>)"
    using ms m(2,3) by (simp add: top_matched_def wants_print_def print_sep_def has_def Let_def)
  obtain r w where f: "moffset ?ms m (length bb) 0 = Some (r, w, ?ms)" "r = 1 \<or> r = -1" using moffset_numeric [OF m(1)] by blast
  have s: "ms_buf (store_off 0 w ?ms) = Some d" "ms_flags (store_off 0 w ?ms) = 0"
    using buf by (simp_all add: store_off_def set_li_def split: option.split)
  show ?thesis
    unfolding t top_offset_def using f o s by (auto simp: file_check_mem_def Let_def)
qed

text \<open>The whole search with one numeric entry as the database.\<close>

lemma match_numeric:
  assumes m: "num_width ty \<noteq> 0" "comparing reln" "plain_desc desc" "0x24 \<notin> set desc" "plain_format env desc" "integer_type ty ts" "v < 256 ^ ts" "off < 2 ^ 31"
    and q: "default_query ms" and b: "length (b_fbuf b) < 2 ^ 31" "ts \<le> 4 \<or> off + ts \<le> length (b_fbuf b)"
    and d: "ms_mlist0 ms = [[loaded off ty reln v desc]]"
  shows "\<exists>r st. file_softmagic (Suc n) env ms b 0 0 BINTEST tx = Some (r, st) \<and> answers (line_holds ty ts reln v off (b_fbuf b)) desc r st"
proof -
  let ?m = "loaded off ty reln v desc" and ?s = "b_fbuf b"
  let ?ctx = "\<lparr>c_b = b, c_o = 0, c_mode = BINTEST, c_text = tx, c_flip = False\<rparr>"
  have w: "num_width ty = ts" using integer_width m(1,6) by blast
  define ms1 where "ms1 = (snd (file_check_mem (e_fresh env) ms 0))\<lparr>ms_offset := word_of_nat off, ms_eoffset := 0, ms_line := unat (m_lineno ?m)\<rparr>"
  define st1 where "st1 = \<lparr>st_ms = ms1, st_ic = 0, st_nc = 0, st_printed = False, st_needsep = False, st_first = True, st_ret = 0, st_found = False\<rparr>"
  have ms1: "fresh (ms1\<lparr>ms_value := x\<rparr>)" "ms_flags ms1 = 0" "unat (ms_offset ms1) = off" for x
    using q m(8) by (simp_all add: ms1_def default_query_def fresh_def had_err_def file_check_mem_def Let_def unat_word_of_nat)
  have num: "numeric ?m" using m(1,2) by (auto simp: numeric_def relations_def comparing_def has_def)
  have get: "can_get st1" using q by (simp add: can_get_def st1_def ms1_def default_query_def file_check_mem_def Let_def)
  have "\<not> IS_STRING ty" using m(1) by (cases rule: num_width_cases [OF m(1)]) (simp_all add: IS_STRING_def)
  then have "\<not> skip_entry ?m ?ctx" by (simp add: skip_entry_def)
  then have top: "top_entry rec env ?ctx [] ?m (st1\<lparr>st_ms := snd (file_check_mem (e_fresh env) ms 0)\<rparr>) =
      (if hit then top_matched env ?ctx ?s ?m (st1\<lparr>st_ms := ms1\<lparr>ms_value := x\<rparr>\<rparr>) else Some (Flush ?s (st1\<lparr>st_ms := ms1\<lparr>ms_value := x\<rparr>\<rparr>)))"
    if "mget rec env ?ctx ?s 0 ?m st1 = Some (r, st1\<lparr>st_ms := ms1\<lparr>ms_value := x\<rparr>\<rparr>)"
      "r = 0 \<and> hit = (reln = 0x21) \<or> r = 1 \<and> magiccheck env (ms1\<lparr>ms_value := x\<rparr>) ?m = Some (if hit then 1 else 0, ms1\<lparr>ms_value := x\<rparr>)"
    for rec r x hit
    using that numeric_not_special [OF m(1)]
    by (auto simp: top_entry_def msetoffset_def has_def st1_def ms1_def indirect_found_def)
  let ?rec = "match_fuel n env" and ?hit = "line_holds ty ts reln v off ?s"
  obtain x where x: "top_entry ?rec env ?ctx [] ?m (st1\<lparr>st_ms := snd (file_check_mem (e_fresh env) ms 0)\<rparr>) =
      (if ?hit then top_matched env ?ctx ?s ?m (st1\<lparr>st_ms := ms1\<lparr>ms_value := x\<rparr>\<rparr>) else Some (Flush ?s (st1\<lparr>st_ms := ms1\<lparr>ms_value := x\<rparr>\<rparr>)))"
  proof (cases "off + ts \<le> length ?s")
    case True
    obtain x where "mget ?rec env ?ctx ?s 0 ?m st1 = Some (1, st1\<lparr>st_ms := ms1\<lparr>ms_value := x\<rparr>\<rparr>)"
        "magiccheck env (ms1\<lparr>ms_value := x\<rparr>) ?m = Some (if ?hit then 1 else 0, ms1\<lparr>ms_value := x\<rparr>)"
      using mget_numeric [OF num get, of ?ctx ?s ?rec env 0] True b ms1(3) w loaded_read loaded_value [OF m(6,1,7)]
      by (auto simp: Let_def st1_def line_holds_def)
    then show thesis using top that by blast
  next
    case False
    obtain x where "mget ?rec env ?ctx ?s 0 ?m st1 = Some (0, st1\<lparr>st_ms := ms1\<lparr>ms_value := x\<rparr>\<rparr>)"
      using mget_numeric_short [OF num _ get, of ?s ?rec env ?ctx 0] False b ms1(3) w by (auto simp: st1_def)
    then show thesis using top [of ?rec 0 x ?hit] that False by (auto simp: line_holds_def)
  qed
  have desc: "cstr (m_desc ?m) = desc" "desc \<noteq> []" "0x25 \<notin> set desc" "length desc < 512"
    using m(3) by (auto simp: plain_desc_def cstr_def takeWhile_append)
  have "\<exists>st'. match_loop ?rec env ?ctx [?m] [] (st1\<lparr>st_ms := snd (file_check_mem (e_fresh env) ms 0)\<rparr>) = Some (if ?hit then 1 else 0, st') \<and>
      ms_buf (st_ms st') = (if ?hit then Some desc else None) \<and> ms_flags (st_ms st') = 0"
  proof (cases ?hit)
    case True
    obtain st' where "top_matched env ?ctx ?s ?m (st1\<lparr>st_ms := ms1\<lparr>ms_value := x\<rparr>\<rparr>) = Some (Go 1 ?s st') \<or>
        top_matched env ?ctx ?s ?m (st1\<lparr>st_ms := ms1\<lparr>ms_value := x\<rparr>\<rparr>) = Some (Flush ?s st')"
        "st_ret st' = 1" "st_found st'" "ms_buf (st_ms st') = Some desc" "ms_flags (st_ms st') = 0"
      using top_matched_numeric [where m = ?m and d = desc and env = env and ctx = ?ctx and bb = ?s and st = "st1\<lparr>st_ms := ms1\<lparr>ms_value := x\<rparr>\<rparr>"]
        m(1,4,5) desc ms1(1,2) by (auto simp: st1_def)
    then show ?thesis using x True by (auto simp: match_loop.simps cont_loop.simps has_def Let_def)
  next
    case False
    then show ?thesis using x ms1 by (auto simp: match_loop.simps st1_def fresh_def)
  qed
  then show ?thesis
    unfolding file_softmagic_def d by (cases ?hit) (auto simp: answers_def st1_def has_def)
qed

subsection \<open>Properties\<close>

text \<open>C1.  From the text of a magic file to the answer.  A magic file that consists of a numeric line is loaded into a database,
  and the search of any file (smaller than 2 GiB) with that database ends; it prints the description and
  answers 1 exactly when the number that the file holds at the offset of the line, in the width, byte order and two's complement
  reading of its type, stands in the relation of the line to the value of the line; otherwise it prints nothing and
  answers 0.  A file that is too short for the number fits only the relation \<^verbatim>\<open>!\<close>; for the eight-byte types, whose bounds
  \<^verbatim>\<open>mget\<close> does not check, it has to be long enough.\<close>

theorem magic_line_answers:
  assumes "(name, ty, f) \<in> set type_tbl" "integer_type ty ts" "num_width ty \<noteq> 0" "v < 256 ^ ts" "off < 2 ^ 31" "comparing reln"
    and "plain_desc desc" "text_line desc" "0x24 \<notin> set desc" "plain_format env desc"
    and "ms_magwarn lms < ms_magwarn_max lms" "default_query ms"
    and "length (b_fbuf b) < 2 ^ 31" "ts \<le> 4 \<or> off + ts \<le> length (b_fbuf b)"
  shows "\<exists>l0 l1 lms' r st.
    apprentice_load env fp strerror qsort cmpl lastl [(fn, Inl (numeric_line 0 off name reln v desc @ [0x0a]))] lms = Inr (Some (l0, l1), lms') \<and>
    file_softmagic (Suc n) env (ms\<lparr>ms_mlist0 := [l0], ms_mlist1 := [l1]\<rparr>) b 0 0 BINTEST tx = Some (r, st) \<and>
    answers (line_holds ty ts reln v off (b_fbuf b)) desc r st"
proof -
  obtain lms' where l: "apprentice_load env fp strerror qsort cmpl lastl [(fn, Inl (numeric_line 0 off name reln v desc @ [0x0a]))] lms =
      Inr (Some ([loaded off ty reln v desc], []), lms')"
    using load_numeric_line [OF assms(1,2,4,5,6,7,8,3,11)] by blast
  have "default_query (ms\<lparr>ms_mlist0 := [[loaded off ty reln v desc]], ms_mlist1 := [[]]\<rparr>)"
    using assms(12) by (simp add: default_query_def fresh_def had_err_def)
  from match_numeric [OF assms(3,6,7,9,10,2,4,5) this assms(13,14), where n = n and tx = tx] l show ?thesis by fastforce
qed

text \<open>The line \<^verbatim>\<open>0 belong =0x7f454c46 ELF\<close>, in decimal, on a file that starts with the ELF magic number.\<close>

theorem magic_line_answers_witness:
  "\<exists>l0 l1 lms' st.
    apprentice_load env0 fp0 (\<lambda>_. []) isort True 0
      [([], Inl (numeric_line 0 0 (bytes_of ''belong'') 0x3d 0x7f454c46 (bytes_of ''ELF'') @ [0x0a]))] ms0 = Inr (Some (l0, l1), lms') \<and>
    file_softmagic 1 env0 (ms0\<lparr>ms_mlist0 := [l0], ms_mlist1 := [l1]\<rparr>) elf_file 0 0 BINTEST False = Some (1, st) \<and>
    ms_buf (st_ms st) = Some (bytes_of ''ELF'')"
proof -
  have t: "(bytes_of ''belong'', FILE_BELONG, FILE_FMT_NUM) \<in> set type_tbl" by (simp add: type_tbl_def)
  have i: "integer_type FILE_BELONG 4" "num_width FILE_BELONG \<noteq> 0" by (simp_all add: integer_type_def typesize_def num_width_def)
  have d: "plain_desc (bytes_of ''ELF'')" "text_line (bytes_of ''ELF'')" "0x24 \<notin> set (bytes_of ''ELF'')" "plain_format env0 (bytes_of ''ELF'')"
    by (simp_all add: plain_desc_def bytes_of_def isspace_def text_line_def plain_format_def env0_def)
  have q: "ms_magwarn ms0 < ms_magwarn_max ms0" "default_query ms0" by (simp_all add: ms0_def default_query_def fresh_def had_err_def has_def)
  have b: "b_fbuf elf_file = [0x7f, 0x45, 0x4c, 0x46, 2]" by (simp add: elf_file_def)
  have "line_holds FILE_BELONG 4 0x3d 0x7f454c46 0 (b_fbuf elf_file)"
    by (simp add: b line_holds_def int_relation_def number_def num_width_def)
  then show ?thesis
    using magic_line_answers [OF t i(1,2) _ _ _ d q, of "0x7f454c46" 0 "0x3d" elf_file fp0 "\<lambda>_. []" isort True 0 "[]" 0 False] b
    by (simp add: comparing_def answers_def)
qed

subsection \<open>Every loaded database\<close>

text \<open>The entries that the engine is safe on, of those that the parser accepts: no value fills the whole array, and none of the
  combinations that \<open>wf_magic\<close> leaves out is used.\<close>

definition restrained :: "magic \<Rightarrow> bool" where
  "restrained m \<longleftrightarrow>
     (let t = m_type m; str = (t = FILE_STRING \<or> t = FILE_PSTRING \<or> t = FILE_OCTAL \<or> t = FILE_SEARCH) in
      unat (m_vallen m) \<noteq> MAXstring \<and>
      \<not> (str \<and> has (str_flags m) STRING_FULL_WORD \<and> (t = FILE_SEARCH \<or> ws_flags (str_flags m))) \<and>
      \<not> (t = FILE_SEARCH \<and> m_reln m \<noteq> 0x3d \<and> cstr (m_desc m) \<noteq> []) \<and>
      \<not> (t = FILE_REGEX \<and> m_reln m = 0x21 \<and> has (m_flag m) INDIR \<and> cstr (m_desc m) \<noteq> []) \<and>
      \<not> (t = FILE_DER \<and> m_reln m = 0x21) \<and>
      \<not> (has (m_flag m) INDIR \<and> (m_in_type m = FILE_OCTAL \<or>
           has (m_in_op m) FILE_OPINDIRECT \<and> m_in_op m AND FILE_OPS_MASK = FILE_OPMULTIPLY)))"

lemma good_wf: "good m \<Longrightarrow> restrained m \<Longrightarrow> wf_magic m"
  by (auto simp: good_def sized_def restrained_def wf_magic_def Let_def)

lemma groups_wf:
  assumes "list_all (entry_ok named) g" "list_all restrained (concat g)"
  shows "wf_list (concat g)" "list_all (\<lambda>m. wf_magic m \<and> top_name m) (concat g)"
proof -
  have good: "list_all good (concat g)" using assms(1) by (auto simp: list_all_iff entry_ok_def)
  then show "list_all (\<lambda>m. wf_magic m \<and> top_name m) (concat g)"
    using assms(2) good_wf by (auto simp: list_all_iff good_def)
  moreover have "concat g = [] \<or> m_cont_level (hd (concat g)) = 0"
    using assms(1) by (cases g) (auto simp: entry_ok_def hd_append)
  ultimately show "wf_list (concat g)" by (auto simp: wf_list_def list_all_iff)
qed



end
