(* ===== verification/Cdf.thy ===== *)
theory Cdf
  imports Magic_Types Bytes
begin

text \<open>
  Compound documents (\<^verbatim>\<open>src/cdf.c\<close>, \<^verbatim>\<open>src/cdf.h\<close>): the header, the sector allocation tables, chains of sectors,
  the directory and the streams.  Tables and streams are the bytes that the source allocates, so that every access by
  an index from the file shows whether it stays inside; allocation succeeds.  The answers are \<open>Read\<close>, \<open>Failed\<close> for -1,
  with what \<^verbatim>\<open>errno\<close> is set to if it is set, and \<open>Undef\<close> for undefined behaviour: an access outside an array, or an
  assertion that fails.  The debugging output is not modelled.
\<close>

subsection \<open>Answers\<close>

datatype cdf_errno = ESRCH | EFTYPE

datatype 'a answer = Undef | Failed "cdf_errno option" | Read 'a

abbreviation (input) bad :: "'a answer" where "bad \<equiv> Failed (Some EFTYPE)"

fun bind_answer :: "'a answer \<Rightarrow> ('a \<Rightarrow> 'b answer) \<Rightarrow> 'b answer" where
  "bind_answer Undef f = Undef"
| "bind_answer (Failed e) f = Failed e"
| "bind_answer (Read x) f = f x"

text \<open>A call whose failure the caller turns into its own.\<close>

fun or_fail :: "cdf_errno option \<Rightarrow> 'a answer \<Rightarrow> 'a answer" where
  "or_fail e (Failed _) = Failed e"
| "or_fail e r = r"

subsection \<open>Limits and numbers\<close>

abbreviation (input) CDF_LOOP_LIMIT :: nat where "CDF_LOOP_LIMIT \<equiv> 10000"
abbreviation (input) CDF_MEMORY_LIMIT :: nat where "CDF_MEMORY_LIMIT \<equiv> 16 * 1024 * 1024"
abbreviation (input) CDF_SAT_LIMIT :: nat where "CDF_SAT_LIMIT \<equiv> 16 * 1024 * 1024"
abbreviation (input) CDF_SECID_FREE :: u32 where "CDF_SECID_FREE \<equiv> - 1"
abbreviation (input) CDF_SECID_END_OF_CHAIN :: u32 where "CDF_SECID_END_OF_CHAIN \<equiv> - 2"
abbreviation (input) CDF_MAGIC :: u64 where "CDF_MAGIC \<equiv> 0xE11AB1A1E011CFD0"
abbreviation (input) CDF_DIRECTORY_SIZE :: nat where "CDF_DIRECTORY_SIZE \<equiv> 128"
abbreviation (input) CDF_DIR_TYPE_USER_STORAGE :: u8 where "CDF_DIR_TYPE_USER_STORAGE \<equiv> 1"
abbreviation (input) CDF_DIR_TYPE_USER_STREAM :: u8 where "CDF_DIR_TYPE_USER_STREAM \<equiv> 2"
abbreviation (input) CDF_DIR_TYPE_ROOT_STORAGE :: u8 where "CDF_DIR_TYPE_ROOT_STORAGE \<equiv> 5"

text \<open>The swapping of a value in memory, and the macros that do it on big-endian hosts only.\<close>

definition cdf_bswap :: "nat \<Rightarrow> 'a::len word \<Rightarrow> 'a word" where
  "cdf_bswap k sv = host_word False (rev (host_bytes False k sv))"

definition CDF_TOLE2 :: "bool \<Rightarrow> u16 \<Rightarrow> u16" where "CDF_TOLE2 big x = (if big then cdf_bswap 2 x else x)"
definition CDF_TOLE4 :: "bool \<Rightarrow> u32 \<Rightarrow> u32" where "CDF_TOLE4 big x = (if big then cdf_bswap 4 x else x)"
definition CDF_TOLE8 :: "bool \<Rightarrow> u64 \<Rightarrow> u64" where "CDF_TOLE8 big x = (if big then cdf_bswap 8 x else x)"

text \<open>\<^verbatim>\<open>CDF_UNPACK\<close>: the bytes of a field, copied into a variable of the host.\<close>

definition bytes_field :: "u8 list \<Rightarrow> nat \<Rightarrow> nat \<Rightarrow> u8 list" where
  "bytes_field buf off k = take k (drop off buf)"

definition word_field :: "bool \<Rightarrow> u8 list \<Rightarrow> nat \<Rightarrow> nat \<Rightarrow> 'a::len word" where
  "word_field big buf off k = host_word big (bytes_field buf off k)"

subsection \<open>Reading the file\<close>

text \<open>\<open>i_file\<close> is what \<^verbatim>\<open>pread\<close> can read through the descriptor, if it can.\<close>

record cdf_info =
  i_fd :: int
  i_buf :: "u8 list"
  i_file :: "u8 list option"

text \<open>The offset is computed in \<^verbatim>\<open>size_t\<close> from numbers below 2 to the 52nd, so that the first test succeeds.  A short
  \<^verbatim>\<open>pread\<close> is a failure.\<close>

definition cdf_read :: "cdf_info \<Rightarrow> nat \<Rightarrow> nat \<Rightarrow> u8 list option" where
  "cdf_read info off len =
     (if off + len \<le> length (i_buf info) then Some (bytes_field (i_buf info) off len)
      else if i_fd info = -1 then None
      else case i_file info of
          None \<Rightarrow> None
        | Some f \<Rightarrow> if off + len \<le> length f then Some (bytes_field f off len) else None)"

subsection \<open>The header\<close>

record cdf_header =
  h_magic :: u64
  h_uuid :: "u64 \<times> u64"
  h_revision :: u16
  h_version :: u16
  h_byte_order :: u16
  h_sec_size_p2 :: u16
  h_short_sec_size_p2 :: u16
  h_num_sectors_in_sat :: u32
  h_secid_first_directory :: u32
  h_min_size_standard_stream :: u32
  h_secid_first_sector_in_short_sat :: u32
  h_num_sectors_in_short_sat :: u32
  h_secid_first_sector_in_master_sat :: u32
  h_num_sectors_in_master_sat :: u32
  h_master_sat :: "u32 list"

definition cdf_unpack_header :: "bool \<Rightarrow> u8 list \<Rightarrow> cdf_header" where
  "cdf_unpack_header big buf =
     \<lparr>h_magic = word_field big buf 0 8, h_uuid = (word_field big buf 8 8, word_field big buf 16 8),
      h_revision = word_field big buf 24 2, h_version = word_field big buf 26 2, h_byte_order = word_field big buf 28 2,
      h_sec_size_p2 = word_field big buf 30 2, h_short_sec_size_p2 = word_field big buf 32 2,
      h_num_sectors_in_sat = word_field big buf 44 4, h_secid_first_directory = word_field big buf 48 4,
      h_min_size_standard_stream = word_field big buf 56 4, h_secid_first_sector_in_short_sat = word_field big buf 60 4,
      h_num_sectors_in_short_sat = word_field big buf 64 4, h_secid_first_sector_in_master_sat = word_field big buf 68 4,
      h_num_sectors_in_master_sat = word_field big buf 72 4,
      h_master_sat = map (\<lambda>i. word_field big buf (76 + 4 * i) 4) [0..<109]\<rparr>"

definition cdf_swap_header :: "bool \<Rightarrow> cdf_header \<Rightarrow> cdf_header" where
  "cdf_swap_header big h =
     \<lparr>h_magic = CDF_TOLE8 big (h_magic h), h_uuid = (CDF_TOLE8 big (fst (h_uuid h)), CDF_TOLE8 big (snd (h_uuid h))),
      h_revision = CDF_TOLE2 big (h_revision h), h_version = CDF_TOLE2 big (h_version h),
      h_byte_order = CDF_TOLE2 big (h_byte_order h), h_sec_size_p2 = CDF_TOLE2 big (h_sec_size_p2 h),
      h_short_sec_size_p2 = CDF_TOLE2 big (h_short_sec_size_p2 h),
      h_num_sectors_in_sat = CDF_TOLE4 big (h_num_sectors_in_sat h),
      h_secid_first_directory = CDF_TOLE4 big (h_secid_first_directory h),
      h_min_size_standard_stream = CDF_TOLE4 big (h_min_size_standard_stream h),
      h_secid_first_sector_in_short_sat = CDF_TOLE4 big (h_secid_first_sector_in_short_sat h),
      h_num_sectors_in_short_sat = CDF_TOLE4 big (h_num_sectors_in_short_sat h),
      h_secid_first_sector_in_master_sat = CDF_TOLE4 big (h_secid_first_sector_in_master_sat h),
      h_num_sectors_in_master_sat = CDF_TOLE4 big (h_num_sectors_in_master_sat h),
      h_master_sat = map (CDF_TOLE4 big) (h_master_sat h)\<rparr>"

definition cdf_read_header :: "bool \<Rightarrow> cdf_info \<Rightarrow> cdf_header answer" where
  "cdf_read_header big info =
     (case cdf_read info 0 512 of
        None \<Rightarrow> Failed None
      | Some buf \<Rightarrow>
          (let h = cdf_swap_header big (cdf_unpack_header big buf) in
           if h_magic h \<noteq> CDF_MAGIC \<or> h_sec_size_p2 h > 20 \<or> h_short_sec_size_p2 h > 20 then bad else Read h))"

subsection \<open>Sectors\<close>

definition CDF_SEC_SIZE :: "cdf_header \<Rightarrow> nat" where "CDF_SEC_SIZE h = 2 ^ unat (h_sec_size_p2 h)"
definition CDF_SHORT_SEC_SIZE :: "cdf_header \<Rightarrow> nat" where "CDF_SHORT_SEC_SIZE h = 2 ^ unat (h_short_sec_size_p2 h)"

text \<open>A sector number as \<^verbatim>\<open>size_t\<close>.\<close>

definition sec_index :: "u32 \<Rightarrow> nat" where "sec_index sid = unat (scast sid :: u64)"

text \<open>The sector itself; the callers copy it.  The position wraps in \<^verbatim>\<open>size_t\<close>.\<close>

definition cdf_read_sector :: "cdf_info \<Rightarrow> cdf_header \<Rightarrow> u32 \<Rightarrow> u8 list option" where
  "cdf_read_sector info h sid =
     (let ss = CDF_SEC_SIZE h in
      if (2 ^ 64 - 1) div ss < sec_index sid then None
      else cdf_read info ((ss + sec_index sid * ss) mod 2 ^ 64) ss)"

record cdf_stream =
  sst_tab :: "u8 list option"
  sst_len :: nat
  sst_dirlen :: nat
  sst_ss :: nat

definition cdf_zero_stream :: cdf_stream where
  "cdf_zero_stream = \<lparr>sst_tab = None, sst_len = 0, sst_dirlen = 0, sst_ss = 0\<rparr>"

definition cdf_read_short_sector :: "cdf_stream \<Rightarrow> cdf_header \<Rightarrow> u32 \<Rightarrow> u8 list answer" where
  "cdf_read_short_sector sst h sid =
     (let ss = CDF_SHORT_SEC_SIZE h; pos = (sec_index sid * ss) mod 2 ^ 64 in
      if (2 ^ 64 - 1) div ss < sec_index sid then Failed None
      else if pos + ss > CDF_SEC_SIZE h * sst_len sst then bad
      else case sst_tab sst of
          None \<Rightarrow> Undef
        | Some t \<Rightarrow> if pos + ss \<le> length t then Read (bytes_field t pos ss) else Undef)"

text \<open>\<^verbatim>\<open>memcpy\<close> into an array at an offset.\<close>

definition write_at :: "u8 list \<Rightarrow> nat \<Rightarrow> u8 list \<Rightarrow> u8 list answer" where
  "write_at t off bs = (if off + length bs \<le> length t then Read (take off t @ bs @ drop (off + length bs) t) else Undef)"

subsection \<open>The sector allocation table\<close>

record cdf_sat =
  sat_tab :: "u8 list"
  sat_len :: nat

text \<open>\<^verbatim>\<open>CDF_TOLE4(tab[sid])\<close>.\<close>

definition sat_at :: "bool \<Rightarrow> u8 list \<Rightarrow> u32 \<Rightarrow> u32 answer" where
  "sat_at big tab sid =
     (if 0 \<le> sint sid \<and> 4 * unat sid + 4 \<le> length tab then Read (CDF_TOLE4 big (word_field big tab (4 * unat sid) 4)) else Undef)"

text \<open>\<^verbatim>\<open>(ss / sizeof(mid)) - 1\<close> in \<^verbatim>\<open>size_t\<close>.\<close>

definition nsatpersec :: "nat \<Rightarrow> nat" where
  "nsatpersec ss = (if ss div 4 = 0 then 2 ^ 64 - 1 else ss div 4 - 1)"

text \<open>The loop over the table in the header.\<close>

fun header_sat :: "cdf_info \<Rightarrow> cdf_header \<Rightarrow> u32 list \<Rightarrow> nat \<Rightarrow> u8 list \<Rightarrow> (nat \<times> u8 list) answer" where
  "header_sat info h [] i tab = Read (i, tab)"
| "header_sat info h (s # ss) i tab =
     (if sint s < 0 then Read (i, tab)
      else case cdf_read_sector info h s of
          None \<Rightarrow> Failed None
        | Some bs \<Rightarrow> bind_answer (write_at tab (CDF_SEC_SIZE h * i) bs) (header_sat info h ss (Suc i)))"

text \<open>The sectors that one sector of the master table names; the flag says that the list has ended.\<close>

function master_sector ::
  "bool \<Rightarrow> cdf_info \<Rightarrow> cdf_header \<Rightarrow> nat \<Rightarrow> u8 list \<Rightarrow> nat \<Rightarrow> nat \<Rightarrow> u8 list \<Rightarrow> (bool \<times> nat \<times> u8 list) answer" where
  "master_sector big info h len msa k i tab =
     (if nsatpersec (CDF_SEC_SIZE h) \<le> k then Read (False, i, tab)
      else bind_answer (sat_at big msa (word_of_nat k)) (\<lambda>sec.
        if sint sec < 0 then Read (True, i, tab)
        else if len \<le> i then bad
        else case cdf_read_sector info h sec of
            None \<Rightarrow> Failed None
          | Some bs \<Rightarrow>
              bind_answer (write_at tab (CDF_SEC_SIZE h * i) bs) (master_sector big info h len msa (Suc k) (Suc i))))"
  by pat_completeness auto
termination
  by (relation "measure (\<lambda>(big, info, h, len, msa, k, i, tab). nsatpersec (CDF_SEC_SIZE h) - k)") auto

declare master_sector.simps [simp del]

text \<open>The loop over the master table.\<close>

function master_sat ::
  "bool \<Rightarrow> cdf_info \<Rightarrow> cdf_header \<Rightarrow> nat \<Rightarrow> nat \<Rightarrow> u32 \<Rightarrow> nat \<Rightarrow> u8 list \<Rightarrow> (nat \<times> u8 list) answer" where
  "master_sat big info h len j mid i tab =
     (if unat (h_num_sectors_in_master_sat h) \<le> j \<or> sint mid < 0 then Read (i, tab)
      else if CDF_LOOP_LIMIT \<le> j then bad
      else case cdf_read_sector info h mid of
          None \<Rightarrow> Failed None
        | Some msa \<Rightarrow>
            bind_answer (master_sector big info h len msa 0 i tab) (\<lambda>(ended, i, tab).
              if ended then Read (i, tab)
              else bind_answer (sat_at big msa (word_of_nat (nsatpersec (CDF_SEC_SIZE h)))) (\<lambda>mid.
                master_sat big info h len (Suc j) mid i tab)))"
  by pat_completeness auto
termination
  by (relation "measure (\<lambda>(big, info, h, len, j, mid, i, tab). unat (h_num_sectors_in_master_sat h) - j)") auto

declare master_sat.simps [simp del]

definition cdf_read_sat :: "bool \<Rightarrow> cdf_info \<Rightarrow> cdf_header \<Rightarrow> cdf_sat answer" where
  "cdf_read_sat big info h =
     (let ss = CDF_SEC_SIZE h; n = nsatpersec ss; num = unat (h_num_sectors_in_master_sat h);
          i = length (takeWhile (\<lambda>s. s \<noteq> CDF_SECID_FREE) (h_master_sat h)); limit = (2 ^ 32 - 1) div (64 * ss);
          len = (num * n + i) mod 2 ^ 64 in
      if n > 0 \<and> num > limit div n \<or> i > limit then bad
      else if len > CDF_SAT_LIMIT div ss then bad
      else bind_answer (header_sat info h (h_master_sat h) 0 (replicate (max 1 len * ss) 0)) (\<lambda>(i, tab).
        bind_answer (master_sat big info h len 0 (h_secid_first_sector_in_master_sat h) i tab) (\<lambda>(i, tab).
          Read \<lparr>sat_tab = tab, sat_len = i\<rparr>)))"

subsection \<open>Chains\<close>

text \<open>\<^verbatim>\<open>cdf_count_chain\<close>, whose answer \<^verbatim>\<open>(size_t)-1\<close> is a failure.\<close>

function count_loop :: "bool \<Rightarrow> u8 list \<Rightarrow> nat \<Rightarrow> int \<Rightarrow> nat \<Rightarrow> u32 \<Rightarrow> nat answer" where
  "count_loop big tab sz maxsector i sid =
     (if sint sid < 0 then Read i
      else if CDF_LOOP_LIMIT \<le> i \<or> CDF_MEMORY_LIMIT div sz \<le> i \<or> maxsector \<le> sint sid then bad
      else bind_answer (sat_at big tab sid) (count_loop big tab sz maxsector (Suc i)))"
  by pat_completeness auto
termination
  by (relation "measure (\<lambda>(big, tab, sz, maxsector, i, sid). CDF_LOOP_LIMIT - i)") auto

declare count_loop.simps [simp del]

definition cdf_count_chain :: "bool \<Rightarrow> cdf_sat \<Rightarrow> u32 \<Rightarrow> nat \<Rightarrow> nat answer" where
  "cdf_count_chain big sat sid sz =
     (if sz = 0 \<or> sat_len sat > (2 ^ 64 - 1) div sz then bad
      else
        (let maxsector = sint (word_of_nat ((sat_len sat * sz) div 4) :: u32) in
         if sid = CDF_SECID_END_OF_CHAIN then Read 0
         else bind_answer (count_loop big (sat_tab sat) sz maxsector 0 sid) (\<lambda>i. if i = 0 then bad else Read i)))"

text \<open>The loop that reads the sectors of a chain into an array of \<open>len\<close> sectors of \<open>ss\<close> bytes.  It occurs three times, with the
  sectors of the file and with short ones.\<close>

function chain_loop :: "bool \<Rightarrow> u8 list \<Rightarrow> (u32 \<Rightarrow> u8 list answer) \<Rightarrow> nat \<Rightarrow> nat \<Rightarrow> nat \<Rightarrow> u32 \<Rightarrow> u8 list \<Rightarrow> u8 list answer" where
  "chain_loop big tab rd ss len i sid buf =
     (if sint sid < 0 then Read buf
      else if CDF_LOOP_LIMIT \<le> i \<or> len \<le> i then bad
      else bind_answer (rd sid) (\<lambda>bs.
        bind_answer (write_at buf (i * ss) bs) (\<lambda>buf.
          bind_answer (sat_at big tab sid) (\<lambda>sid. chain_loop big tab rd ss len (Suc i) sid buf))))"
  by pat_completeness auto
termination
  by (relation "measure (\<lambda>(big, tab, rd, ss, len, i, sid, buf). CDF_LOOP_LIMIT - i)") auto

declare chain_loop.simps [simp del]

definition of_option :: "cdf_errno option \<Rightarrow> 'a option \<Rightarrow> 'a answer" where
  "of_option e r = (case r of None \<Rightarrow> Failed e | Some x \<Rightarrow> Read x)"

text \<open>A failure leaves the zero stream.  The branch for a truncated last sector asks for a positive answer of \<^verbatim>\<open>cdf_read_sector\<close>
  that is not the size of a sector; there is none.\<close>

definition cdf_read_long_sector_chain :: "bool \<Rightarrow> cdf_info \<Rightarrow> cdf_header \<Rightarrow> cdf_sat \<Rightarrow> u32 \<Rightarrow> nat \<Rightarrow> cdf_stream answer" where
  "cdf_read_long_sector_chain big info h sat sid len =
     (let ss = CDF_SEC_SIZE h; n = cdf_count_chain big sat sid ss in
      if n = Undef then Undef
      else if sid = CDF_SECID_END_OF_CHAIN \<or> len = 0 then Failed (case n of Failed e \<Rightarrow> e | _ \<Rightarrow> None)
      else bind_answer n (\<lambda>n.
        bind_answer
          (chain_loop big (sat_tab sat) (\<lambda>sid. of_option (Some EFTYPE) (cdf_read_sector info h sid)) ss n 0 sid (replicate (max 1 n * ss) 0))
          (\<lambda>tab. Read \<lparr>sst_tab = Some tab, sst_len = n, sst_dirlen = max (unat (h_min_size_standard_stream h)) len, sst_ss = ss\<rparr>)))"

definition cdf_read_short_sector_chain :: "bool \<Rightarrow> cdf_header \<Rightarrow> cdf_sat \<Rightarrow> cdf_stream \<Rightarrow> u32 \<Rightarrow> nat \<Rightarrow> cdf_stream answer" where
  "cdf_read_short_sector_chain big h ssat sst sid len =
     (let ss = CDF_SHORT_SEC_SIZE h in
      bind_answer (cdf_count_chain big ssat sid (CDF_SEC_SIZE h)) (\<lambda>n.
        bind_answer
          (chain_loop big (sat_tab ssat) (\<lambda>sid. or_fail (Some EFTYPE) (cdf_read_short_sector sst h sid)) ss n 0 sid (replicate (max 1 n * ss) 0))
          (\<lambda>tab. Read \<lparr>sst_tab = Some tab, sst_len = n, sst_dirlen = len, sst_ss = ss\<rparr>)))"

definition cdf_read_sector_chain ::
  "bool \<Rightarrow> cdf_info \<Rightarrow> cdf_header \<Rightarrow> cdf_sat \<Rightarrow> cdf_sat \<Rightarrow> cdf_stream \<Rightarrow> u32 \<Rightarrow> nat \<Rightarrow> cdf_stream answer" where
  "cdf_read_sector_chain big info h sat ssat sst sid len =
     (if len < unat (h_min_size_standard_stream h) \<and> sst_tab sst \<noteq> None then cdf_read_short_sector_chain big h ssat sst sid len
      else cdf_read_long_sector_chain big info h sat sid len)"

subsection \<open>The directory\<close>

record cdf_directory =
  d_name :: "u16 list"
  d_namelen :: u16
  d_type :: u8
  d_color :: u8
  d_left_child :: u32
  d_right_child :: u32
  d_storage :: u32
  d_storage_uuid :: "u64 \<times> u64"
  d_flags :: u32
  d_created :: u64
  d_modified :: u64
  d_stream_first_sector :: u32
  d_size :: u32
  d_unused0 :: u32

definition cdf_unpack_dir :: "bool \<Rightarrow> u8 list \<Rightarrow> cdf_directory" where
  "cdf_unpack_dir big buf =
     \<lparr>d_name = map (\<lambda>k. word_field big buf (2 * k) 2) [0..<32], d_namelen = word_field big buf 64 2,
      d_type = word_field big buf 66 1, d_color = word_field big buf 67 1, d_left_child = word_field big buf 68 4,
      d_right_child = word_field big buf 72 4, d_storage = word_field big buf 76 4,
      d_storage_uuid = (word_field big buf 80 8, word_field big buf 88 8), d_flags = word_field big buf 96 4,
      d_created = word_field big buf 100 8, d_modified = word_field big buf 108 8,
      d_stream_first_sector = word_field big buf 116 4, d_size = word_field big buf 120 4, d_unused0 = word_field big buf 124 4\<rparr>"

text \<open>The name is left in the byte order of the file; \<^verbatim>\<open>cdf_namecmp\<close> converts it.\<close>

definition cdf_swap_dir :: "bool \<Rightarrow> cdf_directory \<Rightarrow> cdf_directory" where
  "cdf_swap_dir big d =
     d\<lparr>d_namelen := CDF_TOLE2 big (d_namelen d), d_left_child := CDF_TOLE4 big (d_left_child d),
       d_right_child := CDF_TOLE4 big (d_right_child d), d_storage := CDF_TOLE4 big (d_storage d),
       d_storage_uuid := (CDF_TOLE8 big (fst (d_storage_uuid d)), CDF_TOLE8 big (snd (d_storage_uuid d))),
       d_flags := CDF_TOLE4 big (d_flags d), d_created := CDF_TOLE8 big (d_created d),
       d_modified := CDF_TOLE8 big (d_modified d), d_stream_first_sector := CDF_TOLE4 big (d_stream_first_sector d),
       d_size := CDF_TOLE4 big (d_size d)\<rparr>"

text \<open>The loop over the sectors of the directory.  Its counter \<^verbatim>\<open>j\<close> is the one of the inner loop too, which leaves it at \<open>nd\<close>.\<close>

function dir_loop :: "bool \<Rightarrow> cdf_info \<Rightarrow> cdf_header \<Rightarrow> u8 list \<Rightarrow> nat \<Rightarrow> nat \<Rightarrow> nat \<Rightarrow> u32 \<Rightarrow> cdf_directory list \<Rightarrow> cdf_directory list answer" where
  "dir_loop big info h tab ns j i sid ds =
     (if ns \<le> i then Read ds
      else if CDF_LOOP_LIMIT \<le> j then bad
      else case cdf_read_sector info h sid of
          None \<Rightarrow> bad
        | Some buf \<Rightarrow>
            (let nd = CDF_SEC_SIZE h div CDF_DIRECTORY_SIZE;
                 ds = ds @ map (\<lambda>k. cdf_unpack_dir big (bytes_field buf (k * CDF_DIRECTORY_SIZE) CDF_DIRECTORY_SIZE)) [0..<nd] in
             bind_answer (sat_at big tab sid) (\<lambda>sid. dir_loop big info h tab ns (Suc nd) (Suc i) sid ds)))"
  by pat_completeness auto
termination
  by (relation "measure (\<lambda>(big, info, h, tab, ns, j, i, sid, ds). ns - i)") auto

declare dir_loop.simps [simp del]

text \<open>A \<^verbatim>\<open>cdf_directory_t\<close> has 136 bytes in memory, eight more than its record in the file.\<close>

definition cdf_read_dir :: "bool \<Rightarrow> cdf_info \<Rightarrow> cdf_header \<Rightarrow> cdf_sat \<Rightarrow> cdf_directory list answer" where
  "cdf_read_dir big info h sat =
     (let ss = CDF_SEC_SIZE h; nd = ss div CDF_DIRECTORY_SIZE; sid = h_secid_first_directory h in
      bind_answer (cdf_count_chain big sat sid ss) (\<lambda>ns.
        if nd \<noteq> 0 \<and> ns > CDF_MEMORY_LIMIT div nd div 136 then bad
        else bind_answer (dir_loop big info h (sat_tab sat) ns 0 0 sid []) (\<lambda>ds. Read (map (cdf_swap_dir big) ds))))"

definition cdf_read_ssat :: "bool \<Rightarrow> cdf_info \<Rightarrow> cdf_header \<Rightarrow> cdf_sat \<Rightarrow> cdf_sat answer" where
  "cdf_read_ssat big info h sat =
     (let ss = CDF_SEC_SIZE h; sid = h_secid_first_sector_in_short_sat h in
      bind_answer (cdf_count_chain big sat sid ss) (\<lambda>n.
        bind_answer
          (chain_loop big (sat_tab sat) (\<lambda>sid. of_option None (cdf_read_sector info h sid)) ss n 0 sid (replicate (max 1 n * ss) 0))
          (\<lambda>tab. Read \<lparr>sat_tab = tab, sat_len = n\<rparr>)))"

subsection \<open>Streams\<close>

text \<open>The answer is the stream and the root storage, if there is one.\<close>

definition cdf_read_short_stream ::
  "bool \<Rightarrow> cdf_info \<Rightarrow> cdf_header \<Rightarrow> cdf_sat \<Rightarrow> cdf_directory list \<Rightarrow> (cdf_stream \<times> cdf_directory option) answer" where
  "cdf_read_short_stream big info h sat dir =
     (case List.find (\<lambda>d. d_type d = CDF_DIR_TYPE_ROOT_STORAGE) dir of
        None \<Rightarrow> Read (cdf_zero_stream, None)
      | Some d \<Rightarrow>
          if sint (d_stream_first_sector d) < 0 then Read (cdf_zero_stream, Some d)
          else bind_answer (cdf_read_long_sector_chain big info h sat (d_stream_first_sector d) (unat (d_size d)))
                 (\<lambda>scn. Read (scn, Some d)))"

text \<open>\<open>d\<close> is the name with its terminator; \<^verbatim>\<open>char\<close> is signed.  A name of the directory has 32 characters.\<close>

fun cdf_namecmp :: "bool \<Rightarrow> u8 list \<Rightarrow> u16 list \<Rightarrow> int answer" where
  "cdf_namecmp big [] s = Read 0"
| "cdf_namecmp big (c # d) [] = Undef"
| "cdf_namecmp big (c # d) (x # s) =
     (if sint c \<noteq> uint (CDF_TOLE2 big x) then Read (uint c - uint (CDF_TOLE2 big x)) else cdf_namecmp big d s)"

text \<open>\<^verbatim>\<open>cdf_find_stream\<close>: the number of the entry, counted from 1.\<close>

fun find_entry :: "bool \<Rightarrow> u8 list \<Rightarrow> u8 \<Rightarrow> nat \<Rightarrow> cdf_directory list \<Rightarrow> nat answer" where
  "find_entry big name type i [] = Failed (Some ESRCH)"
| "find_entry big name type i (d # ds) =
     (if d_type d \<noteq> type then find_entry big name type (Suc i) ds
      else bind_answer (cdf_namecmp big (name @ [0]) (d_name d)) (\<lambda>r.
        if r = 0 then Read i else find_entry big name type (Suc i) ds))"

definition cdf_find_stream :: "bool \<Rightarrow> cdf_directory list \<Rightarrow> u8 list \<Rightarrow> u8 \<Rightarrow> nat answer" where
  "cdf_find_stream big dir name type = find_entry big name type 1 dir"

definition cdf_read_user_stream ::
  "bool \<Rightarrow> cdf_info \<Rightarrow> cdf_header \<Rightarrow> cdf_sat \<Rightarrow> cdf_sat \<Rightarrow> cdf_stream \<Rightarrow> cdf_directory list \<Rightarrow> u8 list \<Rightarrow> cdf_stream answer" where
  "cdf_read_user_stream big info h sat ssat sst dir name =
     bind_answer (cdf_find_stream big dir name CDF_DIR_TYPE_USER_STREAM) (\<lambda>i.
       let d = dir ! (i - 1) in
       cdf_read_sector_chain big info h sat ssat sst (d_stream_first_sector d) (unat (d_size d)))"

definition cdf_read_summary_info ::
  "bool \<Rightarrow> cdf_info \<Rightarrow> cdf_header \<Rightarrow> cdf_sat \<Rightarrow> cdf_sat \<Rightarrow> cdf_stream \<Rightarrow> cdf_directory list \<Rightarrow> cdf_stream answer" where
  "cdf_read_summary_info big info h sat ssat sst dir =
     cdf_read_user_stream big info h sat ssat sst dir (5 # bytes_of ''SummaryInformation'')"

definition cdf_read_doc_summary_info ::
  "bool \<Rightarrow> cdf_info \<Rightarrow> cdf_header \<Rightarrow> cdf_sat \<Rightarrow> cdf_sat \<Rightarrow> cdf_stream \<Rightarrow> cdf_directory list \<Rightarrow> cdf_stream answer" where
  "cdf_read_doc_summary_info big info h sat ssat sst dir =
     cdf_read_user_stream big info h sat ssat sst dir (5 # bytes_of ''DocumentSummaryInformation'')"

end
