(* ===== verification/Cdf_Chains.thy ===== *)
theory Cdf_Chains
  imports Cdf
begin

text \<open>
  Chains of sectors.  The allocation table maps a sector to the next one of its stream; \<open>chain\<close> relates a table and a first
  sector to the list of sectors from there to a negative number.  The three loops of \<^verbatim>\<open>src/cdf.c\<close> that
  follow chains are compared with it: what they count, what they read, and that they stay inside their arrays.
\<close>

subsection \<open>The chain of a sector\<close>

definition next_sector :: "bool \<Rightarrow> u8 list \<Rightarrow> u32 \<Rightarrow> u32" where
  "next_sector big tab sid = CDF_TOLE4 big (word_field big tab (4 * unat sid) 4)"

fun chain :: "bool \<Rightarrow> u8 list \<Rightarrow> nat \<Rightarrow> u32 \<Rightarrow> u32 list \<Rightarrow> bool" where
  "chain big tab n sid [] \<longleftrightarrow> sint sid < 0"
| "chain big tab n sid (x # xs) \<longleftrightarrow> x = sid \<and> 0 \<le> sint sid \<and> unat sid < n \<and> chain big tab n (next_sector big tab sid) xs"

lemma chain_neg [simp]: "sint sid < 0 \<Longrightarrow> chain big tab n sid xs \<longleftrightarrow> xs = []"
  by (cases xs) auto

lemma chain_unique: "chain big tab n sid xs \<Longrightarrow> chain big tab n sid ys \<Longrightarrow> xs = ys"
proof (induction xs arbitrary: sid ys)
  case Nil
  then show ?case by (cases ys) auto
next
  case (Cons x xs)
  then show ?case by (cases ys) auto
qed

lemma chain_suffix: "chain big tab n sid (xs @ y # ys) \<Longrightarrow> chain big tab n y (y # ys)"
  by (induction xs arbitrary: sid) auto

text \<open>A chain does not come back to a sector: a cyclic table has none.\<close>

lemma chain_distinct: "chain big tab n sid xs \<Longrightarrow> distinct xs"
proof (induction xs arbitrary: sid)
  case (Cons x xs)
  have "x \<notin> set xs"
  proof
    assume "x \<in> set xs"
    then obtain ys zs where "xs = ys @ x # zs" by (meson split_list)
    then have "chain big tab n x (x # zs)" using Cons.prems chain_suffix [of big tab n sid "x # ys" x zs] by (simp del: chain.simps)
    then have "x # xs = x # zs" using chain_unique Cons.prems by force
    then show False using \<open>xs = ys @ x # zs\<close> by (auto dest: arg_cong [where f = length])
  qed
  then show ?case using Cons by auto
qed simp

text \<open>The number of 32-bit entries of a table of \<open>l\<close> sectors of \<open>sz\<close> bytes, and a table that has them.\<close>

definition sat_ok :: "cdf_sat \<Rightarrow> nat \<Rightarrow> bool" where
  "sat_ok sat sz \<longleftrightarrow> 0 < sz \<and> sat_len sat * sz \<le> length (sat_tab sat) \<and> sat_len sat * sz \<le> CDF_MEMORY_LIMIT"

abbreviation (input) entries :: "cdf_sat \<Rightarrow> nat \<Rightarrow> nat" where "entries sat sz \<equiv> sat_len sat * sz div 4"

lemma sat_at_next:
  assumes "0 \<le> sint sid" "unat sid < n" "4 * n \<le> length tab"
  shows "sat_at big tab sid = Read (next_sector big tab sid)"
  using assms by (simp add: sat_at_def next_sector_def)

lemma sint_unat: "0 \<le> sint (w :: u32) \<Longrightarrow> sint w = int (unat w)"
  using sint_lt [of w] by (simp add: uint_sint take_bit_int_eq_self)

lemma sint_less_nat: "0 \<le> sint (w :: u32) \<Longrightarrow> int n \<le> sint w \<longleftrightarrow> \<not> unat w < n"
  using sint_unat [of w] by linarith

subsection \<open>Counting\<close>

definition in_limits :: "nat \<Rightarrow> nat \<Rightarrow> bool" where
  "in_limits sz n \<longleftrightarrow> n \<le> CDF_LOOP_LIMIT \<and> n \<le> CDF_MEMORY_LIMIT div sz"

lemma count_loop_chain:
  assumes "4 * n \<le> length tab"
  shows "chain big tab n sid xs \<Longrightarrow> xs = [] \<or> in_limits sz (i + length xs) \<Longrightarrow> count_loop big tab sz (int n) i sid = Read (i + length xs)"
proof (induction xs arbitrary: i sid)
  case (Cons x xs)
  then have s: "0 \<le> sint sid" "unat sid < n" "chain big tab n (next_sector big tab sid) xs" by auto
  have "xs = [] \<or> in_limits sz (Suc i + length xs)" using Cons.prems(2) by auto
  then show ?case
    using Cons.IH [OF s(3)] Cons.prems(2) s sat_at_next [OF s(1,2) assms] sint_less_nat [OF s(1), of n]
    by (subst count_loop.simps) (auto simp: in_limits_def)
qed (auto simp: count_loop.simps)

lemma count_loop_only:
  assumes "4 * n \<le> length tab"
  shows "count_loop big tab sz (int n) i sid = bad \<or>
    (\<exists>xs. chain big tab n sid xs \<and> (xs = [] \<or> in_limits sz (i + length xs)) \<and> count_loop big tab sz (int n) i sid = Read (i + length xs))"
  (is "?bad i sid \<or> ?good i sid")
proof (induction "CDF_LOOP_LIMIT - i" arbitrary: i sid rule: less_induct)
  case less
  show ?case
  proof (cases "sint sid < 0 \<or> CDF_LOOP_LIMIT \<le> i \<or> CDF_MEMORY_LIMIT div sz \<le> i \<or> int n \<le> sint sid")
    case True
    then show ?thesis by (subst (1 2) count_loop.simps) auto
  next
    case False
    then have s: "0 \<le> sint sid" "unat sid < n" using sint_less_nat [of sid n] by auto
    have step: "count_loop big tab sz (int n) i sid = count_loop big tab sz (int n) (Suc i) (next_sector big tab sid)"
      using False sat_at_next [OF s assms] by (subst count_loop.simps) simp
    have "CDF_LOOP_LIMIT - Suc i < CDF_LOOP_LIMIT - i" using False by (intro diff_less_mono2) auto
    note less [OF this, of "next_sector big tab sid"]
    moreover have "?good i sid" if g: "?good (Suc i) (next_sector big tab sid)"
    proof -
      obtain xs where "chain big tab n (next_sector big tab sid) xs" "xs = [] \<or> in_limits sz (Suc i + length xs)"
          "count_loop big tab sz (int n) (Suc i) (next_sector big tab sid) = Read (Suc i + length xs)"
        using g by blast
      then show ?thesis using s False step by (intro exI [of _ "sid # xs"]) (auto simp: in_limits_def)
    qed
    ultimately show ?thesis using step by auto
  qed
qed

text \<open>The chains that \<^verbatim>\<open>cdf_count_chain\<close> accepts.\<close>

definition good_chain :: "bool \<Rightarrow> cdf_sat \<Rightarrow> nat \<Rightarrow> u32 \<Rightarrow> u32 list \<Rightarrow> bool" where
  "good_chain big sat sz sid xs \<longleftrightarrow>
     chain big (sat_tab sat) (entries sat sz) sid xs \<and> in_limits sz (length xs) \<and> (xs = [] \<longrightarrow> sid = CDF_SECID_END_OF_CHAIN)"

lemma good_chain_unique: "good_chain big sat sz sid xs \<Longrightarrow> good_chain big sat sz sid ys \<Longrightarrow> xs = ys"
  unfolding good_chain_def using chain_unique by blast

lemma sat_ok_bounds:
  assumes "sat_ok sat sz"
  shows "4 * entries sat sz \<le> length (sat_tab sat)" "\<not> sat_len sat > (2 ^ 64 - 1) div sz"
    "sint (word_of_nat (entries sat sz) :: u32) = int (entries sat sz)"
proof -
  have l: "sat_len sat * sz \<le> 16777216" "0 < sz" using assms by (simp_all add: sat_ok_def)
  then show "4 * entries sat sz \<le> length (sat_tab sat)" using assms unfolding sat_ok_def by linarith
  have "sat_len sat * sz div sz \<le> 16777216 div sz" using l(1) by (rule div_le_mono)
  moreover have "(16777216 :: nat) div sz \<le> (2 ^ 64 - 1) div sz" by (rule div_le_mono) simp
  ultimately show "\<not> sat_len sat > (2 ^ 64 - 1) div sz" using l(2) by simp
  have "entries sat sz < 2 ^ 31" using l(1) by simp
  then show "sint (word_of_nat (entries sat sz) :: u32) = int (entries sat sz)"
    by (simp add: signed_of_nat signed_take_bit_int_eq_self)
qed

lemma count_chain_read:
  assumes "sat_ok sat sz" "good_chain big sat sz sid xs"
  shows "cdf_count_chain big sat sid sz = Read (length xs)"
proof -
  note b = sat_ok_bounds [OF assms(1)]
  have "count_loop big (sat_tab sat) sz (int (entries sat sz)) 0 sid = Read (length xs)"
    using count_loop_chain [OF b(1), of big sid xs sz 0] assms(2) by (simp add: good_chain_def)
  then show ?thesis using assms b by (auto simp: cdf_count_chain_def good_chain_def sat_ok_def)
qed

lemma count_chain_cases:
  assumes "sat_ok sat sz"
  obtains (bad) "cdf_count_chain big sat sid sz = bad" "\<nexists>xs. good_chain big sat sz sid xs"
    | (good) xs where "good_chain big sat sz sid xs" "cdf_count_chain big sat sid sz = Read (length xs)"
proof (cases "\<exists>xs. good_chain big sat sz sid xs")
  case True
  then show thesis using good count_chain_read [OF assms] by blast
next
  case False
  note b = sat_ok_bounds [OF assms]
  have e: "sid \<noteq> CDF_SECID_END_OF_CHAIN" using False by (auto simp: good_chain_def in_limits_def dest!: spec [of _ "[]"])
  have "cdf_count_chain big sat sid sz = bad"
    using count_loop_only [OF b(1), of big sz 0 sid] False b e assms
    by (auto simp: cdf_count_chain_def good_chain_def sat_ok_def)
  then show thesis using bad False by blast
qed

subsection \<open>Reading\<close>

text \<open>A reader of sectors: no undefined behaviour on the sectors it is asked for, and full sectors.\<close>

locale sector_reader =
  fixes rd :: "u32 \<Rightarrow> u8 list answer" and ss :: nat
  assumes defined: "0 \<le> sint sid \<Longrightarrow> rd sid \<noteq> Undef"
    and full: "rd sid = Read bs \<Longrightarrow> length bs = ss"
begin

lemma loop_safe:
  assumes "4 * n \<le> length tab" "chain big tab n sid xs" "(i + length xs) * ss \<le> length buf"
  shows "chain_loop big tab rd ss len i sid buf \<noteq> Undef \<and>
    (\<forall>t. chain_loop big tab rd ss len i sid buf = Read t \<longrightarrow> length t = length buf)"
  using assms(2,3)
proof (induction xs arbitrary: i sid buf)
  case (Cons x xs)
  then have s: "0 \<le> sint sid" "unat sid < n" "chain big tab n (next_sector big tab sid) xs" by auto
  show ?case
  proof (cases "rd sid")
    case Undef
    then show ?thesis using defined [OF s(1)] by simp
  next
    case (Failed e)
    then show ?thesis by (subst (1 2) chain_loop.simps) simp
  next
    case (Read bs)
    define buf' where "buf' = take (i * ss) buf @ bs @ drop (i * ss + length bs) buf"
    have fit: "i * ss + length bs \<le> length buf" using Cons.prems(2) full [OF Read] by (simp add: algebra_simps)
    then have b: "length buf' = length buf" by (simp add: buf'_def)
    have "write_at buf (i * ss) bs = answer.Read buf'" using fit by (simp add: write_at_def buf'_def)
    then have "chain_loop big tab rd ss len i sid buf =
        (if CDF_LOOP_LIMIT \<le> i \<or> len \<le> i then bad else chain_loop big tab rd ss len (Suc i) (next_sector big tab sid) buf')"
      using Read s(1) sat_at_next [OF s(1,2) assms(1)] by (subst chain_loop.simps) simp
    moreover have "(Suc i + length xs) * ss \<le> length buf'" using Cons.prems(2) b by simp
    ultimately show ?thesis using Cons.IH [OF s(3), of "Suc i" buf'] b by simp
  qed
qed (auto simp: chain_loop.simps)

lemma loop_reads:
  assumes "4 * n \<le> length tab" "chain big tab n sid xs" "length buf = len * ss" "i + length xs \<le> len" "len \<le> CDF_LOOP_LIMIT"
    and "\<And>x. x \<in> set xs \<Longrightarrow> rd x = Read (sec x)"
  shows "chain_loop big tab rd ss len i sid buf = Read (take (i * ss) buf @ concat (map sec xs) @ drop ((i + length xs) * ss) buf)"
  using assms(2,3,4,6)
proof (induction xs arbitrary: i sid buf)
  case (Cons x xs)
  then have s: "0 \<le> sint sid" "unat sid < n" "chain big tab n (next_sector big tab sid) xs" "x = sid" by auto
  have r: "rd sid = Read (sec sid)" using Cons.prems(4) s(4) by simp
  have l: "length (sec sid) = ss" using full [OF r] .
  have fit: "Suc i * ss \<le> length buf" using Cons.prems(2,3) by (metis Suc_le_eq add_Suc_right length_Cons less_le_trans mult_le_mono1 le_add1 add.commute)
  define buf' where "buf' = take (i * ss) buf @ sec sid @ drop (Suc i * ss) buf"
  have b: "length buf' = len * ss" using fit Cons.prems(2) l by (simp add: buf'_def)
  have t: "take (Suc i * ss) buf' = take (i * ss) buf @ sec sid" "drop ((Suc i + k) * ss) buf' = drop ((Suc i + k) * ss) buf" for k
    using fit l by (simp_all add: buf'_def min_def algebra_simps)
  have w: "write_at buf (i * ss) (sec sid) = Read buf'" using fit l by (simp add: write_at_def buf'_def add.commute)
  have "chain_loop big tab rd ss len i sid buf = chain_loop big tab rd ss len (Suc i) (next_sector big tab sid) buf'"
    using Cons.prems(3) assms(5) s r w sat_at_next [OF s(1,2) assms(1)] by (subst chain_loop.simps) auto
  also have "\<dots> = Read (take (Suc i * ss) buf' @ concat (map sec xs) @ drop ((Suc i + length xs) * ss) buf')"
    using Cons.IH [OF s(3) b] Cons.prems(3,4) by auto
  finally show ?case using t(2) [of "length xs"] by (simp only: t(1)) (simp add: s(4))
qed (auto simp: chain_loop.simps)

end

lemma cdf_read_length: "cdf_read info off len = Some bs \<Longrightarrow> length bs = len"
  by (auto simp: cdf_read_def bytes_field_def split: if_splits option.splits)

lemma read_sector_length: "cdf_read_sector info h sid = Some bs \<Longrightarrow> length bs = CDF_SEC_SIZE h"
  by (auto simp: cdf_read_sector_def Let_def dest: cdf_read_length split: if_splits)

interpretation long: sector_reader "\<lambda>sid. of_option e (cdf_read_sector info h sid)" "CDF_SEC_SIZE h" for e info h
  by unfold_locales (auto simp: of_option_def dest: read_sector_length split: option.splits)

text \<open>A stream as the readers leave it: as many bytes as it says, and the size of its sectors is the one that its length
  calls for, as \<^verbatim>\<open>cdf_check_stream\<close> asserts.\<close>

definition stream_ok :: "cdf_header \<Rightarrow> cdf_stream \<Rightarrow> bool" where
  "stream_ok h s \<longleftrightarrow>
     (\<exists>t. sst_tab s = Some t \<and> sst_len s * sst_ss s \<le> length t) \<and>
     sst_ss s = (if sst_dirlen s < unat (h_min_size_standard_stream h) then CDF_SHORT_SEC_SIZE h else CDF_SEC_SIZE h)"

text \<open>The container of the short sectors: a stream of long sectors, or none.\<close>

definition container_ok :: "cdf_header \<Rightarrow> cdf_stream \<Rightarrow> bool" where
  "container_ok h s \<longleftrightarrow> s = cdf_zero_stream \<or> (\<exists>t. sst_tab s = Some t \<and> CDF_SEC_SIZE h * sst_len s \<le> length t)"

lemma short_sector_length: "cdf_read_short_sector sst h sid = Read bs \<Longrightarrow> length bs = CDF_SHORT_SEC_SIZE h"
  by (auto simp: cdf_read_short_sector_def Let_def bytes_field_def split: if_splits option.splits)

lemma sec_sizes [simp]: "0 < CDF_SEC_SIZE h" "0 < CDF_SHORT_SEC_SIZE h"
  by (simp_all add: CDF_SEC_SIZE_def CDF_SHORT_SEC_SIZE_def)

lemma short_sector_defined:
  assumes "container_ok h sst"
  shows "cdf_read_short_sector sst h sid \<noteq> Undef"
  using assms by (auto simp: cdf_read_short_sector_def container_ok_def cdf_zero_stream_def Let_def)

lemma or_fail_simps [simp]: "or_fail e r = Undef \<longleftrightarrow> r = Undef" "or_fail e r = Read x \<longleftrightarrow> r = Read x"
  by (cases r; simp)+

lemma short_reader: "container_ok h sst \<Longrightarrow> sector_reader (\<lambda>sid. or_fail e (cdf_read_short_sector sst h sid)) (CDF_SHORT_SEC_SIZE h)"
  using short_sector_defined short_sector_length by unfold_locales auto

subsection \<open>The readers are safe\<close>

text \<open>An answer that is defined and, if it is a result, satisfies \<open>Q\<close>.\<close>

definition safe :: "('a \<Rightarrow> bool) \<Rightarrow> 'a answer \<Rightarrow> bool" where
  "safe Q r \<longleftrightarrow> r \<noteq> Undef \<and> (\<forall>x. r = Read x \<longrightarrow> Q x)"

lemma safe_simps [simp]: "safe Q (Failed e)" "safe Q (Read x) \<longleftrightarrow> Q x" "\<not> safe Q Undef"
  by (simp_all add: safe_def)

lemma safe_bind: "safe P r \<Longrightarrow> (\<And>x. P x \<Longrightarrow> safe Q (f x)) \<Longrightarrow> safe Q (bind_answer r f)"
  by (cases r) auto

lemma safe_mono: "safe P r \<Longrightarrow> (\<And>x. P x \<Longrightarrow> Q x) \<Longrightarrow> safe Q r"
  by (auto simp: safe_def)

lemma safe_count:
  assumes "sat_ok sat sz"
  shows "safe (\<lambda>n. \<exists>xs. good_chain big sat sz sid xs \<and> n = length xs) (cdf_count_chain big sat sid sz)"
  by (rule count_chain_cases [OF assms, of big sid]) auto

lemma in_limits_fit: "in_limits sz n \<Longrightarrow> n * sz \<le> CDF_MEMORY_LIMIT"
  unfolding in_limits_def by (metis div_times_less_eq_dividend le_trans mult_le_mono1)

lemma read_chain_safe:
  assumes "sector_reader rd ss" "sat_ok sat sz" "good_chain big sat sz sid xs"
  shows "safe (\<lambda>t. length t = max (Suc 0) (length xs) * ss) (chain_loop big (sat_tab sat) rd ss n 0 sid (replicate (max (Suc 0) (length xs) * ss) 0))"
  using sector_reader.loop_safe [OF assms(1) sat_ok_bounds(1) [OF assms(2)], of big sid xs 0 "replicate (max (Suc 0) (length xs) * ss) 0" n] assms(3)
  by (auto simp: safe_def good_chain_def max_def)

lemma long_chain_safe:
  assumes "sat_ok sat (CDF_SEC_SIZE h)"
  shows "safe (\<lambda>s. stream_ok h s \<and> container_ok h s) (cdf_read_long_sector_chain big info h sat sid len)"
proof (rule count_chain_cases [OF assms, of big sid])
  fix xs
  assume xs: "good_chain big sat (CDF_SEC_SIZE h) sid xs" "cdf_count_chain big sat sid (CDF_SEC_SIZE h) = Read (length xs)"
  show ?thesis
  proof (cases "sid = CDF_SECID_END_OF_CHAIN \<or> len = 0")
    case True
    then show ?thesis using xs(2) by (simp add: cdf_read_long_sector_chain_def)
  next
    case False
    then show ?thesis
      by (simp add: cdf_read_long_sector_chain_def xs(2) Let_def)
        (rule safe_bind [OF read_chain_safe [OF long.sector_reader_axioms assms xs(1)]], simp add: stream_ok_def container_ok_def mult.commute)
  qed
qed (simp add: cdf_read_long_sector_chain_def Let_def)

lemma short_chain_safe:
  assumes "sat_ok ssat (CDF_SEC_SIZE h)" "container_ok h sst" "len < unat (h_min_size_standard_stream h)"
  shows "safe (stream_ok h) (cdf_read_short_sector_chain big h ssat sst sid len)"
proof (rule count_chain_cases [OF assms(1), of big sid])
  fix xs
  assume xs: "good_chain big ssat (CDF_SEC_SIZE h) sid xs" "cdf_count_chain big ssat sid (CDF_SEC_SIZE h) = Read (length xs)"
  show ?thesis
    by (simp add: cdf_read_short_sector_chain_def xs(2) Let_def)
      (rule safe_bind [OF read_chain_safe [OF short_reader [OF assms(2)] assms(1) xs(1)]], simp add: stream_ok_def assms(3))
qed (simp add: cdf_read_short_sector_chain_def Let_def)

lemma sector_chain_safe:
  assumes "sat_ok sat (CDF_SEC_SIZE h)" "sat_ok ssat (CDF_SEC_SIZE h)" "container_ok h sst"
  shows "safe (stream_ok h) (cdf_read_sector_chain big info h sat ssat sst sid len)"
  using short_chain_safe [OF assms(2,3)] safe_mono [OF long_chain_safe [OF assms(1)]] by (auto simp: cdf_read_sector_chain_def)

lemma ssat_safe:
  assumes "sat_ok sat (CDF_SEC_SIZE h)"
  shows "safe (\<lambda>s. sat_ok s (CDF_SEC_SIZE h)) (cdf_read_ssat big info h sat)"
proof (rule count_chain_cases [OF assms, of big "h_secid_first_sector_in_short_sat h"])
  fix xs
  assume xs: "good_chain big sat (CDF_SEC_SIZE h) (h_secid_first_sector_in_short_sat h) xs"
    "cdf_count_chain big sat (h_secid_first_sector_in_short_sat h) (CDF_SEC_SIZE h) = Read (length xs)"
  have "length xs * CDF_SEC_SIZE h \<le> CDF_MEMORY_LIMIT" using xs(1) in_limits_fit by (simp add: good_chain_def)
  then show ?thesis
    by (simp add: cdf_read_ssat_def xs(2) Let_def)
      (rule safe_bind [OF read_chain_safe [OF long.sector_reader_axioms assms xs(1)]], simp add: sat_ok_def)
qed (simp add: cdf_read_ssat_def Let_def)

lemma dir_loop_safe:
  assumes "4 * n \<le> length tab" "chain big tab n sid xs" "i + length xs = ns" "\<forall>d \<in> set ds. length (d_name d) = 32"
  shows "safe (\<lambda>ds. \<forall>d \<in> set ds. length (d_name d) = 32) (dir_loop big info h tab ns j i sid ds)"
  using assms(2,3,4)
proof (induction xs arbitrary: j i sid ds)
  case (Cons x xs)
  then have s: "0 \<le> sint sid" "unat sid < n" "chain big tab n (next_sector big tab sid) xs" by auto
  show ?case
  proof (cases "cdf_read_sector info h sid")
    case (Some buf)
    have d: "\<forall>d \<in> set (ds @ map (\<lambda>k. cdf_unpack_dir big (bytes_field buf (k * 128) 128)) [0..<CDF_SEC_SIZE h div 128]). length (d_name d) = 32"
      using Cons.prems(3) by (auto simp: cdf_unpack_dir_def)
    show ?thesis
      using Cons.IH [OF s(3) _ d, of "Suc i"] Cons.prems(2) Some sat_at_next [OF s(1,2) assms(1)]
      by (subst dir_loop.simps) (simp add: Let_def)
  qed (use Cons.prems in \<open>subst dir_loop.simps, simp\<close>)
qed (subst dir_loop.simps, simp)

lemma dir_safe:
  assumes "sat_ok sat (CDF_SEC_SIZE h)"
  shows "safe (\<lambda>ds. \<forall>d \<in> set ds. length (d_name d) = 32) (cdf_read_dir big info h sat)"
proof (rule count_chain_cases [OF assms, of big "h_secid_first_directory h"])
  fix xs
  assume xs: "good_chain big sat (CDF_SEC_SIZE h) (h_secid_first_directory h) xs"
    "cdf_count_chain big sat (h_secid_first_directory h) (CDF_SEC_SIZE h) = Read (length xs)"
  have "safe (\<lambda>ds. \<forall>d \<in> set ds. length (d_name d) = 32)
      (dir_loop big info h (sat_tab sat) (length xs) 0 0 (h_secid_first_directory h) [])"
    using xs(1) by (intro dir_loop_safe [OF sat_ok_bounds(1) [OF assms]]) (auto simp: good_chain_def)
  then show ?thesis
    using xs(2) unfolding cdf_read_dir_def Let_def by (auto intro!: safe_bind simp: cdf_swap_dir_def)
qed (simp add: cdf_read_dir_def Let_def)

lemma short_stream_safe:
  assumes "sat_ok sat (CDF_SEC_SIZE h)"
  shows "safe (\<lambda>(s, r). container_ok h s) (cdf_read_short_stream big info h sat dir)"
  unfolding cdf_read_short_stream_def
  by (auto intro!: safe_bind [OF long_chain_safe [OF assms]] simp: container_ok_def split: option.split)

subsection \<open>The allocation table\<close>

definition header_ok :: "cdf_header \<Rightarrow> bool" where
  "header_ok h \<longleftrightarrow> h_sec_size_p2 h \<le> 20 \<and> h_short_sec_size_p2 h \<le> 20"

lemma header_safe: "safe header_ok (cdf_read_header big info)"
  by (auto simp: cdf_read_header_def header_ok_def Let_def split: option.split)

lemma sec_size_le: "header_ok h \<Longrightarrow> CDF_SEC_SIZE h \<le> 2 ^ 20"
  unfolding CDF_SEC_SIZE_def header_ok_def by (rule power_increasing) (auto simp: word_le_nat_alt)

lemma write_at_safe:
  assumes "i < len" "len * ss \<le> length tab" "length bs = ss"
  shows "safe (\<lambda>t. len * ss \<le> length t) (write_at tab (ss * i) bs)"
proof -
  have "Suc i * ss \<le> len * ss" using assms(1) by (intro mult_le_mono1) simp
  then show ?thesis using assms by (simp add: write_at_def mult.commute)
qed

lemma header_sat_safe:
  assumes "i + length (takeWhile (\<lambda>s. 0 \<le> sint s) ids) \<le> len" "len * CDF_SEC_SIZE h \<le> length tab"
  shows "safe (\<lambda>(i, t). i \<le> len \<and> len * CDF_SEC_SIZE h \<le> length t) (header_sat info h ids i tab)"
  using assms
proof (induction ids arbitrary: i tab)
  case (Cons s ids)
  show ?case
  proof (cases "0 \<le> sint s")
    case True
    show ?thesis
    proof (cases "cdf_read_sector info h s")
      case (Some bs)
      have "safe (\<lambda>t. len * CDF_SEC_SIZE h \<le> length t) (write_at tab (CDF_SEC_SIZE h * i) bs)"
        using Cons.prems True read_sector_length [OF Some] by (intro write_at_safe) auto
      then show ?thesis using Cons.IH [of "Suc i"] Cons.prems True Some by (auto intro!: safe_bind)
    qed (use True in simp)
  qed (use Cons.prems in simp)
qed simp

lemma sat_at_index:
  assumes "k < n" "4 * n \<le> length t" "n < 2 ^ 31"
  shows "\<exists>s. sat_at big t (word_of_nat k) = Read s"
proof -
  have "unat (word_of_nat k :: u32) = k" "sint (word_of_nat k :: u32) = int k"
    using assms by (auto simp: unat_word_of_nat signed_of_nat signed_take_bit_int_eq_self)
  then show ?thesis using assms by (simp add: sat_at_def)
qed

lemma quarter: "n \<le> 2 ^ 20 \<Longrightarrow> n div 4 < (2 ^ 31 :: nat)"
  by (rule le_less_trans [OF div_le_dividend]) simp

lemma master_sector_safe:
  assumes "4 \<le> CDF_SEC_SIZE h" "CDF_SEC_SIZE h \<le> 2 ^ 20" "length msa = CDF_SEC_SIZE h"
  shows "i \<le> len \<Longrightarrow> len * CDF_SEC_SIZE h \<le> length tab \<Longrightarrow>
    safe (\<lambda>(e, i, t). i \<le> len \<and> len * CDF_SEC_SIZE h \<le> length t) (master_sector big info h len msa k i tab)"
proof (induction "nsatpersec (CDF_SEC_SIZE h) - k" arbitrary: k i tab rule: less_induct)
  case less
  let ?n = "nsatpersec (CDF_SEC_SIZE h)"
  have n: "?n = CDF_SEC_SIZE h div 4 - 1" using assms(1) by (simp add: nsatpersec_def)
  show ?case
  proof (cases "?n \<le> k")
    case True
    then show ?thesis using less.prems by (subst master_sector.simps) simp
  next
    case False
    then have "k < CDF_SEC_SIZE h div 4" using n by linarith
    then obtain sec where sec: "sat_at big msa (word_of_nat k) = Read sec"
      using sat_at_index [of k "CDF_SEC_SIZE h div 4" msa big] quarter [OF assms(2)] assms(3) by auto
    show ?thesis
    proof (cases "sint sec < 0 \<or> len \<le> i \<or> cdf_read_sector info h sec = None")
      case True
      then show ?thesis using False less.prems sec by (subst master_sector.simps) auto
    next
      case F: False
      then obtain bs where bs: "cdf_read_sector info h sec = Some bs" by auto
      have w: "safe (\<lambda>t. len * CDF_SEC_SIZE h \<le> length t) (write_at tab (CDF_SEC_SIZE h * i) bs)"
        using F less.prems read_sector_length [OF bs] by (intro write_at_safe) auto
      have "safe (\<lambda>(e, i, t). i \<le> len \<and> len * CDF_SEC_SIZE h \<le> length t) (master_sector big info h len msa (Suc k) (Suc i) t)"
        if "len * CDF_SEC_SIZE h \<le> length t" for t
        using False F that by (intro less.hyps) auto
      from safe_bind [OF w this] show ?thesis using False F sec bs by (subst master_sector.simps) simp
    qed
  qed
qed

lemma master_sat_safe:
  assumes "h_num_sectors_in_master_sat h \<noteq> 0 \<longrightarrow> 4 \<le> CDF_SEC_SIZE h" "CDF_SEC_SIZE h \<le> 2 ^ 20"
  shows "i \<le> len \<Longrightarrow> len * CDF_SEC_SIZE h \<le> length tab \<Longrightarrow>
    safe (\<lambda>(i, t). i \<le> len \<and> len * CDF_SEC_SIZE h \<le> length t) (master_sat big info h len j mid i tab)"
proof (induction "unat (h_num_sectors_in_master_sat h) - j" arbitrary: j mid i tab rule: less_induct)
  case less
  show ?case
  proof (cases "unat (h_num_sectors_in_master_sat h) \<le> j \<or> sint mid < 0 \<or> CDF_LOOP_LIMIT \<le> j \<or> cdf_read_sector info h mid = None")
    case True
    then show ?thesis using less.prems by (subst master_sat.simps) auto
  next
    case False
    then obtain msa where msa: "cdf_read_sector info h mid = Some msa" by auto
    have ss: "4 \<le> CDF_SEC_SIZE h" using False assms(1) by (auto simp: unat_eq_0)
    note l = read_sector_length [OF msa]
    have n: "nsatpersec (CDF_SEC_SIZE h) = CDF_SEC_SIZE h div 4 - 1" using ss by (simp add: nsatpersec_def)
    obtain m' where m': "sat_at big msa (word_of_nat (nsatpersec (CDF_SEC_SIZE h))) = Read m'"
      using sat_at_index [of "nsatpersec (CDF_SEC_SIZE h)" "CDF_SEC_SIZE h div 4" msa big] quarter [OF assms(2)] ss l n
      by (metis diff_less div_greater_zero_iff div_times_less_eq_dividend mult.commute zero_less_numeral zero_less_one)
    have r: "safe (\<lambda>(i, t). i \<le> len \<and> len * CDF_SEC_SIZE h \<le> length t) (master_sat big info h len (Suc j) m' i t)"
      if "i \<le> len" "len * CDF_SEC_SIZE h \<le> length t" for i t
      using False that by (intro less.hyps) auto
    have "master_sat big info h len j mid i tab =
        bind_answer (master_sector big info h len msa 0 i tab) (\<lambda>(ended, i, tab).
          if ended then Read (i, tab) else master_sat big info h len (Suc j) m' i tab)"
      using False msa m' by (subst master_sat.simps) (auto intro!: arg_cong2 [where f = bind_answer])
    then show ?thesis
      using r by (auto intro!: safe_bind [OF master_sector_safe [OF ss assms(2) l less.prems]])
  qed
qed

lemma sat_safe:
  assumes "header_ok h"
  shows "safe (\<lambda>s. sat_ok s (CDF_SEC_SIZE h)) (cdf_read_sat big info h)"
proof -
  let ?ss = "CDF_SEC_SIZE h" and ?i = "length (takeWhile (\<lambda>s. s \<noteq> CDF_SECID_FREE) (h_master_sat h))"
  let ?num = "unat (h_num_sectors_in_master_sat h)" and ?n = "nsatpersec (CDF_SEC_SIZE h)" and ?limit = "(2 ^ 32 - 1) div (64 * CDF_SEC_SIZE h)"
  let ?len = "(?num * ?n + ?i) mod 2 ^ 64"
  have ss: "?ss \<le> 2 ^ 20" using sec_size_le [OF assms] .
  show ?thesis
  proof (cases "?n > 0 \<and> ?num > ?limit div ?n \<or> ?i > ?limit \<or> ?len > CDF_SAT_LIMIT div ?ss")
    case True
    then show ?thesis by (auto simp: cdf_read_sat_def Let_def)
  next
    case False
    have lim: "?limit < 2 ^ 32" using div_le_dividend [of "2 ^ 32 - 1" "64 * ?ss"] by (rule le_less_trans) simp
    have four: "h_num_sectors_in_master_sat h \<noteq> 0 \<longrightarrow> 4 \<le> ?ss"
    proof (intro impI, rule ccontr)
      assume "h_num_sectors_in_master_sat h \<noteq> 0" "\<not> 4 \<le> ?ss"
      then have "?n = 2 ^ 64 - 1" "0 < ?num" by (auto simp: nsatpersec_def unat_gt_0)
      then show False using False lim by auto
    qed
    have nums: "?n > 0 \<longrightarrow> ?num \<le> ?limit div ?n" "?i \<le> ?limit" "?len \<le> CDF_SAT_LIMIT div ?ss" using False by (meson not_less)+
    have "?num * ?n \<le> ?limit"
    proof (cases "?n > 0")
      case True
      then have "?num * ?n \<le> ?limit div ?n * ?n" using nums(1) by (intro mult_le_mono1) blast
      also have "\<dots> \<le> ?limit" by (rule div_times_less_eq_dividend)
      finally show ?thesis .
    qed simp
    then have "?num * ?n + ?i \<le> ?limit + ?limit" using nums(2) by (rule add_le_mono)
    also have "\<dots> < 2 ^ 64" using lim by simp
    finally have "?num * ?n + ?i < 2 ^ 64" .
    then have len: "?len = ?num * ?n + ?i" by simp
    have "length (takeWhile (\<lambda>s. 0 \<le> sint s) xs) \<le> length (takeWhile (\<lambda>s. s \<noteq> CDF_SECID_FREE) xs)" for xs
      by (induction xs) auto
    then have head: "safe (\<lambda>(i, t). i \<le> ?len \<and> ?len * ?ss \<le> length t) (header_sat info h (h_master_sat h) 0 (replicate (max 1 ?len * ?ss) 0))"
      using len by (intro header_sat_safe) (auto intro: trans_le_add2)
    have "?len * ?ss \<le> CDF_SAT_LIMIT div ?ss * ?ss" using nums(3) by (rule mult_le_mono1)
    then have "?len * ?ss \<le> CDF_SAT_LIMIT" using div_times_less_eq_dividend by (rule le_trans)
    then have fits: "i * ?ss \<le> CDF_SAT_LIMIT" if "i \<le> ?len" for i using that by (meson le_trans mult_le_mono1)
    have "safe (\<lambda>s. sat_ok s ?ss) (bind_answer (master_sat big info h ?len 0 m i t) (\<lambda>(i, t). Read \<lparr>sat_tab = t, sat_len = i\<rparr>))"
      if "i \<le> ?len" "?len * ?ss \<le> length t" for i t m
      by (rule safe_bind [OF master_sat_safe [OF four ss that]]) (use fits in \<open>auto simp: sat_ok_def intro: le_trans [OF mult_le_mono1]\<close>)
    then have "safe (\<lambda>s. sat_ok s ?ss) (bind_answer (header_sat info h (h_master_sat h) 0 (replicate (max 1 ?len * ?ss) 0)) (\<lambda>(i, tab).
        bind_answer (master_sat big info h ?len 0 (h_secid_first_sector_in_master_sat h) i tab) (\<lambda>(i, tab). Read \<lparr>sat_tab = tab, sat_len = i\<rparr>)))"
      by - (rule safe_bind [OF head], auto)
    moreover have "\<not> (?n > 0 \<and> ?num > ?limit div ?n \<or> ?i > ?limit)" "\<not> ?len > CDF_SAT_LIMIT div ?ss" using False by blast+
    ultimately show ?thesis unfolding cdf_read_sat_def Let_def by (simp only: if_False)
  qed
qed

subsection \<open>Properties\<close>

text \<open>C11.  \<^verbatim>\<open>cdf_count_chain\<close> decides whether a chain is sound.  On every table it answers the number of sectors from the given one to
  the end of its chain, when there is such a chain: every sector is inside the table, none comes twice, and the limits on the
  number and the size hold; otherwise it fails.  In particular a cyclic chain is refused.\<close>

theorem cdf_count_chain_spec:
  assumes "sat_ok sat sz"
  shows "(\<exists>xs. good_chain big sat sz sid xs \<and> distinct xs \<and> cdf_count_chain big sat sid sz = Read (length xs)) \<or>
    (\<nexists>xs. good_chain big sat sz sid xs) \<and> cdf_count_chain big sat sid sz = Failed (Some EFTYPE)"
  by (rule count_chain_cases [OF assms, of big sid]) (auto simp: good_chain_def dest: chain_distinct)

text \<open>A table of one sector of eight entries in which 0 leads to 2, 2 to the end, and 1 to itself.\<close>

definition sat1 :: cdf_sat where
  "sat1 = \<lparr>sat_tab = [2, 0, 0, 0, 1, 0, 0, 0, 0xfe, 0xff, 0xff, 0xff] @ replicate 20 0xff, sat_len = 1\<rparr>"

lemma sat1_links:
  "next_sector False (sat_tab sat1) 0 = 2" "next_sector False (sat_tab sat1) 2 = CDF_SECID_END_OF_CHAIN" "next_sector False (sat_tab sat1) 1 = 1"
  by (simp_all add: next_sector_def sat1_def word_field_def bytes_field_def host_word_def CDF_TOLE4_def)

lemma sat1_ok: "sat_ok sat1 32"
  by (simp add: sat_ok_def sat1_def)

lemma sat1_chain: "good_chain False sat1 32 0 [0, 2]"
  by (simp add: good_chain_def in_limits_def sat1_links) (simp add: sat1_def)

theorem cdf_count_chain_spec_witness:
  "cdf_count_chain False sat1 0 32 = Read 2 \<and> cdf_count_chain False sat1 1 32 = Failed (Some EFTYPE)"
proof
  show "cdf_count_chain False sat1 0 32 = Read 2"
    using cdf_count_chain_spec [OF sat1_ok, of False 0] sat1_chain good_chain_unique [OF _ sat1_chain] by fastforce
  have "\<not> chain False (sat_tab sat1) 8 1 xs" for xs
  proof (induction xs)
    case (Cons x xs)
    then show ?case using sat1_links(3) by simp
  qed simp
  then show "cdf_count_chain False sat1 1 32 = Failed (Some EFTYPE)"
    using cdf_count_chain_spec [OF sat1_ok, of False 1] by (auto simp: good_chain_def sat1_def)
qed

text \<open>C12.  A stream is the sectors of its chain.  When the chain of the first sector is sound and the file has all its sectors,
  \<^verbatim>\<open>cdf_read_long_sector_chain\<close> gives a stream whose bytes are the sectors of the chain, one after the other, and
  whose recorded sizes are those of the chain.\<close>

theorem cdf_read_long_sector_chain_reads:
  assumes "sat_ok sat (CDF_SEC_SIZE h)" "good_chain big sat (CDF_SEC_SIZE h) sid xs" "xs \<noteq> []" "len \<noteq> 0"
    and "\<forall>x \<in> set xs. cdf_read_sector info h x = Some (sec x)"
  shows "cdf_read_long_sector_chain big info h sat sid len =
    Read \<lparr>sst_tab = Some (concat (map sec xs)), sst_len = length xs, sst_dirlen = max (unat (h_min_size_standard_stream h)) len,
          sst_ss = CDF_SEC_SIZE h\<rparr>"
proof -
  have n: "0 < length xs" using assms(3) by simp
  have e: "sid \<noteq> CDF_SECID_END_OF_CHAIN" using assms(2,3) by (auto simp: good_chain_def)
  have l: "length xs \<le> CDF_LOOP_LIMIT" using assms(2) by (simp add: good_chain_def in_limits_def)
  have "chain_loop big (sat_tab sat) (\<lambda>sid. of_option (Some EFTYPE) (cdf_read_sector info h sid)) (CDF_SEC_SIZE h) (length xs) 0 sid
      (replicate (length xs * CDF_SEC_SIZE h) 0) = Read (concat (map sec xs))"
    using long.loop_reads [OF sat_ok_bounds(1) [OF assms(1)], where i = 0 and buf = "replicate (length xs * CDF_SEC_SIZE h) 0" and len = "length xs"
        and sid = sid and xs = xs and big = big and sec = sec and info = info and e = "Some EFTYPE"] assms(2,5) l
    by (simp add: good_chain_def of_option_def)
  then show ?thesis
    using e assms(4) n by (simp add: cdf_read_long_sector_chain_def count_chain_read [OF assms(1,2)] Let_def max_def Suc_le_eq)
qed

text \<open>A file of sectors of 32 bytes: the header, and four sectors of equal bytes.\<close>

definition header1 :: cdf_header where
  "header1 = \<lparr>h_magic = CDF_MAGIC, h_uuid = (0, 0), h_revision = 0, h_version = 0, h_byte_order = 0, h_sec_size_p2 = 5,
     h_short_sec_size_p2 = 4, h_num_sectors_in_sat = 1, h_secid_first_directory = 0, h_min_size_standard_stream = 0,
     h_secid_first_sector_in_short_sat = - 2, h_num_sectors_in_short_sat = 0, h_secid_first_sector_in_master_sat = - 2,
     h_num_sectors_in_master_sat = 0, h_master_sat = []\<rparr>"

definition info1 :: cdf_info where
  "info1 = \<lparr>i_fd = -1, i_buf = replicate 32 0 @ replicate 32 0xaa @ replicate 32 0xbb @ replicate 32 0xcc @ replicate 32 0xdd, i_file = None\<rparr>"

theorem cdf_read_long_sector_chain_reads_witness:
  "cdf_read_long_sector_chain False info1 header1 sat1 0 50 =
    Read \<lparr>sst_tab = Some (replicate 32 0xaa @ replicate 32 0xcc), sst_len = 2, sst_dirlen = 50, sst_ss = 32\<rparr>"
proof -
  have ss: "CDF_SEC_SIZE header1 = 32" by (simp add: CDF_SEC_SIZE_def header1_def)
  have "sec_index 0 = 0" "sec_index 2 = 2" by (simp_all add: sec_index_def)
  then have "\<forall>x \<in> set [0, 2]. cdf_read_sector info1 header1 x = Some ((\<lambda>x. if x = 0 then replicate 32 0xaa else replicate 32 0xcc) x)"
    by (simp add: cdf_read_sector_def ss cdf_read_def info1_def bytes_field_def Let_def)
  from cdf_read_long_sector_chain_reads [of sat1 header1 False 0 "[0, 2]" 50, OF _ _ _ _ this] sat1_ok sat1_chain ss
  show ?thesis by (simp add: header1_def)
qed

end
