(* ===== verification/Cdf_Props.thy ===== *)
theory Cdf_Props
  imports Cdf_Chains Funcs "HOL-Library.Signed_Division"
begin

text \<open>
  The contents of streams (\<^verbatim>\<open>src/cdf.c\<close>): property sets with their summary header, and the catalog of thumbnails.  A pointer
  into a stream is its distance from the start of the stream, which may be negative.
\<close>

subsection \<open>Offsets\<close>

definition cdf_check_stream :: "cdf_stream \<Rightarrow> cdf_header \<Rightarrow> nat answer" where
  "cdf_check_stream sst h =
     (let ss = (if sst_dirlen sst < unat (h_min_size_standard_stream h) then CDF_SHORT_SEC_SIZE h else CDF_SEC_SIZE h) in
      if ss = sst_ss sst then Read (sst_ss sst) else Undef)"

definition cdf_check_stream_offset :: "cdf_stream \<Rightarrow> cdf_header \<Rightarrow> int \<Rightarrow> nat \<Rightarrow> unit answer" where
  "cdf_check_stream_offset sst h p tail =
     bind_answer (cdf_check_stream sst h) (\<lambda>ss.
       if 0 \<le> p + int tail \<and> p + int tail \<le> int (ss * sst_len sst) then Read () else bad)"

definition stream_bytes :: "cdf_stream \<Rightarrow> u8 list" where
  "stream_bytes sst = (case sst_tab sst of None \<Rightarrow> [] | Some t \<Rightarrow> t)"

text \<open>\<open>k\<close> bytes at a place in the stream.\<close>

definition bytes_at :: "cdf_stream \<Rightarrow> int \<Rightarrow> nat \<Rightarrow> u8 list answer" where
  "bytes_at sst p k = (if 0 \<le> p \<and> nat p + k \<le> length (stream_bytes sst) then Read (bytes_field (stream_bytes sst) (nat p) k) else Undef)"

definition cdf_getuint32 :: "bool \<Rightarrow> cdf_stream \<Rightarrow> int \<Rightarrow> nat \<Rightarrow> u32 answer" where
  "cdf_getuint32 big sst p offs = bind_answer (bytes_at sst (p + 4 * int offs) 4) (\<lambda>bs. Read (CDF_TOLE4 big (host_word big bs)))"

subsection \<open>Properties\<close>

abbreviation (input) CDF_ELEMENT_LIMIT :: nat where "CDF_ELEMENT_LIMIT \<equiv> 100000"
abbreviation (input) CDF_SHLEN_LIMIT :: nat where "CDF_SHLEN_LIMIT \<equiv> (2 ^ 32 - 1) div 64"

text \<open>A \<^verbatim>\<open>cdf_property_info_t\<close> has 24 bytes.\<close>

abbreviation (input) CDF_PROP_LIMIT :: nat where "CDF_PROP_LIMIT \<equiv> (2 ^ 32 - 1) div (64 * 24)"

abbreviation (input) CDF_EMPTY :: u32 where "CDF_EMPTY \<equiv> 0"
abbreviation (input) CDF_NULL :: u32 where "CDF_NULL \<equiv> 1"
abbreviation (input) CDF_SIGNED16 :: u32 where "CDF_SIGNED16 \<equiv> 2"
abbreviation (input) CDF_SIGNED32 :: u32 where "CDF_SIGNED32 \<equiv> 3"
abbreviation (input) CDF_FLOAT :: u32 where "CDF_FLOAT \<equiv> 4"
abbreviation (input) CDF_DOUBLE :: u32 where "CDF_DOUBLE \<equiv> 5"
abbreviation (input) CDF_BOOL :: u32 where "CDF_BOOL \<equiv> 0x0b"
abbreviation (input) CDF_UNSIGNED32 :: u32 where "CDF_UNSIGNED32 \<equiv> 0x13"
abbreviation (input) CDF_SIGNED64 :: u32 where "CDF_SIGNED64 \<equiv> 0x14"
abbreviation (input) CDF_UNSIGNED64 :: u32 where "CDF_UNSIGNED64 \<equiv> 0x15"
abbreviation (input) CDF_LENGTH32_STRING :: u32 where "CDF_LENGTH32_STRING \<equiv> 0x1e"
abbreviation (input) CDF_LENGTH32_WSTRING :: u32 where "CDF_LENGTH32_WSTRING \<equiv> 0x1f"
abbreviation (input) CDF_FILETIME :: u32 where "CDF_FILETIME \<equiv> 0x40"
abbreviation (input) CDF_CLIPBOARD :: u32 where "CDF_CLIPBOARD \<equiv> 0x47"
abbreviation (input) CDF_VECTOR :: u32 where "CDF_VECTOR \<equiv> 0x1000"
abbreviation (input) CDF_ARRAY :: u32 where "CDF_ARRAY \<equiv> 0x2000"
abbreviation (input) CDF_BYREF :: u32 where "CDF_BYREF \<equiv> 0x4000"
abbreviation (input) CDF_RESERVED :: u32 where "CDF_RESERVED \<equiv> 0x8000"
abbreviation (input) CDF_TYPEMASK :: u32 where "CDF_TYPEMASK \<equiv> 0xfff"

text \<open>The value of a property: nothing was stored, a number, or a string of the stream.\<close>

datatype pi_value = Pi_unset | Pi_num u64 | Pi_str "u8 list"

record cdf_property_info =
  pi_id :: u32
  pi_type :: u32
  pi_val :: pi_value

text \<open>\<open>Failed None\<close> is the null pointer.\<close>

definition cdf_get_property_info_pos :: "bool \<Rightarrow> cdf_stream \<Rightarrow> cdf_header \<Rightarrow> int \<Rightarrow> int \<Rightarrow> nat \<Rightarrow> int answer" where
  "cdf_get_property_info_pos big sst h p e i =
     (let tail = 2 * i + 1 in
      if e \<le> p then Failed None
      else bind_answer (or_fail None (cdf_check_stream_offset sst h p ((tail + 1) * 4))) (\<lambda>_.
        bind_answer (cdf_getuint32 big sst p tail) (\<lambda>ofs.
          if unat ofs < 8 then Failed None
          else if e - p < int (unat ofs - 8) then Failed None
          else Read (p + int (unat ofs - 8)))))"

definition cdf_grow_info :: "nat \<Rightarrow> nat \<Rightarrow> nat answer" where
  "cdf_grow_info maxcount incr = (if maxcount + incr > CDF_PROP_LIMIT then Failed None else Read (maxcount + incr))"

text \<open>The value that is copied from \<open>p\<close>, or \<open>None\<close> for the answer 0.  The difference of the pointers is a \<^verbatim>\<open>size_t\<close>.\<close>

definition cdf_copy_info :: "bool \<Rightarrow> cdf_stream \<Rightarrow> u32 \<Rightarrow> int \<Rightarrow> int \<Rightarrow> nat \<Rightarrow> u64 option answer" where
  "cdf_copy_info big sst ty p e len =
     (if has ty CDF_VECTOR then Read None
      else if (e - p) mod 2 ^ 64 < int len then Read None
      else bind_answer (bytes_at sst p len) (\<lambda>bs.
        if len = 2 then Read (Some (ucast (CDF_TOLE2 big (host_word big bs))))
        else if len = 4 then Read (Some (ucast (CDF_TOLE4 big (host_word big bs))))
        else if len = 8 then Read (Some (CDF_TOLE8 big (host_word big bs)))
        else Undef))"

text \<open>The strings of a property, \<open>m\<close> of them; the answer is the first one.\<close>

fun string_loop :: "bool \<Rightarrow> cdf_stream \<Rightarrow> int \<Rightarrow> nat \<Rightarrow> nat \<Rightarrow> nat \<Rightarrow> nat \<Rightarrow> u8 list list answer" where
  "string_loop big sst q left slen o4 0 = Read []"
| "string_loop big sst q left slen o4 (Suc m) =
     (if left < o4 + 4 then bad
      else bind_answer (cdf_getuint32 big sst q slen) (\<lambda>l.
        if left < o4 + 4 + unat l then bad
        else bind_answer (bytes_at sst (q + int (o4 + 4)) (unat l)) (\<lambda>s.
          let l = (if odd (unat l) then l + 1 else l); slen = slen + unat (drop_bit 1 l) in
          bind_answer (string_loop big sst q left slen (slen * 4) m) (\<lambda>ss. Read (s # ss)))))"

text \<open>The value of the property at \<open>q\<close>, how many entries of the array it takes and the new capacity.\<close>

definition property_value ::
  "bool \<Rightarrow> cdf_stream \<Rightarrow> u32 \<Rightarrow> int \<Rightarrow> int \<Rightarrow> nat \<Rightarrow> nat \<Rightarrow> nat \<Rightarrow> nat \<Rightarrow> (pi_value \<times> nat \<times> nat) answer" where
  "property_value big sst ty q e nelements slen room maxcount =
     (let o4 = slen * 4; t = ty AND CDF_TYPEMASK; unknown = Pi_num 0;
          num = (\<lambda>len. bind_answer (cdf_copy_info big sst ty (q + int o4) e len) (\<lambda>v.
                   Read ((case v of None \<Rightarrow> unknown | Some n \<Rightarrow> Pi_num n), 1, maxcount))) in
      if has ty (CDF_ARRAY OR CDF_BYREF OR CDF_RESERVED) then Read (unknown, 1, maxcount)
      else if t = CDF_NULL \<or> t = CDF_EMPTY then Read (Pi_unset, 1, maxcount)
      else if t = CDF_SIGNED16 then num 2
      else if t = CDF_SIGNED32 \<or> t = CDF_BOOL \<or> t = CDF_UNSIGNED32 \<or> t = CDF_FLOAT then num 4
      else if t = CDF_SIGNED64 \<or> t = CDF_UNSIGNED64 \<or> t = CDF_DOUBLE \<or> t = CDF_FILETIME then num 8
      else if t = CDF_LENGTH32_STRING \<or> t = CDF_LENGTH32_WSTRING then
        bind_answer (if nelements > 1 then or_fail (Some EFTYPE) (cdf_grow_info maxcount nelements) else Read maxcount) (\<lambda>maxcount.
          let m = min nelements room in
          bind_answer (string_loop big sst q (nat (e - q)) slen o4 m) (\<lambda>ss. Read (Pi_str (hd ss), m, maxcount)))
      else if t = CDF_CLIPBOARD \<and> \<not> has ty CDF_VECTOR then Read (Pi_unset, 1, maxcount)
      else Read (unknown, 1, maxcount))"

text \<open>The loop over the properties.  An entry of the array is \<open>None\<close> while its identifier and type are not initialised, which is
  the case for the elements of a vector after the first.\<close>

function property_loop ::
  "bool \<Rightarrow> cdf_stream \<Rightarrow> cdf_header \<Rightarrow> int \<Rightarrow> int \<Rightarrow> nat \<Rightarrow> nat \<Rightarrow> nat \<Rightarrow> cdf_property_info option list \<Rightarrow>
   (cdf_property_info option list \<times> nat) answer" where
  "property_loop big sst h p e n i maxcount inp =
     (if n \<le> i then Read (inp, maxcount)
      else bind_answer (or_fail (Some EFTYPE) (cdf_get_property_info_pos big sst h p e i)) (\<lambda>q.
        bind_answer (cdf_getuint32 big sst p (2 * i)) (\<lambda>idn.
          let left = nat (e - q) in
          if left < 4 then bad
          else bind_answer (cdf_getuint32 big sst q 0) (\<lambda>ty.
            bind_answer
              (if has ty CDF_VECTOR then
                 (if left < 8 then bad
                  else bind_answer (cdf_getuint32 big sst q 1) (\<lambda>k.
                    if unat k > CDF_ELEMENT_LIMIT \<or> k = 0 then bad else Read (unat k, 2)))
               else Read (1, 1)) (\<lambda>(nelements, slen).
              bind_answer (property_value big sst ty q e nelements slen (n - i) maxcount) (\<lambda>(v, m, maxcount).
                property_loop big sst h p e n (i + max 1 m) maxcount
                  (inp @ Some \<lparr>pi_id = idn, pi_type = ty, pi_val = v\<rparr> # replicate (m - 1) None)))))))"
  by pat_completeness auto
termination
  by (relation "measure (\<lambda>(big, sst, h, p, e, n, i, maxcount, inp). n - i)") auto

declare property_loop.simps [simp del]

text \<open>\<open>sh_at\<close> is the distance from the start of the stream to the local variable \<^verbatim>\<open>sh\<close>, into which the section header is copied: the
  source checks and uses \<^verbatim>\<open>&sh + sh.sh_len\<close>, an address in the frame of the function, as the end of the section.\<close>

definition cdf_read_property_info ::
  "bool \<Rightarrow> int \<Rightarrow> cdf_stream \<Rightarrow> cdf_header \<Rightarrow> u32 \<Rightarrow> cdf_property_info option list \<Rightarrow> nat \<Rightarrow>
   (cdf_property_info option list \<times> nat) answer" where
  "cdf_read_property_info big sh_at sst h offs info maxcount =
     (if unat offs > (2 ^ 32 - 1) div 4 then bad
      else bind_answer (cdf_check_stream_offset sst h (uint offs) 8) (\<lambda>_.
        bind_answer (cdf_getuint32 big sst (uint offs) 0) (\<lambda>sh_len.
          if unat sh_len > CDF_SHLEN_LIMIT then bad
          else bind_answer (cdf_check_stream_offset sst h sh_at (unat sh_len)) (\<lambda>_.
            bind_answer (cdf_getuint32 big sst (uint offs) 1) (\<lambda>sh_properties.
              if unat sh_properties > CDF_PROP_LIMIT then bad
              else bind_answer (or_fail (Some EFTYPE) (cdf_grow_info maxcount (unat sh_properties))) (\<lambda>maxcount.
                let p = uint offs + 8; e = sh_at + uint sh_len in
                if e \<le> p then bad
                else bind_answer (cdf_check_stream_offset sst h e 0) (\<lambda>_.
                  property_loop big sst h p e (unat sh_properties) 0 maxcount info)))))))"

subsection \<open>The summary header\<close>

record cdf_classid =
  cl_dword :: u32
  cl_word :: "u16 \<times> u16"
  cl_two :: "u8 list"
  cl_six :: "u8 list"

definition cdf_swap_class :: "bool \<Rightarrow> cdf_classid \<Rightarrow> cdf_classid" where
  "cdf_swap_class big d =
     d\<lparr>cl_dword := CDF_TOLE4 big (cl_dword d), cl_word := (CDF_TOLE2 big (fst (cl_word d)), CDF_TOLE2 big (snd (cl_word d)))\<rparr>"

record cdf_summary_info_header =
  si_byte_order :: u16
  si_os_version :: u16
  si_os :: u16
  si_class :: cdf_classid
  si_count :: u32

text \<open>\<open>t\<close> is the stream, in which the header has 28 bytes and the section declaration at \<^verbatim>\<open>0x1c\<close> another 20.\<close>

definition unpack_si :: "bool \<Rightarrow> u8 list \<Rightarrow> cdf_summary_info_header" where
  "unpack_si big t =
     \<lparr>si_byte_order = CDF_TOLE2 big (word_field big t 0 2), si_os_version = CDF_TOLE2 big (word_field big t 4 2),
      si_os = CDF_TOLE2 big (word_field big t 6 2),
      si_class = cdf_swap_class big \<lparr>cl_dword = word_field big t 8 4, cl_word = (word_field big t 12 2, word_field big t 14 2),
        cl_two = bytes_field t 16 2, cl_six = bytes_field t 18 6\<rparr>,
      si_count = CDF_TOLE4 big (word_field big t 24 4)\<rparr>"

definition cdf_unpack_summary_info ::
  "bool \<Rightarrow> int \<Rightarrow> cdf_stream \<Rightarrow> cdf_header \<Rightarrow> (cdf_summary_info_header \<times> cdf_property_info option list) answer" where
  "cdf_unpack_summary_info big sh_at sst h =
     bind_answer (cdf_check_stream_offset sst h 0 28) (\<lambda>_.
       bind_answer (cdf_check_stream_offset sst h 0x1c 20) (\<lambda>_.
         bind_answer (bytes_at sst 0 48) (\<lambda>t.
           bind_answer (cdf_read_property_info big sh_at sst h (CDF_TOLE4 big (word_field big t 44 4)) [] 0) (\<lambda>(info, _).
             Read (unpack_si big t, info)))))"

subsection \<open>The catalog\<close>

record cdf_catalog_entry =
  ce_namlen :: u16
  ce_num :: u32
  ce_timestamp :: u64
  ce_name :: "u16 list"

text \<open>The length of the record at \<open>b\<close>.\<close>

definition reclen_at :: "bool \<Rightarrow> u8 list \<Rightarrow> nat \<Rightarrow> u16" where
  "reclen_at big t b = CDF_TOLE2 big (word_field big t b 2)"

text \<open>The first loop of \<^verbatim>\<open>cdf_unpack_catalog\<close>: the number of records.\<close>

function count_records :: "bool \<Rightarrow> u8 list \<Rightarrow> nat \<Rightarrow> nat \<Rightarrow> nat \<Rightarrow> nat" where
  "count_records big t eb b nr =
     (if b + 2 > eb then nr
      else
        (let reclen = unat (reclen_at big t b) in
         if reclen = 0 then nr else if b + reclen > eb then nr else count_records big t eb (b + reclen) (Suc nr)))"
  by pat_completeness auto
termination
  by (relation "measure (\<lambda>(big, t, eb, b, nr). eb - b)") auto

declare count_records.simps [simp del]

definition ce0 :: cdf_catalog_entry where
  "ce0 = \<lparr>ce_namlen = 0, ce_num = 0, ce_timestamp = 0, ce_name = replicate 256 0\<rparr>"

definition upd_entry :: "nat \<Rightarrow> (cdf_catalog_entry \<Rightarrow> cdf_catalog_entry) \<Rightarrow> cdf_catalog_entry list \<Rightarrow> cdf_catalog_entry list" where
  "upd_entry k f ce = ce[k := f (ce ! k)]"

text \<open>\<^verbatim>\<open>extract_catalog_field\<close> for the three fields: first the raw value in \<^verbatim>\<open>cep\<close>, the entry \<open>j\<close>, then the converted one in entry
  \<open>i\<close>.  The flag says that the loop goes on.\<close>

definition extract_fields ::
  "bool \<Rightarrow> u8 list \<Rightarrow> nat \<Rightarrow> nat \<Rightarrow> nat \<Rightarrow> nat \<Rightarrow> cdf_catalog_entry list \<Rightarrow> bool \<times> cdf_catalog_entry list" where
  "extract_fields big t eb b i j ce =
     (let stop = upd_entry j (\<lambda>c. c\<lparr>ce_namlen := 0\<rparr>);
          namlen = word_field big t b 2; num = word_field big t (b + 4) 4; stamp = word_field big t (b + 8) 8;
          ce1 = upd_entry i (\<lambda>c. c\<lparr>ce_namlen := CDF_TOLE2 big namlen\<rparr>) (upd_entry j (\<lambda>c. c\<lparr>ce_namlen := namlen\<rparr>) ce);
          ce2 = upd_entry i (\<lambda>c. c\<lparr>ce_num := ucast (ucast (CDF_TOLE4 big num) :: u16)\<rparr>) (upd_entry j (\<lambda>c. c\<lparr>ce_num := num\<rparr>) ce1);
          ce3 = upd_entry i (\<lambda>c. c\<lparr>ce_timestamp := CDF_TOLE8 big stamp\<rparr>) (upd_entry j (\<lambda>c. c\<lparr>ce_timestamp := stamp\<rparr>) ce2) in
      if b + 2 > eb then (False, stop ce)
      else if b + 8 > eb then (False, stop ce1)
      else if b + 16 > eb then (False, stop ce2)
      else (True, ce3))"

text \<open>The second loop.  \<open>j\<close> stays one behind \<open>i\<close> from the second record on, so that the name of a record goes to the entry before
  its own.\<close>

function catalog_loop ::
  "bool \<Rightarrow> u8 list \<Rightarrow> nat \<Rightarrow> nat \<Rightarrow> nat \<Rightarrow> nat \<Rightarrow> nat \<Rightarrow> cdf_catalog_entry list \<Rightarrow> nat \<times> cdf_catalog_entry list" where
  "catalog_loop big t eb nr i j b ce =
     (if nr \<le> i then (j, ce)
      else case extract_fields big t eb b i j ce of (ok, ce) \<Rightarrow>
        (let reclen = unat (ce_namlen (ce ! j)); rlen = reclen - 14; namlen = min 255 rlen in
         if \<not> ok \<or> reclen = 0 then (j, ce)
         else if reclen < 14 then catalog_loop big t eb nr i j (b + reclen) (upd_entry j (\<lambda>c. c\<lparr>ce_namlen := 0\<rparr>) ce)
         else if b + 16 + 2 * namlen > eb then (j, upd_entry j (\<lambda>c. c\<lparr>ce_namlen := 0\<rparr>) ce)
         else catalog_loop big t eb nr (Suc i) i (b + reclen)
                (upd_entry j (\<lambda>c. c\<lparr>ce_namlen := word_of_nat namlen,
                   ce_name := (map (\<lambda>k. word_field big t (b + 16 + 2 * k) 2) [0..<namlen] @ drop namlen (ce_name c))[namlen := 0]\<rparr>) ce)))"
  by pat_completeness auto
termination
  by (relation "measure (\<lambda>(big, t, eb, nr, i, j, b, ce). eb - b)") (auto simp: extract_fields_def Let_def split: if_splits)

declare catalog_loop.simps [simp del]

text \<open>The answer is \<^verbatim>\<open>cat_num\<close> and the entries.\<close>

definition cdf_unpack_catalog :: "bool \<Rightarrow> cdf_header \<Rightarrow> cdf_stream \<Rightarrow> (nat \<times> cdf_catalog_entry list) answer" where
  "cdf_unpack_catalog big h sst =
     bind_answer (cdf_check_stream sst h) (\<lambda>ss.
       bind_answer (bytes_at sst 0 (ss * sst_len sst)) (\<lambda>t.
         let eb = ss * sst_len sst; nr = count_records big t eb 0 0 in
         if nr = 0 then Failed None
         else Read (catalog_loop big t eb (nr - 1) 0 0 0 (replicate (nr - 1) ce0))))"

subsection \<open>Printing\<close>

definition nibble :: "nat \<Rightarrow> u8" where
  "nibble n = (if n < 10 then word_of_nat (0x30 + n) else word_of_nat (0x57 + n))"

fun nibbles :: "nat \<Rightarrow> nat \<Rightarrow> u8 list" where
  "nibbles 0 n = []"
| "nibbles (Suc k) n = nibbles k (n div 16) @ [nibble (n mod 16)]"

text \<open>\<^verbatim>\<open>%.*x\<close> with \<open>k\<close> digits or more, and \<^verbatim>\<open>%#x\<close>.\<close>

definition show_hex :: "nat \<Rightarrow> nat \<Rightarrow> u8 list" where
  "show_hex k n = (let d = dropWhile (\<lambda>c. c = 0x30) (nibbles 16 n) in replicate (k - length d) 0x30 @ d)"

definition show_alt_hex :: "nat \<Rightarrow> u8 list" where
  "show_alt_hex n = (if n = 0 then [0x30] else [0x30, 0x78] @ show_hex 1 n)"

definition cdf_print_classid :: "cdf_classid \<Rightarrow> u8 list" where
  "cdf_print_classid c =
     (let x = (\<lambda>i. show_hex 2 (unat (cl_two c ! i))); y = (\<lambda>i. show_hex 2 (unat (cl_six c ! i))) in
      show_hex 8 (unat (cl_dword c)) @ [0x2d] @ show_hex 4 (unat (fst (cl_word c))) @ [0x2d] @ show_hex 4 (unat (snd (cl_word c))) @ [0x2d] @
      x 0 @ x 1 @ [0x2d] @ y 0 @ y 1 @ y 2 @ y 3 @ y 4 @ y 5)"

definition vn :: "(u32 \<times> string) list" where
  "vn = [(1, ''Code page''), (2, ''Title''), (3, ''Subject''), (4, ''Author''), (5, ''Keywords''), (6, ''Comments''), (7, ''Template''),
     (8, ''Last Saved By''), (9, ''Revision Number''), (0xa, ''Total Editing Time''), (0xb, ''Last Printed''), (0xc, ''Create Time/Date''),
     (0xd, ''Last Saved Time/Date''), (0xe, ''Number of Pages''), (0xf, ''Number of Words''), (0x10, ''Number of Characters''),
     (0x11, ''Thumbnail''), (0x12, ''Name of Creating Application''), (0x13, ''Security''), (0x80000000, ''Locale ID'')]"

definition cdf_print_property_name :: "u32 \<Rightarrow> u8 list" where
  "cdf_print_property_name p = (case map_of vn p of Some n \<Rightarrow> bytes_of n | None \<Rightarrow> show_alt_hex (unat p))"

text \<open>\<^verbatim>\<open>%.2d\<close>.\<close>

definition two_digits :: "int \<Rightarrow> u8 list" where
  "two_digits n =
     (let d = show_nat (nat (abs n)); d = replicate (2 - length d) 0x30 @ d in if n < 0 then 0x2d # d else d)"

text \<open>The quotients and remainders round towards zero; the days are an \<^verbatim>\<open>int\<close>.  The texts fit the buffer of 64 bytes.\<close>

definition cdf_print_elapsed_time :: "int \<Rightarrow> u8 list" where
  "cdf_print_elapsed_time ts =
     (let s = ts sdiv 10000000; secs = s smod 60; m = s sdiv 60; mins = m smod 60; hs = m sdiv 60; hours = hs smod 24;
          days = signed_take_bit 31 (hs sdiv 24);
          show_day = (if days < 0 then 0x2d # show_nat (nat (- days)) else show_nat (nat days)) in
      (if days \<noteq> 0 then show_day @ bytes_of ''d+'' else []) @
      (if days \<noteq> 0 \<or> hours \<noteq> 0 then two_digits hours @ [0x3a] else []) @
      two_digits mins @ [0x3a] @ two_digits secs)"

text \<open>The buffer has 256 bytes.\<close>

definition cdf_u16tos8 :: "nat \<Rightarrow> u16 list \<Rightarrow> u8 list answer" where
  "cdf_u16tos8 len p =
     (let s = takeWhile (\<lambda>c. c \<noteq> 0) (take len p) in
      if length p < len \<and> 0 \<notin> set p \<or> length s \<ge> 256 then Undef else Read (map ucast s))"

end
