(* ===== verification/Readcdf.thy ===== *)
theory Readcdf
  imports Cdf_Props Cdf_Time Softprint
begin

text \<open>
  The report on a compound document (\<^verbatim>\<open>src/readcdf.c\<close>): the properties of the summary, the catalog of a thumbnail database, the
  names of streams and storages that give a document away, and \<^verbatim>\<open>file_trycdf\<close>, which the dispatcher calls.
\<close>

subsection \<open>What the C library and the machine decide\<close>

text \<open>The byte order of the host; for the two summaries, whether \<^verbatim>\<open>errno\<close> holds \<^verbatim>\<open>ESRCH\<close> when a reader fails without setting it, and where
  the frame of \<^verbatim>\<open>cdf_read_property_info\<close> lies; the text of \<^verbatim>\<open>%g\<close> for a \<^verbatim>\<open>float\<close> or a \<^verbatim>\<open>double\<close>; \<^verbatim>\<open>mktime\<close> and \<^verbatim>\<open>ctime_r\<close>.\<close>

record cdf_env =
  cv_big :: bool
  cv_stale :: "nat \<Rightarrow> bool"
  cv_sh :: "nat \<Rightarrow> int"
  cv_g :: "bool \<Rightarrow> u64 \<Rightarrow> u8 list"
  cv_mktime :: "tm \<Rightarrow> int"
  cv_ctime :: "int \<Rightarrow> u8 list option"

abbreviation (input) NOTMIME :: "magic_set \<Rightarrow> bool" where "NOTMIME ms \<equiv> ms_flags ms AND MAGIC_MIME = 0"

subsection \<open>Tables\<close>

definition app2mime :: "(string \<times> string) list" where
  "app2mime = [(''Word'', ''msword''), (''Excel'', ''vnd.ms-excel''), (''Powerpoint'', ''vnd.ms-powerpoint''), (''Crystal Reports'', ''x-rpt''),
     (''Advanced Installer'', ''vnd.ms-msi''), (''InstallShield'', ''vnd.ms-msi''), (''Microsoft Patch Compiler'', ''vnd.ms-msi''),
     (''NAnt'', ''vnd.ms-msi''), (''Windows Installer'', ''vnd.ms-msi'')]"

definition name2mime :: "(string \<times> string) list" where
  "name2mime = [(''Book'', ''vnd.ms-excel''), (''Workbook'', ''vnd.ms-excel''), (''WordDocument'', ''msword''),
     (''PowerPoint'', ''vnd.ms-powerpoint''), (''DigitalSignature'', ''vnd.ms-msi'')]"

definition name2desc :: "(string \<times> string) list" where
  "name2desc = [(''Book'', ''Microsoft Excel''), (''Workbook'', ''Microsoft Excel''), (''WordDocument'', ''Microsoft Word''),
     (''PowerPoint'', ''Microsoft PowerPoint''), (''DigitalSignature'', ''Microsoft Installer'')]"

definition clsid2mime :: "((u64 \<times> u64) \<times> string) list" where
  "clsid2mime = [((0x00000000000c1084, 0x46000000000000c0), ''vnd.ms-msi'')]"

definition clsid2desc :: "((u64 \<times> u64) \<times> string) list" where
  "clsid2desc = [((0x00000000000c1084, 0x46000000000000c0), ''Microsoft Installer'')]"

definition cdf_clsid_to_mime :: "u64 \<times> u64 \<Rightarrow> ((u64 \<times> u64) \<times> string) list \<Rightarrow> string option" where
  "cdf_clsid_to_mime clsid cv = map_option snd (List.find (\<lambda>(c, _). fst clsid = fst c \<and> snd clsid = snd c) cv)"

text \<open>\<^verbatim>\<open>strcasestr\<close> in the C locale.\<close>

definition has_prefix_ci :: "u8 list \<Rightarrow> u8 list \<Rightarrow> bool" where
  "has_prefix_ci p s \<longleftrightarrow> map tolower (take (length p) s) = map tolower p"

fun strcasestr :: "u8 list \<Rightarrow> u8 list \<Rightarrow> bool" where
  "strcasestr [] p = (p = [])"
| "strcasestr (c # s) p = (has_prefix_ci p (c # s) \<or> strcasestr s p)"

definition cdf_app_to_mime :: "u8 list \<Rightarrow> (string \<times> string) list \<Rightarrow> string option" where
  "cdf_app_to_mime vbuf nv = map_option snd (List.find (\<lambda>(p, _). strcasestr vbuf (bytes_of p)) nv)"

subsection \<open>Properties\<close>

text \<open>Printing in an answer: -1 ends the function with -1.\<close>

definition print_then :: "magic_set \<Rightarrow> u8 list \<Rightarrow> int \<Rightarrow> (magic_set \<Rightarrow> (int \<times> magic_set) answer) \<Rightarrow> (int \<times> magic_set) answer" where
  "print_then ms t err f = (case file_printf ms t of (r, ms) \<Rightarrow> if r = -1 then Read (err, ms) else f ms)"

text \<open>\<^verbatim>\<open>cdf_ctime\<close>, up to the newline.\<close>

definition cdf_ctime :: "cdf_env \<Rightarrow> int \<Rightarrow> u8 list" where
  "cdf_ctime env sec =
     (case (if sec > MAX_CTIME then None else cv_ctime env sec) of
        Some t \<Rightarrow> takeWhile (\<lambda>c. c \<noteq> 0x0a) t
      | None \<Rightarrow> bytes_of ''*Bad* '' @ (let n = nat (sec mod 2 ^ 64) in if n = 0 then show_hex 16 n else [0x30, 0x78] @ show_hex 16 n))"

text \<open>The characters of a string property, of one or two bytes each, that are printable.\<close>

fun every_other :: "'a list \<Rightarrow> 'a list" where
  "every_other (a # b # s) = a # every_other s"
| "every_other s = s"

definition property_text :: "bool \<Rightarrow> u8 list \<Rightarrow> u8 list" where
  "property_text wide s =
     take 1023 (filter isprint (takeWhile (\<lambda>c. c \<noteq> 0) (if wide then every_other s else s)))"

definition shown_time :: "cdf_env \<Rightarrow> u64 \<Rightarrow> u8 list" where
  "shown_time env v =
     (let tp = sint v in
      if tp < 1000000000000000 then cdf_print_elapsed_time tp
      else cdf_ctime env (tv_sec (snd (cdf_timestamp_to_timespec (cv_mktime env) tp))))"

text \<open>What the \<^verbatim>\<open>switch\<close> does with a property: nothing, print a text (unless a MIME answer is asked for), remember an application name,
  or stop with -1.\<close>

datatype prop_action = Quiet | Print "u8 list" | Application "u8 list" | Stop_report

definition num_of :: "pi_value \<Rightarrow> (u64 \<Rightarrow> prop_action) \<Rightarrow> prop_action answer" where
  "num_of v f = (case v of Pi_num n \<Rightarrow> Read (f n) | _ \<Rightarrow> Undef)"

definition property_action :: "cdf_env \<Rightarrow> cdf_property_info \<Rightarrow> prop_action answer" where
  "property_action env pr =
     (let t = pi_type pr; v = pi_val pr in
      if t = CDF_NULL \<or> t = CDF_CLIPBOARD then Read Quiet
      else if t = CDF_SIGNED16 then num_of v (\<lambda>n. Print (show_int (sint (ucast n :: u16))))
      else if t = CDF_SIGNED32 then num_of v (\<lambda>n. Print (show_int (sint (ucast n :: u32))))
      else if t = CDF_UNSIGNED32 then num_of v (\<lambda>n. Print (show_nat (unat (ucast n :: u32))))
      else if t = CDF_FLOAT then num_of v (\<lambda>n. Print (cv_g env False n))
      else if t = CDF_DOUBLE then num_of v (\<lambda>n. Print (cv_g env True n))
      else if t = CDF_LENGTH32_STRING \<or> t = CDF_LENGTH32_WSTRING then
        (case v of
           Pi_str s \<Rightarrow> Read (if length s > 1 then Application (property_text (t = CDF_LENGTH32_WSTRING) s) else Quiet)
         | _ \<Rightarrow> Undef)
      else if t = CDF_FILETIME then num_of v (\<lambda>n. if n = 0 then Quiet else Print (shown_time env n))
      else Read Stop_report)"

fun property_report ::
  "cdf_env \<Rightarrow> magic_set \<Rightarrow> cdf_property_info option list \<Rightarrow> string option \<Rightarrow> (int \<times> magic_set) answer" where
  "property_report env ms [] str =
     (if \<not> has (ms_flags ms) MAGIC_MIME_TYPE then Read (1, ms)
      else case str of
          None \<Rightarrow> Read (0, ms)
        | Some s \<Rightarrow> print_then ms (bytes_of (''application/'' @ s)) (-1) (\<lambda>ms. Read (1, ms)))"
| "property_report env ms (None # info) str = Undef"
| "property_report env ms (Some pr # info) str =
     (let say = (\<lambda>t k. print_then ms (bytes_of '', '' @ cdf_print_property_name (pi_id pr) @ bytes_of '': '' @ t) (-1) k) in
      bind_answer (property_action env pr) (\<lambda>a. case a of
        Stop_report \<Rightarrow> Read (-1, ms)
      | Quiet \<Rightarrow> property_report env ms info str
      | Print t \<Rightarrow> if NOTMIME ms then say t (\<lambda>ms. property_report env ms info str) else property_report env ms info str
      | Application t \<Rightarrow>
          if NOTMIME ms
          then (if t \<noteq> [] then say t (\<lambda>ms. property_report env ms info str) else property_report env ms info str)
          else property_report env ms info
                 (if str = None \<and> pi_id pr = 0x12 then cdf_app_to_mime t app2mime else str)))"

definition cdf_file_property_info ::
  "cdf_env \<Rightarrow> magic_set \<Rightarrow> cdf_property_info option list \<Rightarrow> cdf_directory option \<Rightarrow> (int \<times> magic_set) answer" where
  "cdf_file_property_info env ms info root =
     property_report env ms info
       (case root of Some d \<Rightarrow> if NOTMIME ms then None else cdf_clsid_to_mime (d_storage_uuid d) clsid2mime | None \<Rightarrow> None)"

subsection \<open>The catalog\<close>

fun catalog_report :: "magic_set \<Rightarrow> nat \<Rightarrow> nat \<Rightarrow> cdf_catalog_entry list \<Rightarrow> (int \<times> magic_set) answer" where
  "catalog_report ms num i [] = (if num \<le> i then Read (1, ms) else Undef)"
| "catalog_report ms num i (c # ce) =
     (if num \<le> i then Read (1, ms)
      else bind_answer (cdf_u16tos8 (unat (ce_namlen c)) (ce_name c)) (\<lambda>t.
        print_then ms (t @ (if i = num - 1 then bytes_of '']'' else bytes_of '', '')) (-1) (\<lambda>ms. catalog_report ms num (Suc i) ce)))"

definition cdf_file_catalog :: "bool \<Rightarrow> magic_set \<Rightarrow> cdf_header \<Rightarrow> cdf_stream \<Rightarrow> (int \<times> magic_set) answer" where
  "cdf_file_catalog big ms h sst =
     (if NOTMIME ms then
        print_then ms (bytes_of ''Microsoft Thumbs.db ['') (-1) (\<lambda>ms.
          case cdf_unpack_catalog big h sst of
            Undef \<Rightarrow> Undef
          | Failed _ \<Rightarrow> Read (-1, ms)
          | Read (num, ce) \<Rightarrow> catalog_report ms num 1 (tl ce))
      else if has (ms_flags ms) MAGIC_MIME_TYPE then print_then ms (bytes_of ''application/CDFV2'') (-1) (\<lambda>ms. Read (1, ms))
      else Read (1, ms))"


definition cdf_file_catalog_info ::
  "bool \<Rightarrow> magic_set \<Rightarrow> cdf_info \<Rightarrow> cdf_header \<Rightarrow> cdf_sat \<Rightarrow> cdf_sat \<Rightarrow> cdf_stream \<Rightarrow> cdf_directory list \<Rightarrow> (int \<times> magic_set) answer" where
  "cdf_file_catalog_info big ms info h sat ssat sst dir =
     (case cdf_read_user_stream big info h sat ssat sst dir (bytes_of ''Catalog'') of
        Undef \<Rightarrow> Undef
      | Failed _ \<Rightarrow> Read (-1, ms)
      | Read scn \<Rightarrow> cdf_file_catalog big ms h scn)"

subsection \<open>The summary\<close>

definition os_text :: "cdf_summary_info_header \<Rightarrow> u8 list" where
  "os_text si =
     (let v = unat (si_os_version si); lo = show_nat (v mod 256); hi = show_nat (v div 256) in
      if si_os si = 2 then bytes_of '', Os: Windows, Version '' @ lo @ bytes_of ''.'' @ hi
      else if si_os si = 1 then bytes_of '', Os: MacOS, Version '' @ hi @ bytes_of ''.'' @ lo
      else bytes_of '', Os '' @ show_nat (unat (si_os si)) @ bytes_of '', Version: '' @ lo @ bytes_of ''.'' @ hi)"

text \<open>\<open>k\<close> tells the two calls apart for the parameters.\<close>

definition cdf_file_summary_info ::
  "cdf_env \<Rightarrow> nat \<Rightarrow> magic_set \<Rightarrow> cdf_header \<Rightarrow> cdf_stream \<Rightarrow> cdf_directory option \<Rightarrow> (int \<times> magic_set) answer" where
  "cdf_file_summary_info env k ms h sst root =
     (case cdf_unpack_summary_info (cv_big env) (cv_sh env k) sst h of
        Undef \<Rightarrow> Undef
      | Failed _ \<Rightarrow> Read (-1, ms)
      | Read (si, info) \<Rightarrow>
          (let props = (\<lambda>ms. bind_answer (cdf_file_property_info env ms info root) (\<lambda>(m, ms). Read (if m = -1 then -2 else m, ms))) in
           if \<not> NOTMIME ms then props ms
           else print_then ms (bytes_of ''Composite Document File V2 Document'') (-1) (\<lambda>ms.
             print_then ms (bytes_of (if si_byte_order si = 0xfffe then '', Little Endian'' else '', Big Endian'')) (-2) (\<lambda>ms.
               print_then ms (os_text si) (-2) (\<lambda>ms.
                 case (case root of None \<Rightarrow> None | Some d \<Rightarrow> cdf_clsid_to_mime (d_storage_uuid d) clsid2desc) of
                   None \<Rightarrow> props ms
                 | Some str \<Rightarrow> print_then ms (bytes_of ('', '' @ str)) (-2) props)))))"

text \<open>The name of an entry as a C string, and the first entry whose name is in a table.\<close>

definition entry_name :: "bool \<Rightarrow> cdf_directory \<Rightarrow> u8 list" where
  "entry_name big d = takeWhile (\<lambda>c. c \<noteq> 0) (map (\<lambda>x. ucast (CDF_TOLE2 big x)) (d_name d))"

fun known_name :: "bool \<Rightarrow> (string \<times> string) list \<Rightarrow> cdf_directory list \<Rightarrow> string option" where
  "known_name big nv [] = None"
| "known_name big nv (d # ds) = (case cdf_app_to_mime (entry_name big d) nv of None \<Rightarrow> known_name big nv ds | Some s \<Rightarrow> Some s)"

text \<open>The answer is the result, \<^verbatim>\<open>*expn\<close> and the state.\<close>

definition cdf_check_summary_info ::
  "cdf_env \<Rightarrow> nat \<Rightarrow> magic_set \<Rightarrow> cdf_info \<Rightarrow> cdf_header \<Rightarrow> cdf_sat \<Rightarrow> cdf_sat \<Rightarrow> cdf_stream \<Rightarrow> cdf_directory list \<Rightarrow> cdf_stream \<Rightarrow>
   cdf_directory option \<Rightarrow> string \<Rightarrow> (int \<times> string \<times> magic_set) answer" where
  "cdf_check_summary_info env k ms info h sat ssat sst dir scn root expn =
     (let big = cv_big env; out = (\<lambda>r. bind_answer r (\<lambda>(i, ms). Read (i, expn, ms))) in
      bind_answer (cdf_file_summary_info env k ms h scn root) (\<lambda>(i, ms).
        if i < 0 then Read (i, ''Can't expand summary_info'', ms)
        else if i = 1 then Read (i, expn, ms)
        else
          (let str = known_name big (if NOTMIME ms then name2desc else name2mime) dir;
               catalog = (\<lambda>i ms. if i \<le> 0 then cdf_file_catalog_info big ms info h sat ssat sst dir else Read (i, ms)) in
           out (if NOTMIME ms then (case str of None \<Rightarrow> catalog i ms | Some s \<Rightarrow> print_then ms (bytes_of s) (-1) (\<lambda>ms. Read (1, ms)))
                else if has (ms_flags ms) MAGIC_MIME_TYPE then
                  print_then ms (bytes_of (''application/'' @ (case str of None \<Rightarrow> ''vnd.ms-office'' | Some s \<Rightarrow> s))) (-1) (\<lambda>ms. Read (1, ms))
                else catalog i ms))))"

subsection \<open>Streams and storages that give a document away\<close>

record sinfo =
  si_name :: string
  si_mime :: string
  si_sections :: "(string \<times> u8) list"

definition sectioninfo :: "sinfo list" where
  "sectioninfo =
     [\<lparr>si_name = ''Encrypted'', si_mime = ''encrypted'',
       si_sections = [(''EncryptedPackage'', CDF_DIR_TYPE_USER_STREAM), (''EncryptedSummary'', CDF_DIR_TYPE_USER_STREAM)]\<rparr>,
      \<lparr>si_name = ''QuickBooks'', si_mime = ''quickbooks'', si_sections = [(''mfbu_header'', CDF_DIR_TYPE_USER_STREAM)]\<rparr>,
      \<lparr>si_name = ''Microsoft Excel'', si_mime = ''vnd.ms-excel'',
       si_sections = [(''Book'', CDF_DIR_TYPE_USER_STREAM), (''Workbook'', CDF_DIR_TYPE_USER_STREAM)]\<rparr>,
      \<lparr>si_name = ''Microsoft Word'', si_mime = ''msword'', si_sections = [(''WordDocument'', CDF_DIR_TYPE_USER_STREAM)]\<rparr>,
      \<lparr>si_name = ''Microsoft PowerPoint'', si_mime = ''vnd.ms-powerpoint'', si_sections = [(''PowerPoint Document'', CDF_DIR_TYPE_USER_STREAM)]\<rparr>,
      \<lparr>si_name = ''Microsoft Outlook Message'', si_mime = ''vnd.ms-outlook'',
       si_sections = [(''__properties_version1.0'', CDF_DIR_TYPE_USER_STREAM), (''__recip_version1.0_#00000000'', CDF_DIR_TYPE_USER_STORAGE)]\<rparr>]"

text \<open>The two inner loops of \<^verbatim>\<open>cdf_file_dir_info\<close>: the first kind of document that has a section with the type and name of an entry.\<close>

fun section_of :: "bool \<Rightarrow> cdf_directory \<Rightarrow> (sinfo \<times> string \<times> u8) list \<Rightarrow> sinfo option answer" where
  "section_of big d [] = Read None"
| "section_of big d ((si, name, type) # ss) =
     (if type \<noteq> d_type d then section_of big d ss
      else bind_answer (cdf_namecmp big (bytes_of name @ [0]) (d_name d)) (\<lambda>r. if r \<noteq> 0 then section_of big d ss else Read (Some si)))"

definition all_sections :: "(sinfo \<times> string \<times> u8) list" where
  "all_sections = concat (map (\<lambda>si. map (Pair si) (si_sections si)) sectioninfo)"

fun cdf_file_dir_info :: "bool \<Rightarrow> magic_set \<Rightarrow> cdf_directory list \<Rightarrow> (int \<times> magic_set) answer" where
  "cdf_file_dir_info big ms [] = Read (-1, ms)"
| "cdf_file_dir_info big ms (d # dir) =
     bind_answer (section_of big d all_sections) (\<lambda>r. case r of
       None \<Rightarrow> cdf_file_dir_info big ms dir
     | Some si \<Rightarrow>
         if NOTMIME ms then print_then ms (bytes_of (''CDFV2 '' @ si_name si)) (-1) (\<lambda>ms. Read (1, ms))
         else if has (ms_flags ms) MAGIC_MIME_TYPE then print_then ms (bytes_of (''application/'' @ si_mime si)) (-1) (\<lambda>ms. Read (1, ms))
         else Read (1, ms))"

subsection \<open>The detector\<close>

text \<open>After \<^verbatim>\<open>out0\<close>: what is said of a document about which nothing else was said.\<close>

definition cdf_default :: "magic_set \<Rightarrow> string \<Rightarrow> (int \<times> magic_set) answer" where
  "cdf_default ms expn =
     (if NOTMIME ms then print_then ms (bytes_of ''Composite Document File V2 Document'') (-1) (\<lambda>ms.
        if expn \<noteq> [] then print_then ms (bytes_of ('', '' @ expn)) (-1) (\<lambda>ms. Read (1, ms)) else Read (1, ms))
      else if has (ms_flags ms) MAGIC_MIME_TYPE then print_then ms (bytes_of ''application/x-ole-storage'') (-1) (\<lambda>ms. Read (1, ms))
      else Read (1, ms))"

definition cdf_leave :: "int \<Rightarrow> string \<Rightarrow> magic_set \<Rightarrow> (int \<times> magic_set) answer" where
  "cdf_leave i expn ms = (if i \<noteq> -1 then Read (i, ms) else cdf_default ms expn)"

text \<open>A call of \<^verbatim>\<open>cdf_read_summary_info\<close> or \<^verbatim>\<open>cdf_read_doc_summary_info\<close> and what follows it.\<close>

definition try_summary ::
  "cdf_env \<Rightarrow> nat \<Rightarrow> magic_set \<Rightarrow> cdf_info \<Rightarrow> cdf_header \<Rightarrow> cdf_sat \<Rightarrow> cdf_sat \<Rightarrow> cdf_stream \<Rightarrow> cdf_directory list \<Rightarrow> cdf_directory option \<Rightarrow>
   string \<Rightarrow> cdf_stream answer \<Rightarrow> (int \<times> string \<times> magic_set) answer" where
  "try_summary env k ms info h sat ssat sst dir root expn r =
     (case r of
        Undef \<Rightarrow> Undef
      | Failed e \<Rightarrow>
          Read (-1, if e = Some ESRCH \<or> e = None \<and> cv_stale env k then expn else ''Cannot read summary info'', ms)
      | Read scn \<Rightarrow> cdf_check_summary_info env k ms info h sat ssat sst dir scn root expn)"

definition HWP5_SIGNATURE :: "u8 list" where "HWP5_SIGNATURE = bytes_of ''HWP Document File''"

text \<open>The test of the stream \<^verbatim>\<open>FileHeader\<close>.\<close>

definition is_hwp :: "cdf_stream \<Rightarrow> bool answer" where
  "is_hwp scn =
     (if sst_len scn * sst_ss scn < length HWP5_SIGNATURE then Read False
      else case sst_tab scn of
          None \<Rightarrow> Undef
        | Some t \<Rightarrow> if length t < length HWP5_SIGNATURE then Undef else Read (take (length HWP5_SIGNATURE) t = HWP5_SIGNATURE))"

text \<open>\<^verbatim>\<open>file_trycdf\<close> from the reading of \<^verbatim>\<open>FileHeader\<close> on.\<close>

definition cdf_report ::
  "cdf_env \<Rightarrow> magic_set \<Rightarrow> cdf_info \<Rightarrow> cdf_header \<Rightarrow> cdf_sat \<Rightarrow> cdf_sat \<Rightarrow> cdf_stream \<Rightarrow> cdf_directory list \<Rightarrow> cdf_directory option \<Rightarrow>
   (int \<times> magic_set) answer" where
  "cdf_report env ms info h sat ssat sst dir root =
     (let big = cv_big env in
      bind_answer (case cdf_read_user_stream big info h sat ssat sst dir (bytes_of ''FileHeader'') of
                     Undef \<Rightarrow> Undef | Failed _ \<Rightarrow> Read False | Read scn \<Rightarrow> is_hwp scn) (\<lambda>hwp.
        if hwp then
          (if NOTMIME ms then print_then ms (bytes_of ''Hancom HWP (Hangul Word Processor) file, version 5.0'') (-1) (\<lambda>ms. Read (1, ms))
           else if has (ms_flags ms) MAGIC_MIME_TYPE then print_then ms (bytes_of ''application/x-hwp'') (-1) (\<lambda>ms. Read (1, ms))
           else Read (1, ms))
        else
          bind_answer (try_summary env 0 ms info h sat ssat sst dir root [] (cdf_read_summary_info big info h sat ssat sst dir)) (\<lambda>(i, expn, ms).
            bind_answer
              (if i \<le> 0 then try_summary env 1 ms info h sat ssat sst dir root expn (cdf_read_doc_summary_info big info h sat ssat sst dir)
               else Read (i, expn, ms)) (\<lambda>(i, expn, ms).
              if i \<le> 0 then
                bind_answer (cdf_file_dir_info big ms dir) (\<lambda>(i, ms). cdf_leave i (if i < 0 then ''Cannot read section info'' else expn) ms)
              else cdf_leave i expn ms))))"

text \<open>A part that could not be read gives the explanation.\<close>

definition with_part :: "magic_set \<Rightarrow> string \<Rightarrow> 'a answer \<Rightarrow> ('a \<Rightarrow> (int \<times> magic_set) answer) \<Rightarrow> (int \<times> magic_set) answer" where
  "with_part ms expn r f = (case r of Undef \<Rightarrow> Undef | Failed _ \<Rightarrow> cdf_leave (-1) expn ms | Read x \<Rightarrow> f x)"

definition file_trycdf :: "cdf_env \<Rightarrow> cdf_info \<Rightarrow> magic_set \<Rightarrow> (int \<times> magic_set) answer" where
  "file_trycdf env info ms =
     (let big = cv_big env in
      if has (ms_flags ms) (MAGIC_APPLE OR MAGIC_EXTENSION) then Read (0, ms)
      else case cdf_read_header big info of
          Undef \<Rightarrow> Undef
        | Failed _ \<Rightarrow> Read (0, ms)
        | Read h \<Rightarrow>
            with_part ms ''Can't read SAT'' (cdf_read_sat big info h) (\<lambda>sat.
            with_part ms ''Can't read SSAT'' (cdf_read_ssat big info h sat) (\<lambda>ssat.
            with_part ms ''Can't read directory'' (cdf_read_dir big info h sat) (\<lambda>dir.
            with_part ms ''Cannot read short stream'' (cdf_read_short_stream big info h sat dir) (\<lambda>(sst, root).
              cdf_report env ms info h sat ssat sst dir root)))))"

end
