(* ===== verification/Cdf_Safe.thy ===== *)
theory Cdf_Safe
  imports Readcdf
begin

text \<open>
  The compound document detector stays inside its arrays.  What the readers of \<^verbatim>\<open>src/cdf.c\<close> deliver is described by predicates
  (\<open>stream_ok\<close> of \<^theory_text>\<open>Cdf_Chains\<close>, \<open>info_ok\<close> for property sets, \<open>catalog_ok\<close> for catalogs) that the reports of \<^verbatim>\<open>src/readcdf.c\<close> rely on.
\<close>

subsection \<open>Places in a stream\<close>

abbreviation (input) extent :: "cdf_stream \<Rightarrow> int" where "extent s \<equiv> int (sst_ss s * sst_len s)"

lemma check_stream_ok: "stream_ok h s \<Longrightarrow> cdf_check_stream s h = Read (sst_ss s)"
  by (simp add: cdf_check_stream_def stream_ok_def Let_def)

lemma check_offset_safe:
  assumes "stream_ok h s"
  shows "safe (\<lambda>_. 0 \<le> p + int tail \<and> p + int tail \<le> extent s) (cdf_check_stream_offset s h p tail)"
  by (simp add: cdf_check_stream_offset_def check_stream_ok [OF assms])

lemma stream_extent: "stream_ok h s \<Longrightarrow> extent s \<le> int (length (stream_bytes s))"
  by (auto simp: stream_ok_def stream_bytes_def mult.commute simp flip: of_nat_mult)

lemma bytes_at_safe:
  assumes "stream_ok h s" "0 \<le> p" "p + int k \<le> extent s"
  shows "safe (\<lambda>bs. length bs = k) (bytes_at s p k)"
  using stream_extent [OF assms(1)] assms(2,3) by (auto simp: bytes_at_def bytes_field_def)

lemma getuint32_safe:
  assumes "stream_ok h s" "0 \<le> p" "p + 4 * int offs + 4 \<le> extent s"
  shows "safe (\<lambda>_. True) (cdf_getuint32 big s p offs)"
  unfolding cdf_getuint32_def by (rule safe_bind [OF bytes_at_safe [OF assms(1)]]) (use assms in auto)

lemma safe_if: "(c \<Longrightarrow> safe Q a) \<Longrightarrow> (\<not> c \<Longrightarrow> safe Q b) \<Longrightarrow> safe Q (if c then a else b)"
  by simp

lemma safe_or_fail [simp]: "safe Q (or_fail e r) \<longleftrightarrow> safe Q r"
  by (cases r) auto

subsection \<open>Property sets\<close>

text \<open>An entry whose value has the form that its type announces, and an array of entries in which one that was not initialised comes
  after a vector.\<close>

definition value_ok :: "cdf_property_info \<Rightarrow> bool" where
  "value_ok pr \<longleftrightarrow>
     (pi_type pr \<in> {CDF_SIGNED16, CDF_SIGNED32, CDF_UNSIGNED32, CDF_FLOAT, CDF_DOUBLE, CDF_FILETIME} \<longrightarrow> (\<exists>n. pi_val pr = Pi_num n)) \<and>
     (pi_type pr \<in> {CDF_LENGTH32_STRING, CDF_LENGTH32_WSTRING} \<longrightarrow> (\<exists>s. pi_val pr = Pi_str s))"

fun info_ok :: "cdf_property_info option list \<Rightarrow> bool" where
  "info_ok [] \<longleftrightarrow> True"
| "info_ok (None # info) \<longleftrightarrow> False"
| "info_ok (Some pr # info) \<longleftrightarrow> value_ok pr \<and> (has (pi_type pr) CDF_VECTOR \<or> info_ok info)"

lemma info_ok_append: "info_ok xs \<Longrightarrow> info_ok ys \<Longrightarrow> info_ok (xs @ ys)"
  by (induction xs rule: info_ok.induct) auto

lemma info_ok_vector: "value_ok pr \<Longrightarrow> m \<le> 1 \<or> has (pi_type pr) CDF_VECTOR \<Longrightarrow> info_ok (Some pr # replicate (m - 1) None)"
  by auto

lemma uint_ge: "\<not> unat x < n \<Longrightarrow> int n \<le> uint x"
  by (metis not_less of_nat_le_iff uint_nat)

lemma property_pos_safe:
  assumes "stream_ok h s" "0 \<le> p"
  shows "safe (\<lambda>q. p \<le> q \<and> q \<le> e \<and> p + 8 * int i + 8 \<le> extent s) (cdf_get_property_info_pos big s h p e i)"
proof -
  have c: "safe (\<lambda>_. p + 8 * int i + 8 \<le> extent s) (or_fail None (cdf_check_stream_offset s h p ((2 * i + 1 + 1) * 4)))"
    using safe_mono [OF check_offset_safe [OF assms(1), of p "(2 * i + 1 + 1) * 4"], of "\<lambda>_. p + 8 * int i + 8 \<le> extent s"] by simp
  have g: "safe (\<lambda>_. True) (cdf_getuint32 big s p (2 * i + 1))" if "p + 8 * int i + 8 \<le> extent s"
    using that assms by (intro getuint32_safe) auto
  show ?thesis
    unfolding cdf_get_property_info_pos_def Let_def by (intro safe_if safe_bind [OF c] safe_bind [OF g]) (auto dest: uint_ge)
qed

lemma copy_info_safe:
  assumes "stream_ok h s" "0 \<le> p" "p \<le> e" "e \<le> extent s" "len \<in> {2, 4, 8}"
  shows "safe (\<lambda>_. True) (cdf_copy_info big s ty p e len)"
proof (cases "(e - p) mod 2 ^ 64 < int len")
  case False
  have "(e - p) mod 2 ^ 64 \<le> e - p" using assms(3) by (intro zmod_le_nonneg_dividend) simp
  then have "p + int len \<le> extent s" using False assms(4) by linarith
  from bytes_at_safe [OF assms(1,2) this] show ?thesis
    unfolding cdf_copy_info_def using False assms(5) by (intro safe_if safe_bind [where P = "\<lambda>bs. length bs = len"]) auto
qed (simp add: cdf_copy_info_def)

lemma string_loop_safe:
  assumes "stream_ok h s" "0 \<le> q" "q + int left \<le> extent s"
  shows "safe (\<lambda>ss. length ss = m) (string_loop big s q left slen (slen * 4) m)"
proof (induction m arbitrary: slen)
  case (Suc m)
  show ?case
  proof (cases "left < slen * 4 + 4")
    case False
    then have g: "safe (\<lambda>_. True) (cdf_getuint32 big s q slen)" using assms by (intro getuint32_safe) auto
    have b: "safe (\<lambda>_. True) (bytes_at s (q + int (slen * 4 + 4)) (unat l))" if "\<not> left < slen * 4 + 4 + unat l" for l :: u32
    proof (rule safe_mono [OF bytes_at_safe [OF assms(1)]])
      show "q + int (slen * 4 + 4) + int (unat l) \<le> extent s" using that assms(3) by linarith
    qed (use assms in auto)
    show ?thesis
      unfolding string_loop.simps Let_def by (intro safe_if safe_bind [OF g] safe_bind [OF b] safe_bind [OF Suc]) auto
  qed simp
qed simp

lemma property_value_safe:
  assumes "stream_ok h s" "0 \<le> q" "q + 4 * int slen \<le> e" "e \<le> extent s" "0 < nelements" "0 < room"
    and "has ty CDF_VECTOR \<or> nelements = 1"
  shows "safe (\<lambda>(v, m, mc). value_ok \<lparr>pi_id = i, pi_type = ty, pi_val = v\<rparr> \<and> (m \<le> 1 \<or> has ty CDF_VECTOR))
    (property_value big s ty q e nelements slen room maxcount)"
proof -
  have c: "safe (\<lambda>_. True) (cdf_copy_info big s ty (q + int (slen * 4)) e len)" if "len \<in> {2, 4, 8}" for len
    using that assms by (intro copy_info_safe) auto
  have st: "safe (\<lambda>ss. length ss = m) (string_loop big s q (nat (e - q)) slen (slen * 4) m)" for m
    using assms by (intro string_loop_safe) auto
  have grow: "safe (\<lambda>_. True) (if nelements > 1 then or_fail (Some EFTYPE) (cdf_grow_info maxcount nelements) else Read maxcount)"
    by (auto simp: cdf_grow_info_def)
  have "safe (\<lambda>(v, m, mc). (\<exists>n. v = Pi_num n) \<and> m = 1) (bind_answer (cdf_copy_info big s ty (q + int (slen * 4)) e len) (\<lambda>v.
      Read ((case v of None \<Rightarrow> Pi_num 0 | Some n \<Rightarrow> Pi_num n), 1, maxcount)))" if "len \<in> {2, 4, 8}" for len
    by (rule safe_bind [OF c [OF that]]) (auto split: option.split)
  note num = safe_mono [OF this]
  show ?thesis
    unfolding property_value_def Let_def
    using assms(7) by (intro safe_if num safe_bind [OF grow] safe_bind [OF st]) (auto simp: value_ok_def has_def)
qed


lemma property_loop_safe:
  assumes "stream_ok h s" "0 \<le> p" "e \<le> extent s"
  shows "info_ok inp \<Longrightarrow> safe (\<lambda>(info, mc). info_ok info) (property_loop big s h p e n i maxcount inp)"
proof (induction "n - i" arbitrary: i maxcount inp rule: less_induct)
  case less
  have pos: "safe (\<lambda>q. p \<le> q \<and> q \<le> e \<and> p + 8 * int i + 8 \<le> extent s) (or_fail (Some EFTYPE) (cdf_get_property_info_pos big s h p e i))"
    using property_pos_safe [OF assms(1,2)] by simp
  have idn: "safe (\<lambda>_. True) (cdf_getuint32 big s p (2 * i))" if "p + 8 * int i + 8 \<le> extent s"
    using that assms by (intro getuint32_safe) auto
  have at: "safe (\<lambda>_. True) (cdf_getuint32 big s q k)" if "p \<le> q" "q \<le> e" "\<not> nat (e - q) < 4 * k + 4" for q k
    using that assms by (intro getuint32_safe) auto
  have vec: "safe (\<lambda>(ne, slen). 0 < ne \<and> q + 4 * int slen \<le> e \<and> (has ty CDF_VECTOR \<or> ne = 1))
      (if has ty CDF_VECTOR then
         (if nat (e - q) < 8 then bad
          else bind_answer (cdf_getuint32 big s q 1) (\<lambda>k. if unat k > CDF_ELEMENT_LIMIT \<or> k = 0 then bad else Read (unat k, 2)))
       else Read (1, 1))" if "p \<le> q" "q \<le> e" "\<not> nat (e - q) < 4" for q ty
    using that by (intro safe_if safe_bind [OF at]) (auto simp: unat_gt_0)
  have val: "safe (\<lambda>(v, m, mc). value_ok \<lparr>pi_id = idn, pi_type = ty, pi_val = v\<rparr> \<and> (m \<le> 1 \<or> has ty CDF_VECTOR))
      (property_value big s ty q e ne slen (n - i) maxcount)"
    if "p \<le> q" "0 < ne \<and> q + 4 * int slen \<le> e \<and> (has ty CDF_VECTOR \<or> ne = 1)" "\<not> n \<le> i" for q ty ne slen idn
    using that assms by (intro property_value_safe [OF assms(1)]) auto
  have nxt: "safe (\<lambda>(info, mc). info_ok info) (property_loop big s h p e n (i + max 1 m) mc
      (inp @ Some \<lparr>pi_id = idn, pi_type = ty, pi_val = v\<rparr> # replicate (m - 1) None))"
    if "value_ok \<lparr>pi_id = idn, pi_type = ty, pi_val = v\<rparr>" "m \<le> 1 \<or> has ty CDF_VECTOR" "\<not> n \<le> i" for idn ty v m mc
    using that less.prems by (intro less.hyps info_ok_append info_ok_vector) auto
  have step: "safe (\<lambda>(info, mc). info_ok info) (bind_answer (property_value big s ty q e ne slen (n - i) maxcount) (\<lambda>(v, m, mc).
      property_loop big s h p e n (i + max 1 m) mc (inp @ Some \<lparr>pi_id = idn, pi_type = ty, pi_val = v\<rparr> # replicate (m - 1) None)))"
    if "p \<le> q" "0 < ne" "q + 4 * int slen \<le> e" "has ty CDF_VECTOR \<or> ne = 1" "\<not> n \<le> i" for q ty ne slen idn
  proof (rule safe_bind [OF val])
    fix x :: "pi_value \<times> nat \<times> nat"
    assume "case x of (v, m, mc) \<Rightarrow> value_ok \<lparr>pi_id = idn, pi_type = ty, pi_val = v\<rparr> \<and> (m \<le> 1 \<or> has ty CDF_VECTOR)"
    then show "safe (\<lambda>(info, mc). info_ok info) (case x of (v, m, mc) \<Rightarrow>
      property_loop big s h p e n (i + max 1 m) mc (inp @ Some \<lparr>pi_id = idn, pi_type = ty, pi_val = v\<rparr> # replicate (m - 1) None))"
      using nxt that(5) by (cases x) (simp only: prod.case, blast)
  qed (use that in auto)
  show ?case
    by (subst property_loop.simps, unfold Let_def,
        intro safe_if safe_bind [OF pos] safe_bind [OF idn] safe_bind [OF at] safe_bind [OF vec])
      (auto simp: less.prems simp del: property_loop.simps intro!: step [simplified])
qed


lemma read_property_info_safe:
  assumes "stream_ok h s" "info_ok info"
  shows "safe (\<lambda>(info, mc). info_ok info) (cdf_read_property_info big sh_at s h offs info maxcount)"
proof -
  have get: "safe (\<lambda>_. True) (cdf_getuint32 big s (uint offs) k)" if "0 \<le> uint offs + int 8 \<and> uint offs + int 8 \<le> extent s" "k \<le> 1" for k
    using that by (intro getuint32_safe [OF assms(1)]) auto
  have grow: "safe (\<lambda>_. True) (or_fail (Some EFTYPE) (cdf_grow_info m k))" for m k
    by (simp add: cdf_grow_info_def)
  show ?thesis
    unfolding cdf_read_property_info_def Let_def
    by (intro safe_if safe_bind [OF check_offset_safe [OF assms(1)]] safe_bind [OF get] safe_bind [OF grow] property_loop_safe [OF assms(1)])
      (auto simp: assms(2))
qed

lemma unpack_summary_safe:
  assumes "stream_ok h s"
  shows "safe (\<lambda>(si, info). info_ok info) (cdf_unpack_summary_info big sh_at s h)"
proof -
  have "safe (\<lambda>_. True) (bytes_at s 0 48)" if "0 \<le> 0x1c + int 20 \<and> 0x1c + int 20 \<le> extent s"
    using that by (intro safe_mono [OF bytes_at_safe [OF assms]]) auto
  then show ?thesis
    unfolding cdf_unpack_summary_info_def
    by (intro safe_bind [OF check_offset_safe [OF assms]] safe_bind [where P = "\<lambda>_. True" and r = "bytes_at s 0 48"]
          safe_bind [OF read_property_info_safe [OF assms]]) auto
qed

subsection \<open>Catalogs\<close>

text \<open>Entries whose names fill their arrays, those before \<open>j\<close> with a length inside.\<close>

definition catalog_ok :: "nat \<Rightarrow> nat \<Rightarrow> cdf_catalog_entry list \<Rightarrow> bool" where
  "catalog_ok n j ce \<longleftrightarrow> length ce = n \<and> (\<forall>c \<in> set ce. length (ce_name c) = 256) \<and> (\<forall>k < j. unat (ce_namlen (ce ! k)) \<le> 255)"

lemma catalog_ok_mono: "catalog_ok n k ce \<Longrightarrow> j \<le> k \<Longrightarrow> catalog_ok n j ce"
  by (auto simp: catalog_ok_def)

lemma upd_entry_ok:
  assumes "catalog_ok n j ce" "j \<le> k" "k < n" "\<And>c. length (ce_name (f c)) = length (ce_name c)"
  shows "catalog_ok n j (upd_entry k f ce)"
  using assms by (auto simp: catalog_ok_def upd_entry_def dest!: set_update_subset_insert [THEN subsetD])

lemma extract_ok:
  assumes "catalog_ok n j ce" "j \<le> i" "i < n" "extract_fields big t eb b i j ce = (ok, ce')"
  shows "catalog_ok n j ce'"
proof -
  have "j < n" using assms by simp
  then show ?thesis using assms by (auto simp: extract_fields_def Let_def intro!: upd_entry_ok split: if_splits)
qed

lemma named_ok:
  assumes "catalog_ok n j ce" "j < n" "m \<le> 255" "length nm = m"
  shows "catalog_ok n (Suc j) (upd_entry j (\<lambda>c. c\<lparr>ce_namlen := word_of_nat m, ce_name := (nm @ drop m (ce_name c))[m := 0]\<rparr>) ce)"
  using assms by (auto simp: catalog_ok_def upd_entry_def less_Suc_eq unat_word_of_nat dest!: set_update_subset_insert [THEN subsetD])

lemma catalog_loop_ok:
  assumes "catalog_ok n j ce" "i = Suc j \<or> i = 0 \<and> j = 0" "j \<le> n"
  shows "case catalog_loop big t eb n i j b ce of (num, ce) \<Rightarrow> num \<le> n \<and> catalog_ok n num ce"
  using assms
proof (induction big t eb n i j b ce rule: catalog_loop.induct)
  case (1 big t eb n i j b ce)
  show ?case
  proof (cases "n \<le> i")
    case True
    then show ?thesis using 1 by (subst catalog_loop.simps) simp
  next
    case False
    obtain ok ce' where e: "extract_fields big t eb b i j ce = (ok, ce')" by fastforce
    have j: "j \<le> i" "j < n" using 1(4) False by auto
    have c: "catalog_ok n j ce'" using extract_ok [OF 1(3) j(1) _ e] False by simp
    note ih = 1(1,2) [OF False e [symmetric] refl refl refl]
    let ?r = "unat (ce_namlen (ce' ! j))" and ?zero = "upd_entry j (ce_namlen_update (\<lambda>_. 0)) ce'"
    let ?m = "min 255 (unat (ce_namlen (ce' ! j)) - 14)"
    let ?named = "upd_entry j (\<lambda>c. c\<lparr>ce_namlen := word_of_nat ?m,
      ce_name := (map (\<lambda>k. word_field big t (b + 16 + 2 * k) 2) [0..<?m] @ drop ?m (ce_name c))[?m := 0]\<rparr>) ce'"
    have z: "catalog_ok n j ?zero" using c j by (intro upd_entry_ok) auto
    have "catalog_ok n (Suc j) ?named" by (rule named_ok [OF c j(2)]) simp_all
    then have named: "catalog_ok n i ?named" by (rule catalog_ok_mono) (use 1(4) in auto)
    have eq: "catalog_loop big t eb n i j b ce =
        (if \<not> ok \<or> ?r = 0 then (j, ce') else if ?r < 14 then catalog_loop big t eb n i j (b + ?r) ?zero
         else if b + 16 + 2 * ?m > eb then (j, ?zero) else catalog_loop big t eb n (Suc i) i (b + ?r) ?named)"
      using False by (subst catalog_loop.simps) (simp only: e Let_def prod.case if_False)
    consider "\<not> ok \<or> ?r = 0" | "\<not> (\<not> ok \<or> ?r = 0)" "?r < 14" | "\<not> (\<not> ok \<or> ?r = 0)" "\<not> ?r < 14" "b + 16 + 2 * ?m > eb"
      | "\<not> (\<not> ok \<or> ?r = 0)" "\<not> ?r < 14" "\<not> b + 16 + 2 * ?m > eb" by argo
    then show ?thesis
    proof cases
      case 2
      from ih(1) [OF this z 1(4,5)] show ?thesis unfolding eq using 2 by (simp only: if_False if_True)
    next
      case 4
      have "i \<le> n" using False by simp
      from ih(2) [OF 4 named _ this] show ?thesis unfolding eq using 4 by (simp only: if_False simp_thms)
    qed (use c z j in \<open>simp_all only: eq if_True if_False prod.case less_imp_le simp_thms\<close>)
  qed
qed


lemma unpack_catalog_safe:
  assumes "stream_ok h s"
  shows "safe (\<lambda>(num, ce). num \<le> length ce \<and> catalog_ok (length ce) num ce) (cdf_unpack_catalog big h s)"
proof -
  have b: "safe (\<lambda>_. True) (bytes_at s 0 (sst_ss s * sst_len s))"
    by (rule safe_mono [OF bytes_at_safe [OF assms]]) auto
  have "case catalog_loop big t eb n 0 0 0 (replicate n ce0) of (num, ce) \<Rightarrow> num \<le> length ce \<and> catalog_ok (length ce) num ce" for t eb n
    using catalog_loop_ok [of n 0 "replicate n ce0" 0 big t eb 0] by (auto simp: catalog_ok_def ce0_def)
  then show ?thesis
    unfolding cdf_unpack_catalog_def check_stream_ok [OF assms] bind_answer.simps Let_def
    by (intro safe_bind [OF b] safe_if) (simp_all only: safe_simps)
qed

subsection \<open>Answers of the detector\<close>

text \<open>A function of \<^verbatim>\<open>readcdf.c\<close> returns, with a result of \<open>R\<close>.\<close>

definition returns :: "int set \<Rightarrow> (int \<times> 'a) answer \<Rightarrow> bool" where
  "returns R r \<longleftrightarrow> (\<exists>i x. r = Read (i, x) \<and> i \<in> R)"

lemma returns_simps [simp]: "returns R (Read (i, x)) \<longleftrightarrow> i \<in> R" "\<not> returns R (Failed e)" "\<not> returns R Undef"
  by (simp_all add: returns_def)

lemma returns_bind: "returns P r \<Longrightarrow> (\<And>i x. i \<in> P \<Longrightarrow> returns Q (f (i, x))) \<Longrightarrow> returns Q (bind_answer r f)"
  by (auto simp: returns_def)

lemma returns_mono: "returns P r \<Longrightarrow> P \<subseteq> Q \<Longrightarrow> returns Q r"
  by (auto simp: returns_def)

lemma returns_if: "(c \<Longrightarrow> returns Q a) \<Longrightarrow> (\<not> c \<Longrightarrow> returns Q b) \<Longrightarrow> returns Q (if c then a else b)"
  by simp

lemma returns_print: "err \<in> Q \<Longrightarrow> (\<And>ms. returns Q (f ms)) \<Longrightarrow> returns Q (print_then ms t err f)"
  by (auto simp: print_then_def split: prod.split)

lemma returns_case: "safe P r \<Longrightarrow> (\<And>e. returns Q (f e)) \<Longrightarrow> (\<And>x. P x \<Longrightarrow> returns Q (g x)) \<Longrightarrow>
    returns Q (case r of Undef \<Rightarrow> Undef | Failed e \<Rightarrow> f e | Read x \<Rightarrow> g x)"
  by (cases r) auto

lemma property_action_vector: "has (pi_type pr) CDF_VECTOR \<Longrightarrow> property_action env pr = Read Stop_report"
  by (auto simp: property_action_def has_def Let_def)

lemma property_action_defined:
  assumes "value_ok pr"
  shows "\<exists>a. property_action env pr = Read a"
proof -
  let ?nums = "{CDF_SIGNED16, CDF_SIGNED32, CDF_UNSIGNED32, CDF_FLOAT, CDF_DOUBLE, CDF_FILETIME}"
  let ?strs = "{CDF_LENGTH32_STRING, CDF_LENGTH32_WSTRING}"
  consider n where "pi_type pr \<in> ?nums" "pi_val pr = Pi_num n" | s where "pi_type pr \<in> ?strs" "pi_val pr = Pi_str s"
    | "pi_type pr \<notin> ?nums" "pi_type pr \<notin> ?strs"
    using assms unfolding value_ok_def by blast
  then show ?thesis
  proof cases
    case 1
    then show ?thesis by (elim insertE emptyE) (simp_all add: property_action_def num_of_def)
  next
    case 2
    then show ?thesis by (elim insertE emptyE) (simp_all add: property_action_def)
  next
    case 3
    then show ?thesis by (simp add: property_action_def Let_def)
  qed
qed

lemma property_report_returns: "info_ok info \<Longrightarrow> returns {-1, 0, 1} (property_report env ms info str)"
proof (induction info arbitrary: ms str)
  case Nil
  then show ?case by (auto intro!: returns_print split: option.split)
next
  case (Cons e info)
  then obtain pr where pr: "e = Some pr" "value_ok pr" by (cases e) auto
  show ?case
  proof (cases "has (pi_type pr) CDF_VECTOR")
    case True
    then show ?thesis by (simp add: pr(1) property_action_vector)
  next
    case False
    then have ih: "returns {-1, 0, 1} (property_report env ms info str)" for ms str using Cons pr by simp
    obtain a where "property_action env pr = Read a" using property_action_defined [OF pr(2)] by blast
    then show ?thesis unfolding pr(1) property_report.simps Let_def by (cases a) (simp_all add: ih returns_print)
  qed
qed


lemma u16tos8_ok: "length p = 256 \<Longrightarrow> n \<le> 255 \<Longrightarrow> \<exists>t. cdf_u16tos8 n p = Read t"
  using length_takeWhile_le [of "\<lambda>c. c \<noteq> 0" "take n p"] by (auto simp: cdf_u16tos8_def Let_def)

lemma catalog_report_returns:
  assumes "\<forall>c \<in> set ce. length (ce_name c) = 256" "\<forall>k < num - i. unat (ce_namlen (ce ! k)) \<le> 255" "num \<le> i + length ce"
  shows "returns {-1, 1} (catalog_report ms num i ce)"
  using assms
proof (induction ce arbitrary: ms i)
  case (Cons c ce)
  show ?case
  proof (cases "num \<le> i")
    case False
    then have "unat (ce_namlen c) \<le> 255" using Cons.prems(2) by (metis nth_Cons_0 zero_less_diff not_less)
    then obtain t where t: "cdf_u16tos8 (unat (ce_namlen c)) (ce_name c) = Read t" using u16tos8_ok Cons.prems(1) by fastforce
    have "unat (ce_namlen (ce ! k)) \<le> 255" if "k < num - Suc i" for k using Cons.prems(2) [rule_format, of "Suc k"] that by simp
    then have "returns {-1, 1} (catalog_report ms num (Suc i) ce)" for ms using Cons.prems by (intro Cons.IH) auto
    then show ?thesis using False t by (simp add: returns_print)
  qed simp
qed simp

lemma in_tl: "x \<in> set (tl xs) \<Longrightarrow> x \<in> set xs"
  by (cases xs) auto

lemma file_catalog_returns:
  assumes "stream_ok h s"
  shows "returns {-1, 1} (cdf_file_catalog big ms h s)"
proof -
  have "returns {-1, 1} (catalog_report ms num 1 (tl ce))" if "num \<le> length ce" "catalog_ok (length ce) num ce" for ms num ce
    using that by (intro catalog_report_returns) (auto simp: catalog_ok_def nth_tl dest: in_tl)
  then have "returns {-1, 1} (case cdf_unpack_catalog big h s of Undef \<Rightarrow> Undef | Failed x \<Rightarrow> Read (-1, ms)
      | Read (num, ce) \<Rightarrow> catalog_report ms num 1 (tl ce))" for ms
    by (intro returns_case [OF unpack_catalog_safe [OF assms]]) auto
  then show ?thesis unfolding cdf_file_catalog_def by (intro returns_if returns_print) auto
qed

subsection \<open>Names\<close>

lemma namecmp_read: "length d \<le> length s \<Longrightarrow> \<exists>r. cdf_namecmp big d s = Read r"
  by (induction big d s rule: cdf_namecmp.induct) auto

abbreviation (input) dir_ok :: "cdf_directory list \<Rightarrow> bool" where "dir_ok dir \<equiv> \<forall>d \<in> set dir. length (d_name d) = 32"

lemma find_entry_safe:
  assumes "length name < 32" "dir_ok dir"
  shows "safe (\<lambda>_. True) (find_entry big name type i dir)"
  using assms(2)
proof (induction dir arbitrary: i)
  case (Cons d dir)
  obtain r where "cdf_namecmp big (name @ [0]) (d_name d) = Read r" using namecmp_read [of "name @ [0]" "d_name d"] Cons.prems assms(1) by auto
  then show ?case using Cons by simp
qed simp

lemma user_stream_safe:
  assumes "sat_ok sat (CDF_SEC_SIZE h)" "sat_ok ssat (CDF_SEC_SIZE h)" "container_ok h sst" "dir_ok dir" "length name < 32"
  shows "safe (stream_ok h) (cdf_read_user_stream big info h sat ssat sst dir name)"
  unfolding cdf_read_user_stream_def cdf_find_stream_def Let_def
  by (intro safe_bind [OF find_entry_safe [OF assms(5,4)]] sector_chain_safe [OF assms(1-3)])

lemma section_of_read:
  assumes "length (d_name d) = 32" "\<forall>(si, name, type) \<in> set ss. length name < 32"
  shows "\<exists>r. section_of big d ss = Read r"
  using assms(2)
proof (induction ss)
  case (Cons x ss)
  obtain si name type where x: "x = (si, name, type)" by (cases x)
  obtain r where "cdf_namecmp big (bytes_of name @ [0]) (d_name d) = Read r"
    using namecmp_read [of "bytes_of name @ [0]" "d_name d"] Cons.prems assms(1) x by (auto simp: bytes_of_def)
  then show ?case using Cons x by simp
qed simp

lemma section_names: "\<forall>(si, name, type) \<in> set all_sections. length name < 32"
  by (simp add: all_sections_def sectioninfo_def)

lemma dir_info_returns: "dir_ok dir \<Longrightarrow> returns {-1, 1} (cdf_file_dir_info big ms dir)"
proof (induction dir)
  case (Cons d dir)
  obtain r where "section_of big d all_sections = Read r" using section_of_read [OF _ section_names, of d big] Cons.prems by auto
  then show ?case using Cons by (auto intro!: returns_print split: option.split)
qed simp

subsection \<open>The detector\<close>

lemma is_hwp_read: "stream_ok h s \<Longrightarrow> \<exists>b. is_hwp s = Read b"
  by (auto simp: is_hwp_def stream_ok_def)

lemma leave_returns: "i \<in> {-1, 1} \<Longrightarrow> returns {-1, 1} (cdf_leave i expn ms)"
  by (auto simp: cdf_leave_def cdf_default_def intro!: returns_print)

lemma summary_info_returns:
  assumes "stream_ok h s"
  shows "returns {-2, -1, 0, 1} (cdf_file_summary_info env k ms h s root)"
proof -
  have "returns {-2, -1, 0, 1} (bind_answer (cdf_file_property_info env ms info root) (\<lambda>(m, ms). Read (if m = -1 then -2 else m, ms)))"
    if "info_ok info" for ms info
    unfolding cdf_file_property_info_def by (rule returns_bind [OF property_report_returns [OF that]]) auto
  then show ?thesis
    unfolding cdf_file_summary_info_def
    by (intro returns_case [OF unpack_summary_safe [OF assms]]) (auto simp: Let_def intro!: returns_print split: option.split)
qed

text \<open>What the parts of a document satisfy once they are read.\<close>

definition parts_ok :: "cdf_header \<Rightarrow> cdf_sat \<Rightarrow> cdf_sat \<Rightarrow> cdf_stream \<Rightarrow> cdf_directory list \<Rightarrow> bool" where
  "parts_ok h sat ssat sst dir \<longleftrightarrow>
     sat_ok sat (CDF_SEC_SIZE h) \<and> sat_ok ssat (CDF_SEC_SIZE h) \<and> container_ok h sst \<and> (\<forall>d \<in> set dir. length (d_name d) = 32)"

lemma parts_stream:
  "parts_ok h sat ssat sst dir \<Longrightarrow> length name < 32 \<Longrightarrow> safe (stream_ok h) (cdf_read_user_stream big info h sat ssat sst dir name)"
  unfolding parts_ok_def by (blast intro: user_stream_safe)

lemma catalog_info_returns:
  assumes "parts_ok h sat ssat sst dir"
  shows "returns {-1, 1} (cdf_file_catalog_info big ms info h sat ssat sst dir)"
  unfolding cdf_file_catalog_info_def
  by (rule returns_case [OF parts_stream [OF assms]]) (auto simp: bytes_of_def intro: file_catalog_returns)

lemma check_summary_returns:
  assumes "parts_ok h sat ssat sst dir" "stream_ok h scn"
  shows "returns {-2, -1, 0, 1} (cdf_check_summary_info env k ms info h sat ssat sst dir scn root expn)"
proof -
  have c: "returns {-2, -1, 0, 1} (bind_answer r (\<lambda>(i, ms). Read (i, expn, ms)))" if "returns {-1, 1} r" for r :: "(int \<times> magic_set) answer"
    by (rule returns_bind [OF that]) auto
  show ?thesis
    unfolding cdf_check_summary_info_def Let_def
    by (rule returns_bind [OF summary_info_returns [OF assms(2)]])
      (auto intro!: c returns_print catalog_info_returns [OF assms(1)] split: option.split)
qed


lemma try_summary_returns:
  assumes "parts_ok h sat ssat sst dir" "safe (stream_ok h) r"
  shows "returns {-2, -1, 0, 1} (try_summary env k ms info h sat ssat sst dir root expn r)"
  unfolding try_summary_def by (rule returns_case [OF assms(2)]) (auto intro: check_summary_returns [OF assms(1)])

lemma cdf_report_returns:
  assumes "parts_ok h sat ssat sst dir"
  shows "returns {-1, 1} (cdf_report env ms info h sat ssat sst dir root)"
proof -
  have "safe (stream_ok h) (cdf_read_user_stream (cv_big env) info h sat ssat sst dir (bytes_of ''FileHeader''))"
    by (rule parts_stream [OF assms]) (simp add: bytes_of_def)
  then obtain b where b: "(case cdf_read_user_stream (cv_big env) info h sat ssat sst dir (bytes_of ''FileHeader'') of
      Undef \<Rightarrow> Undef | Failed x \<Rightarrow> Read False | Read scn \<Rightarrow> is_hwp scn) = Read b"
    by (cases "cdf_read_user_stream (cv_big env) info h sat ssat sst dir (bytes_of ''FileHeader'')") (auto dest: is_hwp_read)
  have s: "safe (stream_ok h) (cdf_read_summary_info (cv_big env) info h sat ssat sst dir)"
    "safe (stream_ok h) (cdf_read_doc_summary_info (cv_big env) info h sat ssat sst dir)"
    unfolding cdf_read_summary_info_def cdf_read_doc_summary_info_def
    by (rule parts_stream [OF assms], simp add: bytes_of_def)+
  have d: "returns {-1, 1} (bind_answer (cdf_file_dir_info (cv_big env) ms dir) (\<lambda>(i, ms). cdf_leave i (f i) ms))" for ms f
    using assms unfolding parts_ok_def by (intro returns_bind [OF dir_info_returns]) (auto intro: leave_returns)
  have e: "returns {-2, -1, 0, 1} (if i \<le> 0 then try_summary env 1 ms info h sat ssat sst dir root expn
      (cdf_read_doc_summary_info (cv_big env) info h sat ssat sst dir) else Read (i, expn, ms))" if "i \<in> {-2, -1, 0, 1}" for i expn ms
    using that try_summary_returns [OF assms s(2)] by auto
  have f: "returns {-1, 1} (case (i, x) of (i, expn, ms) \<Rightarrow> if i \<le> 0 then
      bind_answer (cdf_file_dir_info (cv_big env) ms dir) (\<lambda>(i, ms). cdf_leave i (if i < 0 then ''Cannot read section info'' else expn) ms)
      else cdf_leave i expn ms)" if "i \<in> {-2, -1, 0, 1}" for i x
    using that d leave_returns [of i] by (cases x) auto
  have g: "returns {-1, 1} (bind_answer (if i \<le> 0 then try_summary env 1 ms info h sat ssat sst dir root expn
      (cdf_read_doc_summary_info (cv_big env) info h sat ssat sst dir) else Read (i, expn, ms)) (\<lambda>(i, expn, ms). if i \<le> 0 then
      bind_answer (cdf_file_dir_info (cv_big env) ms dir) (\<lambda>(i, ms). cdf_leave i (if i < 0 then ''Cannot read section info'' else expn) ms)
      else cdf_leave i expn ms))" if "i \<in> {-2, -1, 0, 1}" for i expn ms
    by (rule returns_bind [OF e [OF that]]) (rule f)
  show ?thesis
    unfolding cdf_report_def Let_def b bind_answer.simps
    by (intro returns_if returns_print returns_bind [OF try_summary_returns [OF assms s(1)]], simp_all)
      (split prod.split, use g in simp)
qed

lemma with_part_returns:
  assumes "safe P r" "\<And>x. P x \<Longrightarrow> returns {-1, 1} (f x)"
  shows "returns {-1, 1} (with_part ms expn r f)"
  unfolding with_part_def by (rule returns_case [OF assms(1)]) (auto intro: leave_returns assms(2))


lemma never_read: "(\<And>x. r \<noteq> Read x) \<Longrightarrow> safe Q r \<Longrightarrow> \<exists>e. r = Failed e"
  by (cases r) auto

lemma bind_read: "bind_answer r f = Read y \<longleftrightarrow> (\<exists>x. r = Read x \<and> f x = Read y)"
  by (cases r) auto

subsection \<open>Properties\<close>


text \<open>C31.  Summaries are refused.  The section of properties is measured from the address of the local copy \<^verbatim>\<open>sh\<close> of its header and
  not from its place in the stream; as long as that local variable does not lie inside the bytes of the stream, which it never
  does, \<^verbatim>\<open>cdf_unpack_summary_info\<close> fails on every stream that a reader delivers, and no property is ever reported.\<close>

theorem cdf_unpack_summary_info_refuses:
  assumes "stream_ok h s" "sh_at + 2 ^ 26 < 0 \<or> int (sst_ss s * sst_len s) < sh_at"
  shows "\<exists>e. cdf_unpack_summary_info big sh_at s h = Failed e"
proof (rule never_read)
  have "cdf_check_stream_offset s h sh_at (unat l) = bad" if "\<not> unat l > CDF_SHLEN_LIMIT" for l :: u32
  proof -
    have "l < 2 ^ 26" using that by (simp add: word_less_nat_alt)
    then have "uint l < 2 ^ 26" by (simp add: word_less_def)
    then have "\<not> (0 \<le> sh_at + int (unat l) \<and> sh_at + int (unat l) \<le> int (sst_ss s * sst_len s))"
      using assms(2) uint_ge_0 [of l] by (simp only: uint_nat [symmetric]) linarith
    then show ?thesis by (simp only: cdf_check_stream_offset_def check_stream_ok [OF assms(1)] bind_answer.simps if_False)
  qed
  then have "cdf_read_property_info big sh_at s h offs [] 0 \<noteq> Read x" for offs x
    by (auto simp: cdf_read_property_info_def bind_read simp del: of_nat_mult)
  then show "cdf_unpack_summary_info big sh_at s h \<noteq> Read x" for x
    by (auto simp: cdf_unpack_summary_info_def bind_read)
qed (rule unpack_summary_safe [OF assms(1)])


text \<open>A stream of two sectors of 32 bytes, and a stack far above it.\<close>

definition stream1 :: cdf_stream where
  "stream1 = \<lparr>sst_tab = Some (replicate 64 0), sst_len = 2, sst_dirlen = 64, sst_ss = 32\<rparr>"

theorem cdf_unpack_summary_info_refuses_witness:
  "stream_ok header1 stream1 \<and> (\<exists>e. cdf_unpack_summary_info False 0x10000000000 stream1 header1 = Failed e)"
proof -
  have ok: "stream_ok header1 stream1" by (simp add: stream_ok_def stream1_def header1_def CDF_SEC_SIZE_def)
  then show ?thesis using cdf_unpack_summary_info_refuses [OF ok, where sh_at = "0x10000000000" and big = False] by (simp add: stream1_def)
qed

end
