(* ===== verification/Spec2Isabelle.thy ===== *)
theory Spec2Isabelle
  imports Prelude Bytes Encoding Utf8 Json Csv Tar Simh Magic_Types Funcs Detectors Der Cdf_Time Values Magiccheck Softprint Softmagic Frames Test_Safe Softmagic_Safe Tree_Walk Numeric_Test Ascmagic Magic_Db Strength Magic_Lex Magic_Parse Magic_Load Parse_Safe Parse_Line End_To_End Cdf Cdf_Chains Cdf_Props Readcdf Cdf_Safe
begin

text \<open>
  A verification development for \<^verbatim>\<open>file(1)\<close> and its library \<^verbatim>\<open>libmagic\<close>, the program that tells what a file is from
  its bytes and a database of patterns.

  \<^bold>\<open>The program.\<close>  A query (\<^verbatim>\<open>struct magic_set\<close>, here the record \<open>magic_set\<close> of \<open>Magic_Types\<close>) holds the flags,
  the limits, the output buffer, the error mark and the state of the engine.  Before the first query, the magic files
  are parsed and sorted, or a compiled database is mapped (\<^verbatim>\<open>src/apprentice.c\<close>).  A query reads the beginning of a
  file into a buffer and calls \<^verbatim>\<open>file_buffer\<close> (\<^verbatim>\<open>src/funcs.c\<close>), which finds the character encoding
  (\<^verbatim>\<open>src/encoding.c\<close>) and then tries, each unless a flag switches it off: decompression, the built-in detectors (tar,
  JSON, CSV, SIMH tapes), compound documents, ELF, the soft magic engine (\<^verbatim>\<open>src/softmagic.c\<close>) over the database,
  and the text test (\<^verbatim>\<open>src/ascmagic.c\<close>), which itself runs the engine on the text.  All of them print into the output
  buffer of the query through \<^verbatim>\<open>file_printf\<close>.

  \<^bold>\<open>Foundations.\<close>
  \<^item> \<open>Prelude\<close>: machine types, character classes of the C locale, theorem collections, generic lemmas.
  \<^item> \<open>Bytes\<close>: numbers as byte strings in both byte orders.
  \<^item> \<open>Magic_Types\<close> (\<^verbatim>\<open>src/file.h\<close>, \<^verbatim>\<open>src/magic.h.in\<close>): the constants, \<open>magic\<close> for \<^verbatim>\<open>struct magic\<close>,
    \<open>level_info\<close>, \<open>buffer\<close> and \<open>magic_set\<close>.
  \<^item> \<open>Funcs\<close> (\<^verbatim>\<open>src/funcs.c\<close>, \<^verbatim>\<open>src/print.c\<close>): checked printing, errors and warnings, separators, printable
    output, GUIDs.  The locale \<open>printing_op\<close> is the contract of everything that prints: the buffer stays consistent
    and an error, once marked, stays.  \<open>Frames\<close> extends it with what printing leaves alone.

  \<^bold>\<open>Detectors.\<close>
  \<^item> \<open>Encoding\<close> (\<^verbatim>\<open>src/encoding.c\<close>): the tests for ASCII, UTF-7, UTF-8, UTF-16, UTF-32, Latin-1, extended ASCII and EBCDIC
    and the detector that tries them.  The locale \<open>text_decoder\<close> bounds what a decoder writes, \<open>single_byte_test\<close>
    says what the table-driven ones accept.  \<open>Utf8\<close> compares the decoder and the encoder of \<^verbatim>\<open>src/ascmagic.c\<close> with
    the encoding form of RFC 3629: what the decoder accepts is well formed, and both are inverse to each other.
  \<^item> \<open>Json\<close>, \<open>Csv\<close>, \<open>Tar\<close>, \<open>Simh\<close> (\<^verbatim>\<open>src/is_json.c\<close>, \<^verbatim>\<open>src/is_csv.c\<close>, \<^verbatim>\<open>src/is_tar.c\<close>, \<^verbatim>\<open>src/is_simh.c\<close>):
    the four recognisers, each with its loops shown to end, what it accepts stated on an abstract syntax (JSON values,
    tables, headers, tapes) and what it must refuse.
  \<^item> \<open>Detectors\<close> (\<^verbatim>\<open>src/funcs.c\<close>): the four as the dispatcher calls them, and \<open>file_buffer\<close> itself.  The
    decompressor, the compound document detector and the ELF reader are arguments there (\<open>engines\<close>).  The locale \<open>detector\<close>
    is the contract of a detector; the order of the dispatch is a theorem.
  \<^item> \<open>Der\<close> (\<^verbatim>\<open>src/der.c\<close>): DER tags, lengths and contents as the magic type \<^verbatim>\<open>der\<close> reads them; the locales
    \<open>bounded_reader\<close> and \<open>header_readers\<close> carry the bounds of every read.
  \<^item> \<open>Ascmagic\<close> (\<^verbatim>\<open>src/ascmagic.c\<close>): the line statistics and the report on a text, compared with a description of
    the text on lists.
  \<^item> \<open>Cdf\<close> (\<^verbatim>\<open>src/cdf.c\<close>, \<^verbatim>\<open>src/cdf.h\<close>): compound documents, from the header over the allocation tables and the chains of sectors to the
    directory and the streams; \<open>Undef\<close> stands for an access outside an array or a failed assertion.  \<open>Cdf_Chains\<close>: the
    loops over the tables compared with the chain that a table describes; the locale \<open>sector_reader\<close> is the contract
    of what reads a sector.  \<open>Cdf_Props\<close>: property sets and catalogs.  \<open>Cdf_Time\<close> (\<^verbatim>\<open>src/cdf_time.c\<close>): Windows timestamps.
    \<open>Readcdf\<close> (\<^verbatim>\<open>src/readcdf.c\<close>): the report and the detector \<open>file_trycdf\<close>.  \<open>Cdf_Safe\<close>: on every file the detector stays
    inside its arrays and answers, and no summary is ever read, because of a mistaken address in the source.

  \<^bold>\<open>The soft magic engine\<close> (\<^verbatim>\<open>src/softmagic.c\<close>).
  \<^item> \<open>Values\<close>: the value union, byte swapping (\<^verbatim>\<open>src/swap.c\<close>), copying a value from the file, masks and operators.
  \<^item> \<open>Magiccheck\<close>: comparison of the value with an entry: numbers, strings with their flags, searches, regular
    expressions, DER, GUIDs.
  \<^item> \<open>Softprint\<close>: what a matching entry prints and where its continuations start.
  \<^item> \<open>Softmagic\<close>: offsets, indirection, the loop over entries and continuations, \<^verbatim>\<open>indirect\<close> and \<^verbatim>\<open>use\<close>.  The
    recursion of \<^verbatim>\<open>match\<close> is cut off by fuel (\<open>match_fuel\<close>); \<open>None\<close> is undefined behaviour or missing fuel.
  \<^item> \<open>Test_Safe\<close>, \<open>Softmagic_Safe\<close>: on a database as the parser makes it, the engine ends with a result and never
    reads or writes outside its arrays, whenever the fuel exceeds the sum of the two limits \<^verbatim>\<open>indir_max\<close> and \<^verbatim>\<open>name_max\<close>:
    every nested call of \<^verbatim>\<open>match\<close> raises one of the two counters, and \<^verbatim>\<open>mget\<close> refuses to go beyond them.  More fuel
    does not change the result.  The locale \<open>safe_matcher\<close> is the contract between a level of the recursion and the
    next one; it is interpreted on \<open>match_fuel\<close> by induction on the fuel.
  \<^item> \<open>Tree_Walk\<close>: the loops over the flat list of entries refine a walk over a forest of tests.
  \<^item> \<open>Numeric_Test\<close>: a numeric entry matches exactly when the number at its offset, in its width and byte order, stands
    in the relation of the entry to the number of the entry, as mathematical integers.

  \<^bold>\<open>Magic files and the database\<close> (\<^verbatim>\<open>src/apprentice.c\<close>).
  \<^item> \<open>Magic_Lex\<close>: numbers, type names, conditions, escapes, modifiers and format strings of a line.
  \<^item> \<open>Magic_Parse\<close>: a line of magic, in the stages of \<^verbatim>\<open>parse\<close>, and the annotations (\<^verbatim>\<open>!:mime\<close>, \<^verbatim>\<open>!:strength\<close> and so
    on).  A stage answers \<open>Next\<close>, \<open>Reject\<close> (the early return) or \<open>Abort\<close> (\<^verbatim>\<open>abort()\<close>).
  \<^item> \<open>Magic_Load\<close>: reading a file line by line, collecting the entries in groups, sorting and joining them.  The C
    library's \<^verbatim>\<open>qsort\<close> is an argument.
  \<^item> \<open>Strength\<close>: the strength of an entry, the comparison of two groups, text and binary marks.
  \<^item> \<open>Magic_Db\<close>: the bytes of the compiled database, in the byte order of the machine or the other one, and its checks.
  \<^item> \<open>Parse_Safe\<close>: no text makes the parser abort or leave its arrays, and every database it builds is well formed and
    sorted, which is what the engine relies on.  \<open>Parse_Line\<close>: the entry a numeric line stands for, and a write behind
    the array of the media type.

  \<^bold>\<open>Composition.\<close>  \<open>End_To_End\<close>: every database that the loader builds can be searched, and a magic file with a numeric line
  gives, loaded and searched, the answer that the line means.

  \<^bold>\<open>Parameters.\<close>  Floating-point arithmetic and its printing, \<^verbatim>\<open>regcomp\<close> and \<^verbatim>\<open>regexec\<close>, \<^verbatim>\<open>qsort\<close>, the formatting of dates
  and the descriptor of the file are arguments of the definitions that use them; where a theorem needs something of
  them (that a regular expression matches inside its subject, that \<^verbatim>\<open>qsort\<close> sorts by an order) it says so.  Memory
  allocation succeeds.  The host is a 64-bit machine with the C locale; its byte order is an argument where it matters.

  \<^bold>\<open>Not modelled.\<close>  The ELF reader (\<^verbatim>\<open>src/readelf.c\<close>) and decompression (\<^verbatim>\<open>src/compress.c\<close>, which runs other programs
  and calls compression libraries) are arguments of the dispatcher.  The command line, opening and reading files, file
  status and sandboxing (\<^verbatim>\<open>src/file.c\<close>, \<^verbatim>\<open>src/magic.c\<close>, \<^verbatim>\<open>src/fsmagic.c\<close>, \<^verbatim>\<open>src/seccomp.c\<close>, \<^verbatim>\<open>src/landlock.c\<close>, \<^verbatim>\<open>src/apptype.c\<close>) are input
  and output.  The regular expressions and most C library replacements under \<^verbatim>\<open>src/missing\<close> are vendored.  Of
  \<^verbatim>\<open>src/apprentice.c\<close>, the listing of entries, the lists of databases with their allocation and release, the search of
  directories for magic files and the mapping of the compiled file are left out; of \<^verbatim>\<open>src/softmagic.c\<close>, \<^verbatim>\<open>src/cdf.c\<close> and
  \<^verbatim>\<open>src/funcs.c\<close>, the debugging output.
\<close>

end
